(* ===== verification/Prelude.thy ===== *)
theory Prelude
  imports Main "HOL-Library.Sublist"
begin

text \<open>
  Prelude of the development: the part of Go's \<^verbatim>\<open>strings\<close>, \<^verbatim>\<open>strconv\<close> and
  \<^verbatim>\<open>encoding/hex\<close> packages that the program uses, and the generic facts on lists,
  characters and options the components share.

  A Go string is a byte sequence, so it is Isabelle's \<open>string\<close> (a \<open>char list\<close>,
  one \<open>char\<close> per byte).  A \<open>(value, ok)\<close> result is an option.  The constant
  \<open>replaceAll\<close> is used by the program with a non-empty \<open>old\<close> string only.
\<close>

named_theorems go_simps \<open>unfoldings of the small string operations\<close>

section \<open>Prefixes, suffixes and substrings\<close>

abbreviation hasPrefix :: "string \<Rightarrow> string \<Rightarrow> bool" where
  "hasPrefix s p \<equiv> prefix p s"

abbreviation hasSuffix :: "string \<Rightarrow> string \<Rightarrow> bool" where
  "hasSuffix s p \<equiv> suffix p s"

text \<open>\<^verbatim>\<open>strings.Index\<close>; \<open>None\<close> stands for -1.\<close>

fun index :: "string \<Rightarrow> string \<Rightarrow> nat option" where
  "index [] sub = (if sub = [] then Some 0 else None)"
| "index (c # cs) sub =
     (if prefix sub (c # cs) then Some 0 else map_option Suc (index cs sub))"

definition contains :: "string \<Rightarrow> string \<Rightarrow> bool" where
  "contains s sub \<longleftrightarrow> index s sub \<noteq> None"

text \<open>\<^verbatim>\<open>strings.ContainsAny\<close>: some character of \<open>chars\<close> occurs in \<open>s\<close>.\<close>

definition containsAny :: "string \<Rightarrow> string \<Rightarrow> bool" where
  "containsAny s chars \<longleftrightarrow> (\<exists>c \<in> set s. c \<in> set chars)"

text \<open>\<^verbatim>\<open>strings.Cut\<close>: the text around the first \<open>sep\<close>, and whether it was found.\<close>

definition cut :: "string \<Rightarrow> string \<Rightarrow> string \<times> string \<times> bool" where
  "cut s sep = (case index s sep of
     None \<Rightarrow> (s, [], False)
   | Some i \<Rightarrow> (take i s, drop (i + length sep) s, True))"

definition cutPrefix :: "string \<Rightarrow> string \<Rightarrow> string option" where
  "cutPrefix s p = (if prefix p s then Some (drop (length p) s) else None)"

definition cutSuffix :: "string \<Rightarrow> string \<Rightarrow> string option" where
  "cutSuffix s p = (if suffix p s then Some (take (length s - length p) s) else None)"

definition trimSuffix :: "string \<Rightarrow> string \<Rightarrow> string" where
  "trimSuffix s p = (case cutSuffix s p of Some t \<Rightarrow> t | None \<Rightarrow> s)"

text \<open>\<^verbatim>\<open>strings.TrimRight\<close> and \<^verbatim>\<open>strings.TrimLeft\<close> with a cutset of ASCII characters.\<close>

definition trimRight :: "string \<Rightarrow> string \<Rightarrow> string" where
  "trimRight s cutset = rev (dropWhile (\<lambda>c. c \<in> set cutset) (rev s))"

definition trimLeft :: "string \<Rightarrow> string \<Rightarrow> string" where
  "trimLeft s cutset = dropWhile (\<lambda>c. c \<in> set cutset) s"

section \<open>Splitting, joining and replacing\<close>

text \<open>\<^verbatim>\<open>strings.Split\<close> with a one-character separator, the only kind the program uses.\<close>

fun splitOn :: "char \<Rightarrow> string \<Rightarrow> string list" where
  "splitOn c [] = [[]]"
| "splitOn c (x # xs) =
     (if x = c then [] # splitOn c xs
      else case splitOn c xs of [] \<Rightarrow> [[x]] | h # t \<Rightarrow> (x # h) # t)"

fun joinWith :: "string \<Rightarrow> string list \<Rightarrow> string" where
  "joinWith sep [] = []"
| "joinWith sep [x] = x"
| "joinWith sep (x # y # r) = x @ sep @ joinWith sep (y # r)"

text \<open>\<^verbatim>\<open>strings.ReplaceAll\<close> for a non-empty \<open>old\<close>: left to right, non-overlapping.\<close>

function replaceAll :: "string \<Rightarrow> string \<Rightarrow> string \<Rightarrow> string" where
  "replaceAll s old new =
     (if old = [] then s
      else if prefix old s then new @ replaceAll (drop (length old) s) old new
      else case s of [] \<Rightarrow> [] | c # cs \<Rightarrow> c # replaceAll cs old new)"
  by pat_completeness auto
termination
  by (relation "measure (\<lambda>(s, old, new). length s)") (auto simp: prefix_def)

declare replaceAll.simps [simp del]

section \<open>Facts about substrings\<close>

lemma index_Some_iff_sublist: "(\<exists>i. index s sub = Some i) \<longleftrightarrow> sublist sub s"
proof (induction s sub rule: index.induct)
  case (1 sub)
  then show ?case by simp
next
  case (2 c cs sub)
  then show ?case by (auto simp: sublist_Cons_right)
qed

lemma contains_sublist: "contains s sub \<longleftrightarrow> sublist sub s"
  using index_Some_iff_sublist [of s sub] by (auto simp: contains_def)

lemma index_None: "index s sub = None \<longleftrightarrow> \<not> sublist sub s"
  using index_Some_iff_sublist [of s sub] by auto

lemma index_Some_split:
  "index s sub = Some i \<Longrightarrow> s = take i s @ sub @ drop (i + length sub) s"
proof (induction s sub arbitrary: i rule: index.induct)
  case (1 sub)
  then show ?case by (auto split: if_splits)
next
  case (2 c cs sub)
  show ?case
  proof (cases "prefix sub (c # cs)")
    case True
    then obtain r where r: "c # cs = sub @ r" by (auto simp: prefix_def)
    from True "2.prems" have "i = 0" by simp
    with r show ?thesis by simp
  next
    case False
    with "2.prems" obtain k where k: "index cs sub = Some k" and i: "i = Suc k" by auto
    from "2.IH" [OF False k] have "cs = take k cs @ sub @ drop (k + length sub) cs" .
    with i show ?thesis by simp
  qed
qed

lemma index_le_length: "index s sub = Some i \<Longrightarrow> i + length sub \<le> length s"
proof (induction s sub arbitrary: i rule: index.induct)
  case (1 sub)
  then show ?case by (auto split: if_splits)
next
  case (2 c cs sub)
  show ?case
  proof (cases "prefix sub (c # cs)")
    case True
    with "2.prems" have "i = 0" by simp
    with True prefix_length_le [OF True] show ?thesis by simp
  next
    case False
    with "2.prems" obtain k where "index cs sub = Some k" and "i = Suc k" by auto
    with "2.IH" [OF False] show ?thesis by simp
  qed
qed

lemma contains_Nil [simp]: "contains s []"
  by (simp add: contains_sublist)

lemma contains_append: "contains s sub \<Longrightarrow> contains (a @ s @ b) sub"
  by (simp add: contains_sublist sublist_appendI sublist_order.order.trans)

lemma contains_middle: "contains (a @ sub @ b) sub"
  by (simp add: contains_sublist)

text \<open>A one-character separator: the first part of a cut does not hold it.\<close>

lemma index_char: "index s [c] = (if c \<in> set s then Some (length (takeWhile (\<lambda>x. x \<noteq> c) s)) else None)"
  by (induction s) auto

lemma cut_char:
  "cut s [c] = (if c \<in> set s
     then (takeWhile (\<lambda>x. x \<noteq> c) s, tl (dropWhile (\<lambda>x. x \<noteq> c) s), True)
     else (s, [], False))"
proof (cases "c \<in> set s")
  case True
  let ?t = "takeWhile (\<lambda>x. x \<noteq> c) s" and ?d = "dropWhile (\<lambda>x. x \<noteq> c) s"
  have "s = ?t @ ?d" by simp
  then have "take (length ?t) s = ?t" "drop (length ?t) s = ?d"
    by (metis append_eq_conv_conj)+
  then have "drop (length ?t + 1) s = tl ?d" by (metis One_nat_def drop_drop drop_Suc add.commute plus_1_eq_Suc tl_drop drop0)
  with True \<open>take (length ?t) s = ?t\<close> show ?thesis
    by (simp add: cut_def index_char)
next
  case False
  then show ?thesis by (simp add: cut_def index_char)
qed

lemma cut_char_append: "c \<notin> set a \<Longrightarrow> cut (a @ c # b) [c] = (a, b, True)"
proof -
  assume "c \<notin> set a"
  then have "takeWhile (\<lambda>x. x \<noteq> c) (a @ c # b) = a" "dropWhile (\<lambda>x. x \<noteq> c) (a @ c # b) = c # b"
    by (induction a) auto
  then show ?thesis by (simp add: cut_char)
qed

lemma cut_char_absent: "c \<notin> set s \<Longrightarrow> cut s [c] = (s, [], False)"
  by (simp add: cut_char)

lemma cut_rebuild: "cut s sep = (a, b, True) \<Longrightarrow> s = a @ sep @ b"
  by (auto simp: cut_def split: option.splits dest: index_Some_split)

lemma cutPrefix_Some: "cutPrefix s p = Some t \<longleftrightarrow> s = p @ t"
  by (auto simp: cutPrefix_def prefix_def)

lemma cutPrefix_append [simp]: "cutPrefix (p @ t) p = Some t"
  by (simp add: cutPrefix_Some)

lemma cutSuffix_Some: "cutSuffix s p = Some t \<longleftrightarrow> s = t @ p"
  by (auto simp: cutSuffix_def suffix_def)

lemma cutSuffix_append [simp]: "cutSuffix (t @ p) p = Some t"
  by (simp add: cutSuffix_Some)

lemma trimSuffix_absent: "\<not> suffix p s \<Longrightarrow> trimSuffix s p = s"
  by (simp add: trimSuffix_def cutSuffix_def)

section \<open>Facts about splitting and joining\<close>

lemma splitOn_nonempty [simp]: "splitOn c s \<noteq> []"
  by (induction s) (auto split: list.splits)

lemma splitOn_no_sep: "p \<in> set (splitOn c s) \<Longrightarrow> c \<notin> set p"
proof (induction s arbitrary: p)
  case Nil
  then show ?case by simp
next
  case (Cons x xs)
  obtain h t where ht: "splitOn c xs = h # t"
    by (cases "splitOn c xs") auto
  from Cons ht show ?case by (auto split: if_splits)
qed

lemma joinWith_Cons: "xs \<noteq> [] \<Longrightarrow> joinWith sep (x # xs) = x @ sep @ joinWith sep xs"
  by (cases xs) auto

lemma joinWith_append:
  "xs \<noteq> [] \<Longrightarrow> ys \<noteq> [] \<Longrightarrow> joinWith sep (xs @ ys) = joinWith sep xs @ sep @ joinWith sep ys"
proof (induction xs)
  case Nil
  then show ?case by simp
next
  case (Cons x xs)
  then show ?case by (cases "xs = []") (auto simp: joinWith_Cons)
qed

lemma join_splitOn: "joinWith [c] (splitOn c s) = s"
proof (induction s)
  case Nil
  then show ?case by simp
next
  case (Cons x xs)
  obtain h t where ht: "splitOn c xs = h # t"
    by (cases "splitOn c xs") auto
  from Cons ht show ?case
    by (cases t) (auto simp: joinWith_Cons)
qed

lemma splitOn_absent: "c \<notin> set s \<Longrightarrow> splitOn c s = [s]"
  by (induction s) auto

lemma splitOn_append: "c \<notin> set a \<Longrightarrow> splitOn c (a @ c # b) = a # splitOn c b"
  by (induction a) auto

lemma splitOn_joinWith:
  "ps \<noteq> [] \<Longrightarrow> (\<And>p. p \<in> set ps \<Longrightarrow> c \<notin> set p) \<Longrightarrow> splitOn c (joinWith [c] ps) = ps"
proof (induction ps)
  case Nil
  then show ?case by simp
next
  case (Cons p ps)
  then show ?case
    by (cases "ps = []") (auto simp: joinWith_Cons splitOn_append splitOn_absent)
qed

lemma set_joinWith: "set (joinWith sep xs) \<subseteq> set sep \<union> \<Union> (set ` set xs)"
  by (induction sep xs rule: joinWith.induct) auto

section \<open>Facts about replacing\<close>

lemma replaceAll_Nil [simp]: "replaceAll [] old new = []"
  by (subst replaceAll.simps) auto

lemma replaceAll_hit:
  "old \<noteq> [] \<Longrightarrow> replaceAll (old @ s) old new = new @ replaceAll s old new"
  by (subst replaceAll.simps) simp

lemma replaceAll_miss:
  "\<not> prefix old (c # s) \<Longrightarrow> replaceAll (c # s) old new = c # replaceAll s old new"
  by (subst replaceAll.simps) auto

lemma replaceAll_absent: "\<not> contains s old \<Longrightarrow> replaceAll s old new = s"
proof (induction s)
  case Nil
  then show ?case by simp
next
  case (Cons c s)
  then have "\<not> prefix old (c # s)" "\<not> contains s old"
    by (auto simp: contains_sublist sublist_Cons_right)
  with Cons.IH show ?case by (simp add: replaceAll_miss)
qed

end
