(* ===== verification/Strconv.thy ===== *)
theory Strconv
  imports Prelude
begin

text \<open>
  Characters, decimal numbers and hexadecimal bytes: the parts of Go's
  \<^verbatim>\<open>strconv\<close>, \<^verbatim>\<open>encoding/hex\<close> and \<^verbatim>\<open>strings.ToLower\<close> the program calls,
  with their round trips.
\<close>

section \<open>Character classes\<close>

abbreviation ord :: "char \<Rightarrow> nat" where
  "ord c \<equiv> of_char c"

definition isDigit :: "char \<Rightarrow> bool" where
  "isDigit c \<longleftrightarrow> 48 \<le> ord c \<and> ord c \<le> 57"

definition isUpper :: "char \<Rightarrow> bool" where
  "isUpper c \<longleftrightarrow> 65 \<le> ord c \<and> ord c \<le> 90"

definition isLower :: "char \<Rightarrow> bool" where
  "isLower c \<longleftrightarrow> 97 \<le> ord c \<and> ord c \<le> 122"

definition isAlnum :: "char \<Rightarrow> bool" where
  "isAlnum c \<longleftrightarrow> isDigit c \<or> isUpper c \<or> isLower c"

definition lowerChar :: "char \<Rightarrow> char" where
  "lowerChar c = (if isUpper c then char_of (ord c + 32) else c)"

text \<open>
  \<^verbatim>\<open>strings.ToLower\<close> on UTF-8 bytes.  Two runes beyond ASCII have an ASCII lower-case
  form: U+0130 (bytes C4 B0) gives \<open>i\<close> and U+212A (bytes E2 84 AA) gives \<open>k\<close>.
  Other non-ASCII bytes stay (the code only looks for ASCII substrings in the result).
\<close>

fun toLower :: "string \<Rightarrow> string" where
  "toLower [] = []"
| "toLower (c # cs) =
     (if ord c = 196 then
        (case cs of [] \<Rightarrow> [c]
         | d # ds \<Rightarrow> if ord d = 176 then CHR ''i'' # toLower ds else c # toLower cs)
      else if ord c = 226 then
        (case cs of d # e # es \<Rightarrow>
           if ord d = 132 \<and> ord e = 170 then CHR ''k'' # toLower es else c # toLower cs
         | _ \<Rightarrow> c # toLower cs)
      else lowerChar c # toLower cs)"

text \<open>\<^verbatim>\<open>strings.EqualFold\<close> on ASCII strings.\<close>

definition equalFold :: "string \<Rightarrow> string \<Rightarrow> bool" where
  "equalFold s t \<longleftrightarrow> map lowerChar s = map lowerChar t"

lemma lowerChar_idem [simp]: "lowerChar (lowerChar c) = lowerChar c"
  by (auto simp: lowerChar_def isUpper_def)

lemma equalFold_refl [simp]: "equalFold s s"
  by (simp add: equalFold_def)

section \<open>Decimal numbers\<close>

definition digitChar :: "nat \<Rightarrow> char" where
  "digitChar d = ''0123456789'' ! d"

definition digitVal :: "char \<Rightarrow> nat" where
  "digitVal c = ord c - 48"

fun decimal :: "nat \<Rightarrow> string" where
  "decimal n = (if n < 10 then [digitChar n] else decimal (n div 10) @ [digitChar (n mod 10)])"

declare decimal.simps [simp del]

definition parseNat :: "string \<Rightarrow> nat" where
  "parseNat s = foldl (\<lambda>a c. 10 * a + digitVal c) 0 s"

text \<open>\<^verbatim>\<open>strconv.FormatInt(i, 10)\<close>.\<close>

definition formatInt :: "int \<Rightarrow> string" where
  "formatInt i = (if i < 0 then CHR ''-'' # decimal (nat (- i)) else decimal (nat i))"

text \<open>
  \<^verbatim>\<open>strconv.ParseInt(s, 10, 64)\<close> and \<^verbatim>\<open>strconv.Atoi\<close> (64-bit \<^verbatim>\<open>int\<close>): an optional
  sign, at least one digit, nothing else, and a value in range.
\<close>

definition parseDigits :: "string \<Rightarrow> nat option" where
  "parseDigits s = (if s \<noteq> [] \<and> list_all isDigit s then Some (parseNat s) else None)"

definition inInt64 :: "int \<Rightarrow> bool" where
  "inInt64 i \<longleftrightarrow> - (2 ^ 63) \<le> i \<and> i < 2 ^ 63"

definition atoi :: "string \<Rightarrow> int option" where
  "atoi s =
     (let v = (case s of
          c # cs \<Rightarrow>
            if c = CHR ''-'' then map_option (\<lambda>n. - int n) (parseDigits cs)
            else if c = CHR ''+'' then map_option int (parseDigits cs)
            else map_option int (parseDigits s)
        | [] \<Rightarrow> None)
      in case v of Some i \<Rightarrow> (if inInt64 i then Some i else None) | None \<Rightarrow> None)"

lemma ord_digitChar: "d < 10 \<Longrightarrow> ord (digitChar d) = 48 + d"
proof -
  assume "d < 10"
  then have "d = 0 \<or> d = 1 \<or> d = 2 \<or> d = 3 \<or> d = 4 \<or> d = 5 \<or> d = 6 \<or> d = 7 \<or> d = 8 \<or> d = 9"
    by arith
  then show ?thesis by (elim disjE) (simp_all add: digitChar_def)
qed

lemma digitVal_digitChar [simp]: "d < 10 \<Longrightarrow> digitVal (digitChar d) = d"
  by (simp add: digitVal_def ord_digitChar)

lemma isDigit_digitChar [simp]: "d < 10 \<Longrightarrow> isDigit (digitChar d)"
  by (simp add: isDigit_def ord_digitChar)

lemma digitChar_digitVal: "isDigit c \<Longrightarrow> digitChar (digitVal c) = c"
proof -
  assume d: "isDigit c"
  then have "digitVal c < 10" unfolding isDigit_def digitVal_def by linarith
  then have "ord (digitChar (digitVal c)) = ord c"
    using d by (simp add: ord_digitChar isDigit_def digitVal_def)
  then show ?thesis by (metis char_of_char)
qed

lemma digitVal_less: "isDigit c \<Longrightarrow> digitVal c < 10"
  unfolding isDigit_def digitVal_def by linarith

lemma decimal_nonempty [simp]: "decimal n \<noteq> []"
  by (subst decimal.simps) simp

lemma decimal_digits [simp]: "list_all isDigit (decimal n)"
proof (induction n rule: decimal.induct)
  case (1 n)
  then show ?case by (subst decimal.simps) auto
qed

lemma parseNat_snoc [simp]: "parseNat (s @ [c]) = 10 * parseNat s + digitVal c"
  by (simp add: parseNat_def)

lemma parseNat_decimal [simp]: "parseNat (decimal n) = n"
proof (induction n rule: decimal.induct)
  case (1 n)
  show ?case
  proof (cases "n < 10")
    case True
    then show ?thesis by (subst decimal.simps) (simp add: parseNat_def)
  next
    case False
    with 1 show ?thesis by (subst decimal.simps) simp
  qed
qed

lemma decimal_inj: "decimal m = decimal n \<longleftrightarrow> m = n"
  by (metis parseNat_decimal)

lemma parseDigits_decimal [simp]: "parseDigits (decimal n) = Some n"
  by (simp add: parseDigits_def)

lemma decimal_hd: "isDigit (hd (decimal n))"
  using decimal_digits [of n] decimal_nonempty [of n] by (cases "decimal n") auto

lemma atoi_decimal: "int n < 2 ^ 63 \<Longrightarrow> atoi (decimal n) = Some (int n)"
proof -
  assume n: "int n < 2 ^ 63"
  obtain c cs where d: "decimal n = c # cs"
    using decimal_nonempty [of n] by (cases "decimal n") auto
  then have "isDigit c" using decimal_hd [of n] by simp
  then have "c \<noteq> CHR ''-''" "c \<noteq> CHR ''+''" by (auto simp: isDigit_def)
  with d n parseDigits_decimal [of n] show ?thesis
    by (simp add: atoi_def inInt64_def)
qed

lemma atoi_formatInt: "inInt64 i \<Longrightarrow> atoi (formatInt i) = Some i"
proof (cases "i < 0")
  case True
  assume "inInt64 i"
  with True show ?thesis
    by (simp add: atoi_def formatInt_def inInt64_def)
next
  case False
  assume "inInt64 i"
  with False show ?thesis
    by (simp add: formatInt_def inInt64_def atoi_decimal)
qed

text \<open>What a successful parse says of the characters: sign and digits only.\<close>

lemma atoi_chars: "atoi s = Some i \<Longrightarrow> c \<in> set s \<Longrightarrow> isDigit c \<or> c = CHR ''-'' \<or> c = CHR ''+''"
  by (auto simp: atoi_def parseDigits_def Let_def list_all_iff split: list.splits if_splits option.splits)

section \<open>Hexadecimal bytes\<close>

definition hexChar :: "nat \<Rightarrow> char" where
  "hexChar d = ''0123456789abcdef'' ! d"

definition hexVal :: "char \<Rightarrow> nat option" where
  "hexVal c =
     (if isDigit c then Some (ord c - 48)
      else if 97 \<le> ord c \<and> ord c \<le> 102 then Some (ord c - 87)
      else if 65 \<le> ord c \<and> ord c \<le> 70 then Some (ord c - 55)
      else None)"

definition hexEncode :: "string \<Rightarrow> string" where
  "hexEncode s = concat (map (\<lambda>b. [hexChar (ord b div 16), hexChar (ord b mod 16)]) s)"

fun hexDecode :: "string \<Rightarrow> string option" where
  "hexDecode [] = Some []"
| "hexDecode [c] = None"
| "hexDecode (a # b # r) =
     (case (hexVal a, hexVal b, hexDecode r) of
        (Some x, Some y, Some t) \<Rightarrow> Some (char_of (16 * x + y) # t)
      | _ \<Rightarrow> None)"

lemma hexVal_hexChar [simp]: "d < 16 \<Longrightarrow> hexVal (hexChar d) = Some d"
proof -
  assume "d < 16"
  then have "d = 0 \<or> d = 1 \<or> d = 2 \<or> d = 3 \<or> d = 4 \<or> d = 5 \<or> d = 6 \<or> d = 7 \<or> d = 8 \<or> d = 9
      \<or> d = 10 \<or> d = 11 \<or> d = 12 \<or> d = 13 \<or> d = 14 \<or> d = 15"
    by arith
  then show ?thesis by (elim disjE) (simp_all add: hexVal_def hexChar_def isDigit_def)
qed

lemma ord_less_256: "ord c < 256"
  by (metis of_char_mod_256 mod_less_divisor zero_less_numeral)

lemma hexDecode_hexEncode [simp]: "hexDecode (hexEncode s) = Some s"
proof (induction s)
  case Nil
  then show ?case by (simp add: hexEncode_def)
next
  case (Cons b s)
  have "16 * (ord b div 16) + ord b mod 16 = ord b" by simp
  moreover have "ord b div 16 < 16" using ord_less_256 [of b] by linarith
  ultimately show ?case using Cons by (simp add: hexEncode_def)
qed

lemma hexEncode_inj: "hexEncode s = hexEncode t \<longleftrightarrow> s = t"
  by (metis hexDecode_hexEncode option.inject)

lemma hexEncode_nonempty: "s \<noteq> [] \<Longrightarrow> hexEncode s \<noteq> []"
  by (cases s) (auto simp: hexEncode_def)

lemma length_hexEncode: "length (hexEncode s) = 2 * length s"
  by (induction s) (auto simp: hexEncode_def)

end
