(* ===== verification/Protocol.thy ===== *)
theory Protocol
  imports Strconv
begin

text \<open>
  \<^verbatim>\<open>internal/protocol/protocol.go\<close>: the wire types shared by the three roles, the argv
  placeholders, and the media placeholder printer and parser.  Go maps that cross the
  wire (media, env) are association lists with distinct keys; where the code iterates
  over one, the order of the list stands for the iteration order the run time picked.
\<close>

section \<open>Constants\<close>

definition PlaceholderOutDir :: string where "PlaceholderOutDir = ''{{OUTDIR}}''"
definition PlaceholderPMS :: string where "PlaceholderPMS = ''{{PMS}}''"
definition PMSURLPrefix :: string where "PMSURLPrefix = ''http://127.0.0.1:32400''"
definition mediaPlaceholderPrefix :: string where "mediaPlaceholderPrefix = ''{{MEDIA:''"
definition mediaPlaceholderSuffix :: string where "mediaPlaceholderSuffix = ''}}''"
definition ExitWorkerLost :: int where "ExitWorkerLost = 75"

text \<open>Durations are integers in nanoseconds, as \<^verbatim>\<open>time.Duration\<close>.\<close>

definition millisecond :: int where "millisecond = 1000000"
definition second :: int where "second = 1000 * millisecond"
definition minute :: int where "minute = 60 * second"
definition HeartbeatInterval :: int where "HeartbeatInterval = 5 * second"
definition PeerTimeout :: int where "PeerTimeout = 10 * second"

lemmas duration_defs = millisecond_def second_def minute_def HeartbeatInterval_def PeerTimeout_def

section \<open>Wire types\<close>

datatype MediaMode = MediaModeStream | MediaModeSpool | MediaModeOther string

record MediaRef =
  mr_URL :: string
  mr_Mode :: MediaMode

record SessionInfo =
  si_ID :: string
  si_PushURL :: string
  si_PushToken :: string

record JobRequest =
  jr_JobID :: string
  jr_PlexBuild :: string
  jr_Argv :: "string list"
  jr_Media :: "(string \<times> MediaRef) list"
  jr_Env :: "(string \<times> string) list"
  jr_Session :: SessionInfo
  jr_MasterPMS :: string

datatype JobState =
    JobPending | JobPreparing | JobRunning | JobDraining
  | JobCompleted | JobCancelled | JobFailed | JobLost

text \<open>
  One NDJSON event.  The constructors are the four types of the protocol and an
  unknown type, which a reader accepts and ignores.  The code of an exit event is a
  pointer, so it may be absent.
\<close>

datatype Event =
    EventState JobState
  | EventStderr string
  | EventExit "int option"
  | EventHeartbeat
  | EventUnknown string

record Health =
  h_Status :: string
  h_PlexBuild :: string
  h_ActiveJobs :: int
  h_MaxJobs :: int
  h_VaapiOK :: bool
  h_CodecsReady :: "(string \<times> bool) list"

definition HealthOK :: string where "HealthOK = ''ok''"
definition HealthDegraded :: string where "HealthDegraded = ''degraded''"

definition zeroHealth :: Health where
  "zeroHealth = \<lparr>h_Status = [], h_PlexBuild = [], h_ActiveJobs = 0, h_MaxJobs = 0,
     h_VaapiOK = False, h_CodecsReady = []\<rparr>"

record WorkerStatus =
  ws_URL :: string
  ws_Healthy :: bool
  ws_Health :: Health

record RegisterSessionResponse =
  rs_PushToken :: string
  rs_AdvertiseURL :: string

record CodecFile =
  cf_Name :: string
  cf_Size :: int
  cf_SHA256 :: string

record CodecsManifest =
  cm_Build :: string
  cm_Files :: "CodecFile list"

text \<open>An HTTP answer as the handlers give it: a status and, for errors, the error code.\<close>

datatype HttpReply = Reply (reply_status: int) (reply_error: string)

abbreviation ok2xx :: "int \<Rightarrow> bool" where
  "ok2xx status \<equiv> status div 100 = 2"

section \<open>Media placeholders\<close>

definition MediaPlaceholder :: "nat \<Rightarrow> string" where
  "MediaPlaceholder n = mediaPlaceholderPrefix @ decimal n @ mediaPlaceholderSuffix"

definition ParseMediaPlaceholder :: "string \<Rightarrow> int option" where
  "ParseMediaPlaceholder s =
     (case cutPrefix s mediaPlaceholderPrefix of
        None \<Rightarrow> None
      | Some rest \<Rightarrow>
          (case cutSuffix rest mediaPlaceholderSuffix of
             None \<Rightarrow> None
           | Some inner \<Rightarrow>
               if inner = [] \<or> trimLeft inner ''0123456789'' \<noteq> [] then None
               else atoi inner))"

lemma set_digits: "c \<in> set ''0123456789'' \<longleftrightarrow> isDigit c"
proof
  assume "isDigit c"
  then have "c = digitChar (digitVal c)" "digitVal c < 10"
    by (simp_all add: digitChar_digitVal digitVal_less)
  moreover have "digitChar d \<in> set ''0123456789''" if "d < 10" for d
    unfolding digitChar_def using that by (intro nth_mem) simp
  ultimately show "c \<in> set ''0123456789''" by metis
qed (auto simp: isDigit_def)

lemma trimLeft_digits: "trimLeft s ''0123456789'' = [] \<longleftrightarrow> list_all isDigit s"
  unfolding trimLeft_def set_digits by (simp add: dropWhile_eq_Nil_conv list_all_iff)

lemma ParseMediaPlaceholder_shape:
  "ParseMediaPlaceholder s = Some i \<longleftrightarrow>
     (\<exists>ds. s = mediaPlaceholderPrefix @ ds @ mediaPlaceholderSuffix \<and> ds \<noteq> [] \<and>
        list_all isDigit ds \<and> i = int (parseNat ds) \<and> i < 2 ^ 63)"
proof -
  have dig: "list_all isDigit ds \<Longrightarrow> ds \<noteq> [] \<Longrightarrow>
      atoi ds = (if int (parseNat ds) < 2 ^ 63 then Some (int (parseNat ds)) else None)" for ds
  proof (cases ds)
    case (Cons c cs)
    assume d: "list_all isDigit ds" "ds \<noteq> []"
    with Cons have "c \<noteq> CHR ''-''" "c \<noteq> CHR ''+''" by (auto simp: isDigit_def)
    with Cons d show ?thesis by (simp add: atoi_def parseDigits_def inInt64_def)
  qed simp
  show ?thesis
    unfolding ParseMediaPlaceholder_def
    by (auto simp: trimLeft_digits dig cutPrefix_Some cutSuffix_Some split: option.splits if_splits)
qed

section \<open>Life cycle states\<close>

definition isTerminal :: "JobState \<Rightarrow> bool" where
  "isTerminal s \<longleftrightarrow> s \<in> {JobCompleted, JobFailed, JobCancelled, JobLost}"

lemma isTerminal_simps [simp]:
  "\<not> isTerminal JobPending" "\<not> isTerminal JobPreparing" "\<not> isTerminal JobRunning"
  "\<not> isTerminal JobDraining" "isTerminal JobCompleted" "isTerminal JobFailed"
  "isTerminal JobCancelled" "isTerminal JobLost"
  by (simp_all add: isTerminal_def)

end
