(* ===== verification/Transition.thy ===== *)
theory Transition
  imports Main
begin

text \<open>
  Reachability for systems given by a partial step function \<open>action \<Rightarrow> state \<Rightarrow> state option\<close>
  (\<open>None\<close>: the action is not enabled), the form every concurrent component of the
  development has: an action is one critical section or one move of the environment.
  The locale states once what an inductive invariant needs and gives it for every
  reachable state; each component interprets it on its own steps.
\<close>

inductive reachable :: "('a \<Rightarrow> 's \<Rightarrow> 's option) \<Rightarrow> 's \<Rightarrow> 's \<Rightarrow> bool"
  for step :: "'a \<Rightarrow> 's \<Rightarrow> 's option" and s0 :: 's where
  reach_init: "reachable step s0 s0"
| reach_step: "reachable step s0 s \<Longrightarrow> step a s = Some t \<Longrightarrow> reachable step s0 t"

text \<open>Running a list of actions, for concrete schedules.\<close>

fun run_actions :: "('a \<Rightarrow> 's \<Rightarrow> 's option) \<Rightarrow> 'a list \<Rightarrow> 's \<Rightarrow> 's option" where
  "run_actions step [] s = Some s"
| "run_actions step (a # as) s =
     (case step a s of None \<Rightarrow> None | Some t \<Rightarrow> run_actions step as t)"

lemma reachable_trans: "reachable step s t \<Longrightarrow> reachable step s0 s \<Longrightarrow> reachable step s0 t"
  by (induction rule: reachable.induct) (auto intro: reach_step)

lemma run_actions_reachable: "run_actions step as s = Some t \<Longrightarrow> reachable step s t"
proof (induction as arbitrary: s)
  case Nil
  then show ?case by (auto intro: reach_init)
next
  case (Cons a as)
  then obtain u where u: "step a s = Some u" "run_actions step as u = Some t"
    by (auto split: option.splits)
  then have "reachable step s u" by (auto intro: reachable.intros)
  with Cons.IH [OF u(2)] show ?case by (rule reachable_trans)
qed

lemma reachable_run: "reachable step s t \<Longrightarrow> \<exists>as. run_actions step as s = Some t"
proof (induction rule: reachable.induct)
  case reach_init
  have "run_actions step [] s = Some s" by simp
  then show ?case by blast
next
  case (reach_step u a t)
  then obtain as where "run_actions step as s = Some u" by blast
  moreover have "run_actions step (as @ bs) s = (case run_actions step as s of None \<Rightarrow> None
      | Some v \<Rightarrow> run_actions step bs v)" for bs
    by (induction as arbitrary: s) (auto split: option.splits)
  ultimately have "run_actions step (as @ [a]) s = Some t" using reach_step.hyps(2) by simp
  then show ?case by blast
qed

locale invariant_of =
  fixes step :: "'a \<Rightarrow> 's \<Rightarrow> 's option" and good_start :: "'s \<Rightarrow> bool" and inv :: "'s \<Rightarrow> bool"
  assumes inv_start: "good_start s \<Longrightarrow> inv s"
    and inv_step: "inv s \<Longrightarrow> step a s = Some t \<Longrightarrow> inv t"
begin

lemma inv_reachable_from: "reachable step s t \<Longrightarrow> inv s \<Longrightarrow> inv t"
  by (induction rule: reachable.induct) (auto intro: inv_step)

lemma inv_reachable: "good_start s \<Longrightarrow> reachable step s t \<Longrightarrow> inv t"
  by (blast intro: inv_start inv_reachable_from)

lemma inv_run: "good_start s \<Longrightarrow> run_actions step as s = Some t \<Longrightarrow> inv t"
  by (blast intro: inv_reachable run_actions_reachable)

end

end
