(* ===== verification/EventHub.thy ===== *)
theory EventHub
  imports Protocol Transition
begin

text \<open>
  \<^verbatim>\<open>internal/workerd/events.go\<close>: the fan-out of a job's events to its events-stream
  subscribers.  A Go channel is a record of its buffered events and its closed flag, kept
  in a store by channel number; the trace field \<open>ch_read\<close> holds what the receiver has
  taken so far.  What Go punishes with a panic (send on or close of a closed channel) and
  what would block with the hub's lock held (a snapshot larger than the buffer) are
  results of their own, so that their absence is a theorem.
\<close>

section \<open>State\<close>

definition stderrRingSize :: nat where "stderrRingSize = 200"
definition subBuffer :: nat where "subBuffer = 1024"

record chan =
  ch_buf :: "Event list"
  ch_read :: "Event list"
  ch_closed :: bool

record eventHub =
  eh_subs :: "nat list"
  eh_states :: "Event list"
  eh_stderr :: "Event list"
  eh_exit :: "Event option"
  eh_closed :: bool
  eh_chans :: "chan list"

definition newEventHub :: eventHub where
  "newEventHub = \<lparr>eh_subs = [], eh_states = [], eh_stderr = [], eh_exit = None,
     eh_closed = False, eh_chans = []\<rparr>"

datatype 's outcome = Done 's | Panic | Blocks

fun isStderr :: "Event \<Rightarrow> bool" where
  "isStderr (EventStderr l) = True"
| "isStderr _ = False"

section \<open>Operations\<close>

text \<open>The history part of \<^verbatim>\<open>publish\<close>.\<close>

fun recordEvent :: "Event \<Rightarrow> eventHub \<Rightarrow> eventHub" where
  "recordEvent (EventState st) h = h\<lparr>eh_states := eh_states h @ [EventState st]\<rparr>"
| "recordEvent (EventStderr l) h =
     (let lines = eh_stderr h @ [EventStderr l]
      in h\<lparr>eh_stderr := (if length lines > stderrRingSize
             then drop (length lines - stderrRingSize) lines else lines)\<rparr>)"
| "recordEvent (EventExit c) h = h\<lparr>eh_exit := Some (EventExit c)\<rparr>"
| "recordEvent _ h = h"

text \<open>
  One iteration of the delivery loop: a non-blocking send to channel \<open>ch\<close>; a subscriber
  too slow for a non-stderr event is removed and its channel closed.
\<close>

definition deliver :: "Event \<Rightarrow> nat \<Rightarrow> eventHub \<Rightarrow> eventHub outcome" where
  "deliver ev ch h =
     (let c = eh_chans h ! ch in
      if ch_closed c then Panic
      else if length (ch_buf c) < subBuffer
        then Done (h\<lparr>eh_chans := (eh_chans h)[ch := c\<lparr>ch_buf := ch_buf c @ [ev]\<rparr>]\<rparr>)
      else if isStderr ev then Done h
      else Done (h\<lparr>eh_subs := removeAll ch (eh_subs h),
                   eh_chans := (eh_chans h)[ch := c\<lparr>ch_closed := True\<rparr>]\<rparr>))"

fun deliverAll :: "Event \<Rightarrow> nat list \<Rightarrow> eventHub \<Rightarrow> eventHub outcome" where
  "deliverAll ev [] h = Done h"
| "deliverAll ev (ch # chs) h =
     (case deliver ev ch h of Done h' \<Rightarrow> deliverAll ev chs h' | Panic \<Rightarrow> Panic | Blocks \<Rightarrow> Blocks)"

definition publish :: "Event \<Rightarrow> eventHub \<Rightarrow> eventHub outcome" where
  "publish ev h =
     (if eh_closed h then Done h
      else let h' = recordEvent ev h in deliverAll ev (eh_subs h') h')"

definition snapshot :: "eventHub \<Rightarrow> Event list" where
  "snapshot h = eh_states h @ eh_stderr h @ (case eh_exit h of None \<Rightarrow> [] | Some e \<Rightarrow> [e])"

text \<open>
  \<^verbatim>\<open>subscribe\<close>: the new channel is the next number; its buffer is the snapshot.
\<close>

definition subscribe :: "eventHub \<Rightarrow> eventHub outcome" where
  "subscribe h =
     (if length (snapshot h) > subBuffer then Blocks
      else let ch = length (eh_chans h) in
       if eh_closed h
       then Done (h\<lparr>eh_chans := eh_chans h @ [\<lparr>ch_buf = snapshot h, ch_read = [], ch_closed = True\<rparr>]\<rparr>)
       else Done (h\<lparr>eh_chans := eh_chans h @ [\<lparr>ch_buf = snapshot h, ch_read = [], ch_closed = False\<rparr>],
                    eh_subs := ch # eh_subs h\<rparr>))"

definition unsubscribe :: "nat \<Rightarrow> eventHub \<Rightarrow> eventHub" where
  "unsubscribe ch h = h\<lparr>eh_subs := removeAll ch (eh_subs h)\<rparr>"

fun closeChans :: "nat list \<Rightarrow> eventHub \<Rightarrow> eventHub outcome" where
  "closeChans [] h = Done h"
| "closeChans (ch # chs) h =
     (let c = eh_chans h ! ch in
      if ch_closed c then Panic
      else closeChans chs (h\<lparr>eh_subs := removeAll ch (eh_subs h),
             eh_chans := (eh_chans h)[ch := c\<lparr>ch_closed := True\<rparr>]\<rparr>))"

definition closeHub :: "eventHub \<Rightarrow> eventHub outcome" where
  "closeHub h =
     (if eh_closed h then Done h else closeChans (eh_subs h) (h\<lparr>eh_closed := True\<rparr>))"

text \<open>The receiving side: one event taken from a channel's buffer.\<close>

definition receive :: "nat \<Rightarrow> eventHub \<Rightarrow> eventHub" where
  "receive ch h =
     (if ch < length (eh_chans h) then
        (let c = eh_chans h ! ch in
         case ch_buf c of
           [] \<Rightarrow> h
         | e # es \<Rightarrow> h\<lparr>eh_chans := (eh_chans h)[ch := c\<lparr>ch_buf := es, ch_read := ch_read c @ [e]\<rparr>]\<rparr>)
      else h)"

datatype hubOp = OpPublish Event | OpSubscribe | OpUnsubscribe nat | OpClose | OpReceive nat

fun hubStep :: "hubOp \<Rightarrow> eventHub \<Rightarrow> eventHub outcome" where
  "hubStep (OpPublish ev) h = publish ev h"
| "hubStep OpSubscribe h = subscribe h"
| "hubStep (OpUnsubscribe ch) h = Done (unsubscribe ch h)"
| "hubStep OpClose h = closeHub h"
| "hubStep (OpReceive ch) h = Done (receive ch h)"

fun hubRun :: "hubOp list \<Rightarrow> eventHub \<Rightarrow> eventHub outcome" where
  "hubRun [] h = Done h"
| "hubRun (x # xs) h =
     (case hubStep x h of Done h' \<Rightarrow> hubRun xs h' | Panic \<Rightarrow> Panic | Blocks \<Rightarrow> Blocks)"

section \<open>The invariant: live subscribers have open channels\<close>

definition hubOk :: "eventHub \<Rightarrow> bool" where
  "hubOk h \<longleftrightarrow> distinct (eh_subs h) \<and>
     (\<forall>ch \<in> set (eh_subs h). ch < length (eh_chans h) \<and> \<not> ch_closed (eh_chans h ! ch)) \<and>
     (eh_closed h \<longrightarrow> eh_subs h = []) \<and>
     length (eh_stderr h) \<le> stderrRingSize"

text \<open>Everything ever sent on a channel, and the part of it that must not be lost.\<close>

definition chanLog :: "eventHub \<Rightarrow> nat \<Rightarrow> Event list" where
  "chanLog h ch = ch_read (eh_chans h ! ch) @ ch_buf (eh_chans h ! ch)"

abbreviation lasting :: "Event list \<Rightarrow> Event list" where
  "lasting es \<equiv> filter (\<lambda>e. \<not> isStderr e) es"

lemma recordEvent_frame [simp]:
  "eh_subs (recordEvent ev h) = eh_subs h" "eh_chans (recordEvent ev h) = eh_chans h"
  "eh_closed (recordEvent ev h) = eh_closed h"
  by (cases ev; simp add: Let_def)+

lemma recordEvent_ring:
  "length (eh_stderr h) \<le> stderrRingSize \<Longrightarrow> length (eh_stderr (recordEvent ev h)) \<le> stderrRingSize"
  by (cases ev) (auto simp: Let_def)

lemma hubOk_recordEvent: "hubOk h \<Longrightarrow> hubOk (recordEvent ev h)"
  by (auto simp: hubOk_def recordEvent_ring)

lemma hubOk_new: "hubOk newEventHub"
  by (simp add: hubOk_def newEventHub_def)

lemma deliver_ok:
  assumes "hubOk h" "ch \<in> set (eh_subs h)"
  shows "\<exists>h'. deliver ev ch h = Done h' \<and> hubOk h' \<and> eh_closed h' = eh_closed h \<and>
    set (eh_subs h) - {ch} \<subseteq> set (eh_subs h') \<and> set (eh_subs h') \<subseteq> set (eh_subs h) \<and>
    (\<forall>d. d \<noteq> ch \<longrightarrow> eh_chans h' ! d = eh_chans h ! d) \<and>
    (ch \<in> set (eh_subs h') \<longrightarrow>
       lasting (chanLog h' ch) = lasting (chanLog h ch) @ lasting [ev]) \<and>
    eh_states h' = eh_states h \<and> eh_stderr h' = eh_stderr h \<and> eh_exit h' = eh_exit h"
proof -
  let ?c = "eh_chans h ! ch"
  have open_ch: "\<not> ch_closed ?c" "ch < length (eh_chans h)" using assms by (auto simp: hubOk_def)
  consider (room) "length (ch_buf ?c) < subBuffer" | (skip) "\<not> length (ch_buf ?c) < subBuffer" "isStderr ev"
    | (drop) "\<not> length (ch_buf ?c) < subBuffer" "\<not> isStderr ev" by blast
  then show ?thesis
  proof cases
    case room
    then have "deliver ev ch h = Done (h\<lparr>eh_chans := (eh_chans h)[ch := ?c\<lparr>ch_buf := ch_buf ?c @ [ev]\<rparr>]\<rparr>)"
      using open_ch by (simp add: deliver_def Let_def)
    then show ?thesis using assms open_ch
      by (auto simp: hubOk_def chanLog_def nth_list_update)
  next
    case skip
    then have "deliver ev ch h = Done h" using open_ch by (simp add: deliver_def Let_def)
    then show ?thesis using assms skip by (auto simp: chanLog_def)
  next
    case drop
    then have "deliver ev ch h = Done (h\<lparr>eh_subs := removeAll ch (eh_subs h),
        eh_chans := (eh_chans h)[ch := ?c\<lparr>ch_closed := True\<rparr>]\<rparr>)"
      using open_ch by (simp add: deliver_def Let_def)
    then show ?thesis using assms open_ch
      by (auto simp: hubOk_def nth_list_update distinct_removeAll)
  qed
qed

text \<open>What delivering one event to a set of live channels establishes.\<close>

definition delivered :: "Event \<Rightarrow> nat list \<Rightarrow> eventHub \<Rightarrow> eventHub \<Rightarrow> bool" where
  "delivered ev chs h h' \<longleftrightarrow> hubOk h' \<and> eh_closed h' = eh_closed h \<and>
     set (eh_subs h') \<subseteq> set (eh_subs h) \<and>
     (\<forall>d. d \<notin> set chs \<longrightarrow> eh_chans h' ! d = eh_chans h ! d) \<and>
     (\<forall>d. d \<in> set chs \<longrightarrow> d \<in> set (eh_subs h') \<longrightarrow>
        lasting (chanLog h' d) = lasting (chanLog h d) @ lasting [ev]) \<and>
     eh_states h' = eh_states h \<and> eh_stderr h' = eh_stderr h \<and> eh_exit h' = eh_exit h"

lemma delivered_Nil: "hubOk h \<Longrightarrow> delivered ev [] h h"
  by (simp add: delivered_def)

lemma delivered_Cons:
  assumes "delivered ev [ch] h h1" "delivered ev chs h1 h2" "ch \<notin> set chs"
  shows "delivered ev (ch # chs) h h2"
proof -
  have same: "d \<noteq> ch \<Longrightarrow> chanLog h1 d = chanLog h d" for d
    using assms(1) by (simp add: delivered_def chanLog_def)
  have "chanLog h2 ch = chanLog h1 ch"
    using assms(2,3) by (simp add: delivered_def chanLog_def)
  moreover have "set (eh_subs h2) \<subseteq> set (eh_subs h1)" using assms(2) by (simp add: delivered_def)
  ultimately have "lasting (chanLog h2 d) = lasting (chanLog h d) @ lasting [ev]"
    if "d \<in> set (ch # chs)" "d \<in> set (eh_subs h2)" for d
    using assms same [of d] that by (cases "d = ch") (auto simp: delivered_def)
  then show ?thesis using assms by (auto simp: delivered_def)
qed

lemma deliver_delivered:
  assumes "hubOk h" "ch \<in> set (eh_subs h)"
  shows "\<exists>h'. deliver ev ch h = Done h' \<and> delivered ev [ch] h h' \<and>
    set (eh_subs h) - {ch} \<subseteq> set (eh_subs h')"
  using deliver_ok [OF assms, of ev] by (elim exE) (simp add: delivered_def)

lemma deliverAll_ok:
  "hubOk h \<Longrightarrow> distinct chs \<Longrightarrow> set chs \<subseteq> set (eh_subs h) \<Longrightarrow>
   \<exists>h'. deliverAll ev chs h = Done h' \<and> delivered ev chs h h'"
proof (induction chs arbitrary: h)
  case Nil
  then show ?case by (simp add: delivered_Nil)
next
  case (Cons ch chs)
  from Cons.prems have "ch \<in> set (eh_subs h)" by simp
  with deliver_delivered [OF Cons.prems(1)] obtain h1 where h1: "deliver ev ch h = Done h1"
    "delivered ev [ch] h h1" "set (eh_subs h) - {ch} \<subseteq> set (eh_subs h1)" by blast
  have "set chs \<subseteq> set (eh_subs h1)" using Cons.prems(2,3) h1(3) by auto
  moreover have "hubOk h1" "distinct chs" "ch \<notin> set chs"
    using h1(2) Cons.prems(2) by (simp_all add: delivered_def)
  ultimately obtain h2 where "deliverAll ev chs h1 = Done h2" "delivered ev chs h1 h2"
    using Cons.IH by blast
  with h1 \<open>ch \<notin> set chs\<close> show ?case by (auto intro: delivered_Cons)
qed

lemma publish_ok:
  assumes "hubOk h"
  shows "\<exists>h'. publish ev h = Done h' \<and>
    (if eh_closed h then h' = h else delivered ev (eh_subs h) (recordEvent ev h) h')"
proof (cases "eh_closed h")
  case True
  then show ?thesis by (simp add: publish_def)
next
  case False
  have "hubOk (recordEvent ev h)" "distinct (eh_subs h)"
    using assms by (simp_all add: hubOk_recordEvent) (simp add: hubOk_def)
  with deliverAll_ok [of "recordEvent ev h" "eh_subs h" ev] False show ?thesis
    by (simp add: publish_def Let_def)
qed

lemma closeChans_ok:
  "distinct chs \<Longrightarrow> (\<And>ch. ch \<in> set chs \<Longrightarrow> ch < length (eh_chans h) \<and> \<not> ch_closed (eh_chans h ! ch)) \<Longrightarrow>
   \<exists>h'. closeChans chs h = Done h' \<and> eh_subs h' = filter (\<lambda>d. d \<notin> set chs) (eh_subs h) \<and>
     eh_closed h' = eh_closed h \<and> eh_stderr h' = eh_stderr h \<and>
     eh_states h' = eh_states h \<and> eh_exit h' = eh_exit h \<and>
     (\<forall>d \<in> set chs. ch_closed (eh_chans h' ! d)) \<and>
     (\<forall>d. chanLog h' d = chanLog h d) \<and>
     (\<forall>d. d \<notin> set chs \<longrightarrow> eh_chans h' ! d = eh_chans h ! d)"
proof (induction chs arbitrary: h)
  case Nil
  then show ?case by simp
next
  case (Cons ch chs)
  let ?c = "eh_chans h ! ch"
  let ?h1 = "h\<lparr>eh_subs := removeAll ch (eh_subs h), eh_chans := (eh_chans h)[ch := ?c\<lparr>ch_closed := True\<rparr>]\<rparr>"
  have ch: "ch < length (eh_chans h)" "\<not> ch_closed ?c" "ch \<notin> set chs" "distinct chs"
    using Cons.prems by auto
  have "d < length (eh_chans ?h1) \<and> \<not> ch_closed (eh_chans ?h1 ! d)" if "d \<in> set chs" for d
    using that ch(3) Cons.prems(2) [of d] by (cases "d = ch") auto
  from Cons.IH [OF ch(4) this] obtain h' where h': "closeChans chs ?h1 = Done h'"
    "eh_subs h' = filter (\<lambda>d. d \<notin> set chs) (eh_subs ?h1)" "eh_closed h' = eh_closed ?h1"
    "eh_stderr h' = eh_stderr ?h1" "eh_states h' = eh_states ?h1" "eh_exit h' = eh_exit ?h1"
    "\<forall>d \<in> set chs. ch_closed (eh_chans h' ! d)" "\<forall>d. chanLog h' d = chanLog ?h1 d"
    "\<forall>d. d \<notin> set chs \<longrightarrow> eh_chans h' ! d = eh_chans ?h1 ! d"
    by blast
  have "chanLog ?h1 d = chanLog h d" for d
    using ch(1) by (cases "d = ch") (simp_all add: chanLog_def)
  moreover have "filter (\<lambda>d. d \<notin> set chs) (removeAll ch (eh_subs h)) =
      filter (\<lambda>d. d \<notin> set (ch # chs)) (eh_subs h)"
    by (simp add: removeAll_filter_not_eq) (metis (mono_tags, lifting))
  moreover have "closeChans (ch # chs) h = Done h'"
    using ch h'(1) by (simp add: Let_def)
  ultimately show ?case using h'(2-9) ch(1,3) by (intro exI [of _ h']) auto
qed

lemma closeHub_ok:
  assumes "hubOk h"
  shows "\<exists>h'. closeHub h = Done h' \<and> hubOk h' \<and> eh_closed h' \<and> eh_subs h' = [] \<and>
    eh_stderr h' = eh_stderr h \<and> eh_states h' = eh_states h \<and> eh_exit h' = eh_exit h \<and>
    (\<forall>d \<in> set (eh_subs h). ch_closed (eh_chans h' ! d)) \<and> (\<forall>d. chanLog h' d = chanLog h d)"
proof (cases "eh_closed h")
  case True
  with assms show ?thesis by (simp add: closeHub_def hubOk_def)
next
  case False
  have "distinct (eh_subs h)" using assms by (simp add: hubOk_def)
  from closeChans_ok [OF this, of "h\<lparr>eh_closed := True\<rparr>"] assms obtain h' where
    "closeChans (eh_subs h) (h\<lparr>eh_closed := True\<rparr>) = Done h'" "eh_subs h' = []" "eh_closed h'"
    "eh_stderr h' = eh_stderr h" "eh_states h' = eh_states h" "eh_exit h' = eh_exit h"
    "\<forall>d \<in> set (eh_subs h). ch_closed (eh_chans h' ! d)"
    "\<forall>d. chanLog h' d = chanLog (h\<lparr>eh_closed := True\<rparr>) d"
    by (auto simp: hubOk_def)
  with False assms show ?thesis by (simp add: closeHub_def hubOk_def chanLog_def)
qed

lemma receive_ok: "hubOk h \<Longrightarrow> hubOk (receive ch h)"
  by (auto simp: receive_def Let_def hubOk_def nth_list_update split: list.splits)

lemma receive_frame [simp]:
  "eh_subs (receive ch h) = eh_subs h" "eh_closed (receive ch h) = eh_closed h"
  "eh_states (receive ch h) = eh_states h" "eh_stderr (receive ch h) = eh_stderr h"
  "eh_exit (receive ch h) = eh_exit h" "chanLog (receive ch h) d = chanLog h d"
  by (auto simp: receive_def Let_def chanLog_def nth_list_update split: list.splits)

lemma subscribe_ok:
  assumes "hubOk h" "length (snapshot h) \<le> subBuffer"
  shows "\<exists>h'. subscribe h = Done h' \<and> hubOk h' \<and> eh_closed h' = eh_closed h \<and>
    eh_stderr h' = eh_stderr h \<and> eh_states h' = eh_states h \<and> eh_exit h' = eh_exit h \<and>
    chanLog h' (length (eh_chans h)) = snapshot h \<and>
    (\<forall>d < length (eh_chans h). chanLog h' d = chanLog h d)"
proof -
  have "length (eh_chans h) \<notin> set (eh_subs h)" using assms(1) by (auto simp: hubOk_def)
  with assms show ?thesis by (auto simp: subscribe_def Let_def hubOk_def chanLog_def nth_append)
qed

text \<open>One operation: no panic, and the invariant is kept.\<close>

lemma hubStep_ok:
  assumes "hubOk h" "x = OpSubscribe \<Longrightarrow> length (snapshot h) \<le> subBuffer"
  shows "\<exists>h'. hubStep x h = Done h' \<and> hubOk h'"
proof (cases x)
  case (OpPublish ev)
  with publish_ok [OF assms(1), of ev] assms(1) show ?thesis
    by (auto simp: delivered_def split: if_splits)
next
  case OpSubscribe
  with subscribe_ok [OF assms(1)] assms(2) show ?thesis by auto
next
  case (OpUnsubscribe ch)
  with assms(1) show ?thesis by (auto simp: unsubscribe_def hubOk_def distinct_removeAll)
next
  case OpClose
  with closeHub_ok [OF assms(1)] show ?thesis by auto
next
  case (OpReceive ch)
  with receive_ok [OF assms(1)] show ?thesis by auto
qed

lemma hubStep_cases:
  assumes "hubOk h"
  shows "(\<exists>h'. hubStep x h = Done h' \<and> hubOk h') \<or> hubStep x h = Blocks"
proof (cases "x = OpSubscribe \<and> length (snapshot h) > subBuffer")
  case True
  then show ?thesis by (simp add: subscribe_def)
next
  case False
  then show ?thesis using hubStep_ok [OF assms, of x] by auto
qed

section \<open>Runs of the hub\<close>

fun publishedBy :: "hubOp list \<Rightarrow> Event list" where
  "publishedBy [] = []"
| "publishedBy (OpPublish ev # xs) = ev # publishedBy xs"
| "publishedBy (_ # xs) = publishedBy xs"

fun isStateEvent :: "Event \<Rightarrow> bool" where
  "isStateEvent (EventState st) = True"
| "isStateEvent _ = False"

lemma hubRun_cases:
  "hubOk h \<Longrightarrow> (\<exists>h'. hubRun ops h = Done h' \<and> hubOk h') \<or> hubRun ops h = Blocks"
proof (induction ops arbitrary: h)
  case Nil
  then show ?case by simp
next
  case (Cons x xs)
  from hubStep_cases [OF Cons.prems, of x] show ?case
  proof (elim disjE exE conjE)
    fix h1 assume "hubStep x h = Done h1" "hubOk h1"
    with Cons.IH [of h1] show ?thesis by simp
  qed simp
qed

lemma hubRun_hubOk: "hubOk h \<Longrightarrow> hubRun ops h = Done h' \<Longrightarrow> hubOk h'"
  using hubRun_cases [of h ops] by auto

text \<open>One step, seen from a channel that is still subscribed after it.\<close>

lemma hubStep_log:
  assumes "hubOk h" "hubStep x h = Done h'" "ch \<in> set (eh_subs h)" "ch \<in> set (eh_subs h')"
  shows "lasting (chanLog h' ch) = lasting (chanLog h ch) @ lasting (publishedBy [x])"
proof (cases x)
  case (OpPublish ev)
  have "\<not> eh_closed h" using assms(1,3) by (auto simp: hubOk_def)
  with publish_ok [OF assms(1), of ev] OpPublish assms(2)
  have "delivered ev (eh_subs h) (recordEvent ev h) h'" by simp
  with assms(3,4) OpPublish show ?thesis by (simp add: delivered_def chanLog_def)
next
  case OpSubscribe
  with assms(2) have "length (snapshot h) \<le> subBuffer" by (auto simp: subscribe_def split: if_splits)
  from subscribe_ok [OF assms(1) this] OpSubscribe assms show ?thesis
    by (auto simp: hubOk_def)
next
  case (OpUnsubscribe c)
  with assms show ?thesis by (auto simp: unsubscribe_def chanLog_def)
next
  case OpClose
  with closeHub_ok [OF assms(1)] assms(2,4) show ?thesis by auto
next
  case (OpReceive c)
  with assms show ?thesis by auto
qed

lemma hubStep_subs_back:
  assumes "hubOk h" "hubStep x h = Done h'" "ch \<in> set (eh_subs h')" "ch < length (eh_chans h)"
  shows "ch \<in> set (eh_subs h)"
proof (cases x)
  case (OpPublish ev)
  with publish_ok [OF assms(1), of ev] assms(2,3) show ?thesis
    by (auto simp: delivered_def split: if_splits)
next
  case OpSubscribe
  with assms(2-4) show ?thesis by (auto simp: subscribe_def Let_def split: if_splits)
next
  case (OpUnsubscribe c)
  with assms(2,3) show ?thesis by (auto simp: unsubscribe_def)
next
  case OpClose
  with closeHub_ok [OF assms(1)] assms(2,3) show ?thesis by auto
next
  case (OpReceive c)
  with assms(2,3) show ?thesis by auto
qed

lemma closeChans_length: "closeChans chs h = Done h' \<Longrightarrow> length (eh_chans h') = length (eh_chans h)"
  by (induction chs arbitrary: h) (auto simp: Let_def split: if_splits)

lemma deliverAll_length: "deliverAll ev chs h = Done h' \<Longrightarrow> length (eh_chans h') = length (eh_chans h)"
  by (induction chs arbitrary: h)
    (auto simp: deliver_def Let_def split: if_splits outcome.splits)

lemma hubStep_length: "hubStep x h = Done h' \<Longrightarrow> length (eh_chans h) \<le> length (eh_chans h')"
  by (cases x) (auto simp: publish_def subscribe_def unsubscribe_def closeHub_def receive_def Let_def
    dest!: deliverAll_length closeChans_length split: if_splits list.splits)

lemma hubRun_subs_back:
  "hubOk h \<Longrightarrow> hubRun ops h = Done h' \<Longrightarrow> ch \<in> set (eh_subs h') \<Longrightarrow> ch < length (eh_chans h) \<Longrightarrow>
   ch \<in> set (eh_subs h)"
proof (induction ops arbitrary: h)
  case Nil
  then show ?case by simp
next
  case (Cons x xs)
  from Cons.prems(2) obtain h1 where h1: "hubStep x h = Done h1" "hubRun xs h1 = Done h'"
    by (auto split: outcome.splits)
  have "hubOk h1" using hubStep_cases [OF Cons.prems(1), of x] h1(1) by auto
  moreover have "ch < length (eh_chans h1)" using hubStep_length [OF h1(1)] Cons.prems(4) by simp
  ultimately have "ch \<in> set (eh_subs h1)" using Cons.IH h1(2) Cons.prems(3) by blast
  with hubStep_subs_back [OF Cons.prems(1) h1(1)] Cons.prems(4) show ?case by blast
qed

lemma hubRun_log:
  assumes "hubOk h" "hubRun ops h = Done h'" "ch \<in> set (eh_subs h)" "ch \<in> set (eh_subs h')"
  shows "lasting (chanLog h' ch) = lasting (chanLog h ch) @ lasting (publishedBy ops)"
  using assms
proof (induction ops arbitrary: h)
  case Nil
  then show ?case by simp
next
  case (Cons x xs)
  from Cons.prems(2) obtain h1 where h1: "hubStep x h = Done h1" "hubRun xs h1 = Done h'"
    by (auto split: outcome.splits)
  have ok1: "hubOk h1" using hubStep_cases [OF Cons.prems(1), of x] h1(1) by auto
  have "ch < length (eh_chans h)" using Cons.prems(1,3) by (auto simp: hubOk_def)
  then have "ch \<in> set (eh_subs h1)"
    using hubRun_subs_back [OF ok1 h1(2) Cons.prems(4)] hubStep_length [OF h1(1)] by simp
  with hubStep_log [OF Cons.prems(1) h1(1) Cons.prems(3)] Cons.IH [OF ok1 h1(2)] Cons.prems(4)
  show ?case by (cases x) auto
qed

lemma hubStep_states:
  assumes "hubOk h" "hubStep x h = Done h'"
  shows "length (eh_states h') \<le> length (eh_states h) + length (filter isStateEvent (publishedBy [x]))"
proof (cases x)
  case (OpPublish ev)
  with publish_ok [OF assms(1), of ev] assms(2) show ?thesis
    by (cases ev) (auto simp: delivered_def Let_def split: if_splits)
next
  case OpSubscribe
  with assms(2) show ?thesis by (auto simp: subscribe_def Let_def split: if_splits)
next
  case (OpUnsubscribe c)
  with assms(2) show ?thesis by (auto simp: unsubscribe_def)
next
  case OpClose
  with closeHub_ok [OF assms(1)] assms(2) show ?thesis by auto
next
  case (OpReceive c)
  with assms(2) show ?thesis by auto
qed

text \<open>A snapshot of a hub with a bounded state history fits the subscriber's buffer.\<close>

lemma snapshot_fits:
  "hubOk h \<Longrightarrow> length (eh_states h) + stderrRingSize + 1 \<le> subBuffer \<Longrightarrow>
   length (snapshot h) \<le> subBuffer"
  by (auto simp: snapshot_def hubOk_def split: option.splits)

lemma hubRun_total:
  "hubOk h \<Longrightarrow> length (eh_states h) + length (filter isStateEvent (publishedBy ops))
     + stderrRingSize + 1 \<le> subBuffer \<Longrightarrow> \<exists>h'. hubRun ops h = Done h' \<and> hubOk h'"
proof (induction ops arbitrary: h)
  case Nil
  then show ?case by simp
next
  case (Cons x xs)
  have split: "publishedBy (x # xs) = publishedBy [x] @ publishedBy xs" by (cases x) auto
  have "length (snapshot h) \<le> subBuffer"
    using Cons.prems by (intro snapshot_fits) auto
  with hubStep_ok [OF Cons.prems(1)] obtain h1 where h1: "hubStep x h = Done h1" "hubOk h1" by blast
  have "length (eh_states h1) + length (filter isStateEvent (publishedBy xs)) + stderrRingSize + 1 \<le> subBuffer"
    using hubStep_states [OF Cons.prems(1) h1(1)] Cons.prems(2) unfolding split by simp
  from Cons.IH [OF h1(2) this] h1(1) show ?case by simp
qed

lemma hubStep_ring:
  assumes "hubOk h" "hubStep x h = Done h'"
  shows "eh_closed h \<Longrightarrow> eh_closed h'" and
    "\<not> eh_closed h' \<Longrightarrow> eh_stderr h' =
       (let lines = eh_stderr h @ filter isStderr (publishedBy [x])
        in drop (length lines - stderrRingSize) lines)"
proof -
  have short: "length (eh_stderr h) \<le> stderrRingSize" using assms(1) by (simp add: hubOk_def)
  have "(eh_closed h \<longrightarrow> eh_closed h') \<and> (\<not> eh_closed h' \<longrightarrow> eh_stderr h' =
       (let lines = eh_stderr h @ filter isStderr (publishedBy [x])
        in drop (length lines - stderrRingSize) lines))"
  proof (cases x)
    case (OpPublish ev)
    with publish_ok [OF assms(1), of ev] assms(2) short show ?thesis
      by (cases ev) (auto simp: delivered_def Let_def split: if_splits)
  next
    case OpSubscribe
    with assms(2) short show ?thesis by (auto simp: subscribe_def Let_def split: if_splits)
  next
    case (OpUnsubscribe c)
    with assms(2) short show ?thesis by (auto simp: unsubscribe_def)
  next
    case OpClose
    with closeHub_ok [OF assms(1)] assms(2) show ?thesis by auto
  next
    case (OpReceive c)
    with assms(2) short show ?thesis by auto
  qed
  then show "eh_closed h \<Longrightarrow> eh_closed h'" and "\<not> eh_closed h' \<Longrightarrow> eh_stderr h' =
       (let lines = eh_stderr h @ filter isStderr (publishedBy [x])
        in drop (length lines - stderrRingSize) lines)" by auto
qed

lemma drop_ring: "drop (length (drop (length a - n) a @ b) - n) (drop (length a - n) a @ b) =
    drop (length (a @ b) - n) (a @ b)"
  by (cases "length b \<le> n"; cases "length a \<le> n") (auto simp: add.commute)

lemma hubRun_ring:
  "hubOk h \<Longrightarrow> hubRun ops h = Done h' \<Longrightarrow> \<not> eh_closed h' \<Longrightarrow>
   eh_stderr h = drop (length a - stderrRingSize) a \<Longrightarrow>
   \<not> eh_closed h \<and> eh_stderr h' = (let lines = a @ filter isStderr (publishedBy ops)
     in drop (length lines - stderrRingSize) lines)"
proof (induction ops arbitrary: h a)
  case Nil
  then show ?case by simp
next
  case (Cons x xs)
  have split: "publishedBy (x # xs) = publishedBy [x] @ publishedBy xs" by (cases x) auto
  from Cons.prems(2) obtain h1 where h1: "hubStep x h = Done h1" "hubRun xs h1 = Done h'"
    by (auto split: outcome.splits)
  have ok1: "hubOk h1" using hubStep_cases [OF Cons.prems(1), of x] h1(1) by auto
  show ?case
  proof (cases "eh_closed h1")
    case True
    have "eh_closed g \<Longrightarrow> hubOk g \<Longrightarrow> hubRun ys g = Done h' \<Longrightarrow> eh_closed h'" for g ys
    proof (induction ys arbitrary: g)
      case (Cons y ys)
      then obtain g1 where g1: "hubStep y g = Done g1" "hubRun ys g1 = Done h'"
        by (auto split: outcome.splits)
      moreover have "hubOk g1" using hubStep_cases [OF Cons.prems(2), of y] g1(1) by auto
      ultimately show ?case using Cons hubStep_ring(1) [OF Cons.prems(2)] by blast
    qed auto
    with True ok1 h1(2) Cons.prems(3) show ?thesis by blast
  next
    case False
    have "eh_stderr h1 = drop (length (a @ filter isStderr (publishedBy [x])) - stderrRingSize)
        (a @ filter isStderr (publishedBy [x]))"
      using hubStep_ring(2) [OF Cons.prems(1) h1(1) False] Cons.prems(4)
      by (simp only: Let_def drop_ring)
    from Cons.IH [OF ok1 h1(2) Cons.prems(3) this] hubStep_ring(1) [OF Cons.prems(1) h1(1)] False
    show ?thesis unfolding split by auto
  qed
qed

section \<open>Properties\<close>

text \<open>C23: whatever sequence of publishes, subscriptions, cancellations, receives and closes
  runs on a fresh hub, no send on and no close of a closed channel (a Go panic) happens,
  and, as long as at most 823 state events are published, no subscription blocks on its
  snapshot either (state history, stderr ring and exit event fit the 1024-slot buffer).\<close>

theorem hub_never_panics_or_blocks:
  "hubRun ops newEventHub \<noteq> Panic \<and>
   (length (filter isStateEvent (publishedBy ops)) \<le> 823 \<longrightarrow> (\<exists>h. hubRun ops newEventHub = Done h))"
  using hubRun_cases [OF hubOk_new, of ops] hubRun_total [OF hubOk_new, of ops]
  by (auto simp: newEventHub_def subBuffer_def stderrRingSize_def)

theorem hub_never_panics_or_blocks_witness:
  "\<exists>h. hubRun [OpPublish (EventState JobPending), OpSubscribe, OpPublish (EventExit (Some 0)),
     OpClose, OpClose, OpPublish EventHeartbeat] newEventHub = Done h"
  using hub_never_panics_or_blocks [of "[OpPublish (EventState JobPending), OpSubscribe,
     OpPublish (EventExit (Some 0)), OpClose, OpClose, OpPublish EventHeartbeat]"]
  by simp



text \<open>While the hub is open, its stderr ring is exactly the last 200 stderr lines
  published, in order.\<close>

theorem hub_stderr_ring:
  assumes "hubRun ops newEventHub = Done h" "\<not> eh_closed h"
  shows "eh_stderr h = (let lines = filter isStderr (publishedBy ops)
           in drop (length lines - stderrRingSize) lines)"
  using hubRun_ring [OF hubOk_new assms, of "[]"] by (simp add: newEventHub_def)

theorem hub_stderr_ring_witness:
  "\<exists>h. hubRun [OpPublish (EventStderr ''a''), OpPublish (EventStderr ''b'')] newEventHub = Done h \<and>
     eh_stderr h = [EventStderr ''a'', EventStderr ''b'']"
proof -
  have "\<exists>h. hubRun [OpPublish (EventStderr ''a''), OpPublish (EventStderr ''b'')] newEventHub = Done h
      \<and> \<not> eh_closed h"
    by (simp add: newEventHub_def publish_def Let_def stderrRingSize_def)
  then obtain h where h: "hubRun [OpPublish (EventStderr ''a''), OpPublish (EventStderr ''b'')] newEventHub = Done h"
    "\<not> eh_closed h" by blast
  show ?thesis using hub_stderr_ring [OF h] h(1) by (simp add: stderrRingSize_def)
qed

end
