(* ===== verification/GoPath.thy ===== *)
theory GoPath
  imports Prelude
begin

text \<open>
  Go's \<^verbatim>\<open>path\<close> and \<^verbatim>\<open>path/filepath\<close> on Unix, as the program uses them: the lexical
  \<^verbatim>\<open>Clean\<close>, \<^verbatim>\<open>Join\<close>, \<^verbatim>\<open>IsAbs\<close>, \<^verbatim>\<open>Base\<close>, \<^verbatim>\<open>Dir\<close> and \<^verbatim>\<open>Ext\<close>, and the theory of clean
  paths as component lists on which every confinement property of the development rests:
  an absolute clean path is \<open>absPath cs\<close> for a list of proper components, and lying
  under a root is being a proper extension of its component list.
\<close>

section \<open>The operations\<close>

text \<open>The component loop of \<^verbatim>\<open>Clean\<close>; the second argument is the output so far, reversed.\<close>

fun cleanComps :: "bool \<Rightarrow> string list \<Rightarrow> string list \<Rightarrow> string list" where
  "cleanComps rooted st [] = rev st"
| "cleanComps rooted st (c # cs) =
     (if c = [] \<or> c = ''.'' then cleanComps rooted st cs
      else if c = ''..'' then
        (case st of
           [] \<Rightarrow> if rooted then cleanComps rooted [] cs else cleanComps rooted [''..''] cs
         | t # ts \<Rightarrow> if t = ''..'' then cleanComps rooted (''..'' # st) cs
                    else cleanComps rooted ts cs)
      else cleanComps rooted (c # st) cs)"

definition isAbs :: "string \<Rightarrow> bool" where
  "isAbs p \<longleftrightarrow> hasPrefix p ''/''"

definition clean :: "string \<Rightarrow> string" where
  "clean p =
     (if p = [] then ''.''
      else let cs = cleanComps (isAbs p) [] (splitOn CHR ''/'' p)
           in if isAbs p then CHR ''/'' # joinWith ''/'' cs
              else if cs = [] then ''.'' else joinWith ''/'' cs)"

definition joinPath :: "string list \<Rightarrow> string" where
  "joinPath es =
     (case dropWhile (\<lambda>e. e = []) es of [] \<Rightarrow> [] | f # fs \<Rightarrow> clean (joinWith ''/'' (f # fs)))"

definition base :: "string \<Rightarrow> string" where
  "base p =
     (if p = [] then ''.''
      else let q = trimRight p ''/'' in if q = [] then ''/'' else last (splitOn CHR ''/'' q))"

definition dir :: "string \<Rightarrow> string" where
  "dir p = clean (rev (dropWhile (\<lambda>c. c \<noteq> CHR ''/'') (rev p)))"

definition ext :: "string \<Rightarrow> string" where
  "ext p =
     (let l = last (splitOn CHR ''/'' p)
      in if CHR ''.'' \<in> set l then CHR ''.'' # rev (takeWhile (\<lambda>c. c \<noteq> CHR ''.'') (rev l)) else [])"

section \<open>Clean paths as component lists\<close>

definition properComp :: "string \<Rightarrow> bool" where
  "properComp c \<longleftrightarrow> c \<noteq> [] \<and> c \<noteq> ''.'' \<and> c \<noteq> ''..'' \<and> CHR ''/'' \<notin> set c"

abbreviation properComps :: "string list \<Rightarrow> bool" where
  "properComps cs \<equiv> list_all properComp cs"

definition absPath :: "string list \<Rightarrow> string" where
  "absPath cs = CHR ''/'' # joinWith ''/'' cs"

definition cleanAbs :: "string \<Rightarrow> bool" where
  "cleanAbs p \<longleftrightarrow> isAbs p \<and> clean p = p"

lemma cleanComps_append:
  "cleanComps r st (xs @ ys) = cleanComps r (rev (cleanComps r st xs)) ys"
  by (induction r st xs rule: cleanComps.induct) (auto split: list.splits)

lemma cleanComps_proper: "properComps cs \<Longrightarrow> cleanComps r st cs = rev st @ cs"
  by (induction cs arbitrary: st) (auto simp: properComp_def)

lemma cleanComps_rooted_proper:
  assumes "properComps st" and "\<And>c. c \<in> set cs \<Longrightarrow> CHR ''/'' \<notin> set c"
  shows "properComps (cleanComps True st cs)"
  using assms
proof (induction "True" st cs rule: cleanComps.induct)
  case (1 st)
  then show ?case by (simp add: list_all_iff)
next
  case (2 st c cs)
  then show ?case by (auto simp: properComp_def split: list.splits)
qed

text \<open>A relative path cleans to some leading \<open>..\<close> components and then proper ones.\<close>

lemma cleanComps_rel_shape:
  assumes "st = rev ps @ replicate k ''..''" and "properComps ps"
    and "\<And>c. c \<in> set cs \<Longrightarrow> CHR ''/'' \<notin> set c"
  shows "\<exists>k' ps'. cleanComps False st cs = replicate k' ''..'' @ ps' \<and> properComps ps'"
  using assms
proof (induction cs arbitrary: st ps k)
  case Nil
  then show ?case by auto
next
  case (Cons c cs)
  have sub: "\<And>d. d \<in> set cs \<Longrightarrow> CHR ''/'' \<notin> set d" and c: "CHR ''/'' \<notin> set c"
    using Cons.prems(3) by auto
  consider (skip) "c = [] \<or> c = ''.''" | (up) "c = ''..''" | (down) "properComp c"
    using c by (auto simp: properComp_def)
  then show ?case
  proof cases
    case skip
    then show ?thesis using Cons.IH [OF Cons.prems(1,2) sub] by simp
  next
    case up
    show ?thesis
    proof (cases ps rule: rev_cases)
      case Nil
      then have st: "st = replicate k ''..''" using Cons.prems(1) by simp
      have "cleanComps False st (c # cs) = cleanComps False (replicate (Suc k) ''..'') cs"
        using up st by (cases k) simp_all
      then show ?thesis using Cons.IH [of "replicate (Suc k) ''..''" "[]" "Suc k"] sub by simp
    next
      case (snoc qs q)
      then have "properComps qs" and "properComp q" using Cons.prems(2) by simp_all
      then have "properComps qs" and "q \<noteq> ''..''" by (simp_all add: properComp_def)
      moreover have "cleanComps False st (c # cs) = cleanComps False (rev qs @ replicate k ''..'') cs"
        using up snoc Cons.prems(1) \<open>q \<noteq> ''..''\<close> by simp
      ultimately show ?thesis using Cons.IH [of _ qs k] sub by simp
    qed
  next
    case down
    then have "cleanComps False st (c # cs) = cleanComps False (c # st) cs"
      by (simp add: properComp_def)
    then show ?thesis using Cons.IH [of "c # st" "ps @ [c]" k] Cons.prems(1,2) sub down by simp
  qed
qed

lemma properComps_no_slash: "properComps cs \<Longrightarrow> c \<in> set cs \<Longrightarrow> CHR ''/'' \<notin> set c"
  by (auto simp: list_all_iff properComp_def)

lemma splitOn_absPath:
  "properComps cs \<Longrightarrow> cs \<noteq> [] \<Longrightarrow> splitOn CHR ''/'' (absPath cs) = [] # cs"
  by (simp add: absPath_def splitOn_joinWith properComps_no_slash)

lemma isAbs_absPath [simp]: "isAbs (absPath cs)"
  by (simp add: isAbs_def absPath_def)

lemma clean_absPath [simp]: "properComps cs \<Longrightarrow> clean (absPath cs) = absPath cs"
proof (cases "cs = []")
  case True
  then show ?thesis by (simp add: clean_def absPath_def isAbs_def)
next
  case False
  assume "properComps cs"
  with False show ?thesis
    using isAbs_absPath [of cs] splitOn_absPath [of cs] cleanComps_proper [of cs True "[]"]
    by (simp add: clean_def absPath_def)
qed

lemma clean_abs_shape: "isAbs p \<Longrightarrow> \<exists>cs. properComps cs \<and> clean p = absPath cs"
proof -
  assume a: "isAbs p"
  then have "p \<noteq> []" by (auto simp: isAbs_def)
  with a have "clean p = absPath (cleanComps True [] (splitOn CHR ''/'' p))"
    by (simp add: clean_def absPath_def)
  moreover have "properComps (cleanComps True [] (splitOn CHR ''/'' p))"
    by (rule cleanComps_rooted_proper) (auto dest: splitOn_no_sep)
  ultimately show ?thesis by blast
qed

lemma isAbs_clean [simp]: "isAbs p \<Longrightarrow> isAbs (clean p)"
  using clean_abs_shape [of p] by auto

lemma cleanAbs_iff: "cleanAbs p \<longleftrightarrow> (\<exists>cs. properComps cs \<and> p = absPath cs)"
  using clean_abs_shape [of p] by (auto simp: cleanAbs_def)

lemma cleanAbs_absPath [simp]: "properComps cs \<Longrightarrow> cleanAbs (absPath cs)"
  by (auto simp: cleanAbs_iff)

lemma cleanAbs_clean: "isAbs p \<Longrightarrow> cleanAbs (clean p)"
  using clean_abs_shape [of p] by auto

lemma joinWith_proper_nonempty: "properComps ps \<Longrightarrow> ps \<noteq> [] \<Longrightarrow> joinWith ''/'' ps \<noteq> []"
proof (cases ps)
  case (Cons c cs)
  assume "properComps ps"
  with Cons have "c \<noteq> []" by (simp add: properComp_def)
  with Cons show ?thesis by (cases cs) auto
qed simp

lemma absPath_root_iff: "properComps cs \<Longrightarrow> absPath cs = ''/'' \<longleftrightarrow> cs = []"
  using joinWith_proper_nonempty [of cs] by (auto simp: absPath_def)

lemma absPath_inj:
  "properComps cs \<Longrightarrow> properComps ds \<Longrightarrow> absPath cs = absPath ds \<longleftrightarrow> cs = ds"
proof
  assume p: "properComps cs" "properComps ds" and eq: "absPath cs = absPath ds"
  show "cs = ds"
  proof (cases "cs = [] \<or> ds = []")
    case True
    moreover have "cs = [] \<longleftrightarrow> ds = []"
      unfolding absPath_root_iff [OF p(1), symmetric] absPath_root_iff [OF p(2), symmetric] eq
      by (rule refl)
    ultimately show ?thesis by blast
  next
    case False
    then have "cs \<noteq> []" "ds \<noteq> []" by simp_all
    note split = splitOn_absPath [OF p(1) \<open>cs \<noteq> []\<close>] splitOn_absPath [OF p(2) \<open>ds \<noteq> []\<close>]
    from split(1) have "[] # cs = [] # ds" unfolding eq split(2) by (rule sym)
    then show ?thesis by simp
  qed
qed simp

section \<open>Lying under a root\<close>

text \<open>\<^verbatim>\<open>isUnder\<close> and \<^verbatim>\<open>atOrUnder\<close> of masterd are stated here, where their theory is.\<close>

definition isUnder :: "string \<Rightarrow> string \<Rightarrow> bool" where
  "isUnder root p =
     (if root = ''/'' then p \<noteq> ''/'' \<and> hasPrefix p ''/'' else hasPrefix p (root @ ''/''))"

definition atOrUnder :: "string \<Rightarrow> string \<Rightarrow> bool" where
  "atOrUnder root p \<longleftrightarrow> p = root \<or> isUnder root p"

lemma absPath_append:
  "xs \<noteq> [] \<Longrightarrow> ys \<noteq> [] \<Longrightarrow> absPath (xs @ ys) = absPath xs @ ''/'' @ joinWith ''/'' ys"
  by (simp add: absPath_def joinWith_append)

lemma splitOn_joinWith_append:
  "ps \<noteq> [] \<Longrightarrow> (\<And>p. p \<in> set ps \<Longrightarrow> c \<notin> set p) \<Longrightarrow>
   splitOn c (joinWith [c] ps @ c # rest) = ps @ splitOn c rest"
proof (induction ps)
  case Nil
  then show ?case by simp
next
  case (Cons p ps)
  then show ?case by (cases "ps = []") (auto simp: joinWith_Cons splitOn_append)
qed

lemma isUnder_absPath:
  assumes "properComps rs" and "properComps ps"
  shows "isUnder (absPath rs) (absPath ps) \<longleftrightarrow> (\<exists>qs. qs \<noteq> [] \<and> ps = rs @ qs)"
proof (cases "rs = []")
  case True
  then have "isUnder (absPath rs) (absPath ps) \<longleftrightarrow> absPath ps \<noteq> ''/''"
    by (simp add: isUnder_def absPath_def)
  with True assms(2) show ?thesis by (simp add: absPath_root_iff)
next
  case False
  have left: "isUnder (absPath rs) (absPath ps) \<longleftrightarrow> hasPrefix (absPath ps) (absPath rs @ ''/'')"
    using False assms(1) by (simp add: isUnder_def absPath_root_iff)
  show ?thesis
  proof
    assume "isUnder (absPath rs) (absPath ps)"
    then obtain rest where r: "absPath ps = absPath rs @ ''/'' @ rest"
      unfolding left by (auto simp: prefix_def)
    then have "splitOn CHR ''/'' (absPath ps) = ([] # rs) @ splitOn CHR ''/'' rest"
      using False assms(1) splitOn_joinWith_append [of rs "CHR ''/''" rest]
      by (simp add: absPath_def properComps_no_slash)
    moreover have "ps \<noteq> []"
      using r False assms(1) by (auto simp: absPath_def)
    ultimately have "ps = rs @ splitOn CHR ''/'' rest"
      using assms(2) by (simp add: splitOn_absPath)
    then show "\<exists>qs. qs \<noteq> [] \<and> ps = rs @ qs" by (metis splitOn_nonempty)
  next
    assume "\<exists>qs. qs \<noteq> [] \<and> ps = rs @ qs"
    then obtain qs where "qs \<noteq> []" "ps = rs @ qs" by blast
    then show "isUnder (absPath rs) (absPath ps)"
      unfolding left using False by (simp add: absPath_append prefix_def)
  qed
qed

lemma atOrUnder_absPath:
  assumes "properComps rs" and "properComps ps"
  shows "atOrUnder (absPath rs) (absPath ps) \<longleftrightarrow> prefix rs ps"
  using isUnder_absPath [OF assms] absPath_inj [OF assms(2,1)]
  by (auto simp: atOrUnder_def prefix_def)

lemma isUnder_irrefl: "cleanAbs r \<Longrightarrow> \<not> isUnder r r"
  by (auto simp: cleanAbs_iff isUnder_absPath)

lemma isUnder_trans: "cleanAbs r \<Longrightarrow> cleanAbs p \<Longrightarrow> cleanAbs q \<Longrightarrow>
  isUnder r p \<Longrightarrow> isUnder p q \<Longrightarrow> isUnder r q"
  by (auto simp: cleanAbs_iff isUnder_absPath)

section \<open>Joining a relative path to a clean root\<close>

text \<open>A cleaned relative path that does not start with \<open>..\<close> is a list of proper components.\<close>

definition escapes :: "string \<Rightarrow> bool" where
  "escapes p \<longleftrightarrow> p = ''..'' \<or> hasPrefix p ''../''"

lemma clean_rel_proper:
  assumes "p \<noteq> []" "\<not> isAbs p" "\<not> escapes (clean p)"
  shows "\<exists>ps. properComps ps \<and> clean p = (if ps = [] then ''.'' else joinWith ''/'' ps)
           \<and> cleanComps False [] (splitOn CHR ''/'' p) = ps"
proof -
  let ?cs = "cleanComps False [] (splitOn CHR ''/'' p)"
  have "\<exists>k ps. ?cs = replicate k ''..'' @ ps \<and> properComps ps"
    by (rule cleanComps_rel_shape [of "[]" "[]" 0]) (auto dest: splitOn_no_sep)
  then obtain k ps where s: "?cs = replicate k ''..'' @ ps" and ps: "properComps ps" by blast
  have eq: "clean p = (if ?cs = [] then ''.'' else joinWith ''/'' ?cs)"
    using assms(1,2) by (simp add: clean_def)
  have "k = 0"
  proof (rule ccontr)
    assume "k \<noteq> 0"
    then obtain k' where "k = Suc k'" by (cases k) auto
    with s have "?cs = ''..'' # (replicate k' ''..'' @ ps)" by simp
    then have "escapes (joinWith ''/'' ?cs)"
      by (cases "replicate k' ''..'' @ ps") (auto simp: escapes_def)
    moreover from s \<open>k = Suc k'\<close> have "?cs \<noteq> []" by simp
    ultimately show False using eq assms(3) by simp
  qed
  with s eq ps show ?thesis by auto
qed

lemma joinPath_absPath:
  assumes "properComps rs" "properComps ps" "ps \<noteq> []"
  shows "joinPath [absPath rs, joinWith ''/'' ps] = absPath (rs @ ps)"
proof (cases "rs = []")
  case True
  then have "joinPath [absPath rs, joinWith ''/'' ps] = clean (''/'' @ ''/'' @ joinWith ''/'' ps)"
    by (simp add: joinPath_def absPath_def)
  also have "\<dots> = absPath ps"
    using assms(2,3) by (simp add: clean_def isAbs_def absPath_def splitOn_joinWith
      properComps_no_slash cleanComps_proper)
  finally show ?thesis using True by simp
next
  case False
  then have "joinPath [absPath rs, joinWith ''/'' ps] = clean (absPath (rs @ ps))"
    using assms by (simp add: joinPath_def absPath_append) (simp add: absPath_def)
  then show ?thesis using assms(1,2) by simp
qed

lemma isUnder_joinPath:
  assumes "cleanAbs r" "properComps ps" "ps \<noteq> []"
  shows "isUnder r (joinPath [r, joinWith ''/'' ps])" "cleanAbs (joinPath [r, joinWith ''/'' ps])"
proof -
  from assms(1) obtain rs where rs: "properComps rs" "r = absPath rs" by (auto simp: cleanAbs_iff)
  then have j: "joinPath [r, joinWith ''/'' ps] = absPath (rs @ ps)"
    using assms(2,3) by (simp add: joinPath_absPath)
  with rs assms(2,3) show "isUnder r (joinPath [r, joinWith ''/'' ps])"
    by (auto simp: isUnder_absPath)
  from j rs assms(2) show "cleanAbs (joinPath [r, joinWith ''/'' ps])" by simp
qed

end
