(* ===== verification/Job.thy ===== *)
theory Job
  imports Protocol GoPath
begin

text \<open>
  \<^verbatim>\<open>internal/workerd/job.go\<close> and the queue side of \<^verbatim>\<open>pusher.go\<close>: the record of one
  dispatched job and its operations, one definition per critical section of \<^verbatim>\<open>j.mu\<close>.
  An operation returns the new job and the list of effects the code performs after it
  releases the lock (events published, the process killed, the queue closed, ...).
  The system built from them, with its threads, is in \<^verbatim>\<open>JobSystem\<close>.
\<close>

section \<open>State\<close>

definition cancelGrace :: int where "cancelGrace = 5 * second"
definition settleDelay :: int where "settleDelay = 250 * millisecond"
definition drainTimeout :: int where "drainTimeout = 30 * second"
definition spoolTimeout :: int where "spoolTimeout = 15 * second"
definition reapAge :: int where "reapAge = 5 * minute"

record job =
  j_id :: string
  j_dir :: string
  j_state :: JobState
  j_failing :: bool
  j_failMsg :: string
  j_cancelState :: "JobState option"
  j_acked :: "string set"
  j_pending :: int
  j_intakeClosed :: bool
  j_queueClosed :: bool
  j_started :: bool      \<comment> \<open>\<^verbatim>\<open>j.cmd != nil\<close>\<close>
  j_exited :: bool
  j_clients :: int
  j_clientGone :: int
  j_terminalAt :: int
  j_queue :: "string list option"  \<comment> \<open>\<^verbatim>\<open>nil\<close> before startPushers\<close>
  j_watcher :: bool      \<comment> \<open>\<^verbatim>\<open>j.watcher != nil\<close>\<close>

datatype effect =
    Publish Event
  | CloseHub
  | CloseWatcher
  | CloseQueue
  | RemoveDir
  | CancelProc       \<comment> \<open>\<^verbatim>\<open>procCancel\<close>: SIGTERM to the process group\<close>
  | ScheduleKill     \<comment> \<open>SIGKILL after \<^verbatim>\<open>cancelGrace\<close>\<close>

text \<open>\<^verbatim>\<open>newJob\<close>: the record and its first event; the directories are in \<^verbatim>\<open>Daemon\<close>.\<close>

definition newJob :: "string \<Rightarrow> string \<Rightarrow> job \<times> effect list" where
  "newJob jid jobdir =
     (\<lparr>j_id = jid, j_dir = jobdir, j_state = JobPending, j_failing = False, j_failMsg = [],
       j_cancelState = None, j_acked = {}, j_pending = 0, j_intakeClosed = False,
       j_queueClosed = False, j_started = False, j_exited = False, j_clients = 0,
       j_clientGone = 0, j_terminalAt = 0, j_queue = None, j_watcher = False\<rparr>,
      [Publish (EventState JobPending)])"

section \<open>State changes\<close>

definition setState :: "JobState \<Rightarrow> int \<Rightarrow> job \<Rightarrow> job \<times> effect list" where
  "setState s now j =
     (if isTerminal (j_state j) then (j, [])
      else (j\<lparr>j_state := s,
              j_clientGone := (if s = JobRunning \<and> j_clients j = 0 then now else j_clientGone j)\<rparr>,
            [Publish (EventState s)]))"

definition finalize :: "JobState \<Rightarrow> int \<Rightarrow> int \<Rightarrow> job \<Rightarrow> job \<times> effect list" where
  "finalize st code now j =
     (if isTerminal (j_state j) then (j, [])
      else let closeQueue = (j_queue j \<noteq> None \<and> \<not> j_queueClosed j) in
        (j\<lparr>j_state := st, j_terminalAt := now, j_intakeClosed := True,
           j_queueClosed := (j_queueClosed j \<or> closeQueue)\<rparr>,
         [Publish (EventState st), Publish (EventExit (Some code)), CloseHub] @
         (if j_watcher j then [CloseWatcher] else []) @
         (if closeQueue then [CloseQueue] else []) @
         (if st = JobCancelled \<or> st = JobLost then [RemoveDir] else [])))"

text \<open>\<^verbatim>\<open>killProcess\<close>: cancel the process context, schedule the SIGKILL if there is a process.\<close>

definition killProcess :: "job \<Rightarrow> effect list" where
  "killProcess j = [CancelProc] @ (if j_started j \<and> \<not> j_exited j then [ScheduleKill] else [])"

definition abortFail :: "string \<Rightarrow> job \<Rightarrow> job \<times> effect list" where
  "abortFail msg j =
     (if j_failing j \<or> isTerminal (j_state j) then (j, [])
      else let j' = j\<lparr>j_failing := True, j_failMsg := msg\<rparr> in
        (j', [Publish (EventStderr (''prt: '' @ msg))] @ killProcess j'))"

definition requestCancel :: "JobState \<Rightarrow> job \<Rightarrow> job \<times> effect list" where
  "requestCancel target j =
     (if j_cancelState j \<noteq> None \<or> isTerminal (j_state j) then (j, [])
      else let j' = j\<lparr>j_cancelState := Some target\<rparr> in (j', killProcess j'))"

definition abortState :: "job \<Rightarrow> JobState option" where
  "abortState j =
     (case j_cancelState j of
        Some st \<Rightarrow> Some st
      | None \<Rightarrow> if j_failing j then Some JobFailed else None)"

definition terminalFor :: "bool \<Rightarrow> job \<Rightarrow> JobState" where
  "terminalFor failed j =
     (case j_cancelState j of
        Some st \<Rightarrow> st
      | None \<Rightarrow> if failed then JobFailed else JobCompleted)"

text \<open>The decision at the end of \<^verbatim>\<open>run\<close>.\<close>

definition decideFinal :: "job \<Rightarrow> int \<Rightarrow> string option \<Rightarrow> JobState" where
  "decideFinal j code drainErr =
     (case j_cancelState j of
        Some st \<Rightarrow> st
      | None \<Rightarrow> if j_failing j \<or> drainErr \<noteq> None \<or> code \<noteq> 0 then JobFailed else JobCompleted)"

text \<open>
  \<^verbatim>\<open>exitCodeOf\<close>: how \<^verbatim>\<open>cmd.Wait\<close> ended, and the code carried on the exit event.  An
  \<^verbatim>\<open>ExitError\<close> holds a wait status, so it is a signal death or an exit code; Go gives
  the code -1 for a process that neither exited nor was signalled.
\<close>

datatype waitResult = WaitOk | WaitSignaled int | WaitExited int | WaitOther

definition exitCodeOf :: "waitResult \<Rightarrow> int" where
  "exitCodeOf w =
     (case w of
        WaitOk \<Rightarrow> 0
      | WaitSignaled sig \<Rightarrow> 128 + sig
      | WaitExited c \<Rightarrow> if c \<ge> 0 then c else 1
      | WaitOther \<Rightarrow> 1)"

section \<open>Lifeline\<close>

definition subscribeEvents :: "job \<Rightarrow> job" where
  "subscribeEvents j = j\<lparr>j_clients := j_clients j + 1\<rparr>"

definition unsubscribeEvents :: "int \<Rightarrow> job \<Rightarrow> job" where
  "unsubscribeEvents now j =
     (let n = j_clients j - 1
      in j\<lparr>j_clients := n, j_clientGone := (if n = 0 then now else j_clientGone j)\<rparr>)"

datatype lifelineVerdict = LifelineStop | LifelineLost | LifelineKeep

text \<open>One tick of \<^verbatim>\<open>monitorLifeline\<close>.\<close>

definition monitorTick :: "int \<Rightarrow> job \<Rightarrow> lifelineVerdict" where
  "monitorTick now j =
     (if isTerminal (j_state j) \<or> j_cancelState j \<noteq> None then LifelineStop
      else if j_state j = JobRunning \<and> j_clients j = 0 \<and> now - j_clientGone j \<ge> PeerTimeout
        then LifelineLost
      else LifelineKeep)"

section \<open>The upload queue\<close>

text \<open>\<^verbatim>\<open>startPushers\<close> after the watcher was created.\<close>

definition startPushers :: "job \<Rightarrow> job" where
  "startPushers j = j\<lparr>j_watcher := True, j_queue := Some []\<rparr>"

definition overflowMsg :: "nat \<Rightarrow> string" where
  "overflowMsg cap = ''push queue overflow (cap '' @ decimal cap @ '')''"

text \<open>
  \<^verbatim>\<open>enqueue\<close>: the critical section; the flag says that the non-blocking send found the
  queue full, in which case the code calls \<^verbatim>\<open>abortFail\<close> after unlocking.
\<close>

definition enqueue :: "nat \<Rightarrow> string \<Rightarrow> job \<Rightarrow> job \<times> bool" where
  "enqueue cap name j =
     (if j_intakeClosed j \<or> j_failing j \<or> isTerminal (j_state j) \<or> name \<in> j_acked j then (j, False)
      else case j_queue j of
          None \<Rightarrow> (j, True)
        | Some q \<Rightarrow>
            if length q < cap then (j\<lparr>j_queue := Some (q @ [name]), j_pending := j_pending j + 1\<rparr>, False)
            else (j, True))"

text \<open>The critical section of \<^verbatim>\<open>uploadWorker\<close> after \<^verbatim>\<open>pushFile\<close> returned.\<close>

definition resolveUpload :: "string \<Rightarrow> bool \<Rightarrow> job \<Rightarrow> job" where
  "resolveUpload name ok j =
     j\<lparr>j_pending := j_pending j - 1,
       j_acked := (if ok then insert name (j_acked j) else j_acked j)\<rparr>"

definition drainBegin :: "job \<Rightarrow> job" where
  "drainBegin j = j\<lparr>j_intakeClosed := True\<rparr>"

text \<open>The loop condition of \<^verbatim>\<open>drainUploads\<close> and its result once the loop is left.\<close>

definition drainWaits :: "bool \<Rightarrow> job \<Rightarrow> bool" where
  "drainWaits expired j \<longleftrightarrow> j_pending j > 0 \<and> \<not> j_failing j \<and> \<not> expired"

definition drainResult :: "job \<Rightarrow> string option" where
  "drainResult j =
     (if j_failing j then Some (j_failMsg j)
      else if j_pending j > 0 then Some (''timed out with '' @ formatInt (j_pending j) @ '' uploads in flight'')
      else None)"

section \<open>The gate\<close>

definition gateBroken :: "job \<Rightarrow> bool" where
  "gateBroken j \<longleftrightarrow> j_failing j \<or> j_cancelState j \<noteq> None \<or>
     (isTerminal (j_state j) \<and> j_state j \<noteq> JobCompleted)"

datatype gateVerdict = GateNext | GateErrBroken | GateErrCtx | GateBlock

text \<open>
  One iteration of the inner loop of \<^verbatim>\<open>gateWait\<close> for the name at hand: go on to the next
  name, give up, or wait for a broadcast.  \<open>onDisk\<close> is \<^verbatim>\<open>fileExists\<close> of the name in the
  job's out dir, \<open>ctxDone\<close> whether the announcing client is gone.
\<close>

definition gateCheck :: "bool \<Rightarrow> bool \<Rightarrow> job \<Rightarrow> string \<Rightarrow> gateVerdict" where
  "gateCheck ctxDone onDisk j name =
     (if name \<in> j_acked j then GateNext
      else if gateBroken j then GateErrBroken
      else if ctxDone then GateErrCtx
      else if \<not> onDisk then GateNext
      else GateBlock)"

end
