(* ===== verification/JobSystem.thy ===== *)
theory JobSystem
  imports Job Transition
begin

text \<open>
  The threads of one job on the worker, as a transition system over \<^verbatim>\<open>Job\<close>: the
  \<^verbatim>\<open>run\<close> goroutine (a program counter), the watcher goroutine, \<^verbatim>\<open>cfg.push_parallel\<close>
  upload workers, the announces held by the gating proxy, cancels, the lifeline monitor
  and the environment (the transcoder that completes files and posts announces, masterd
  that answers the PUTs).  An action is one critical section of \<^verbatim>\<open>j.mu\<close> with the effects
  that follow it, or one move of the environment; every interleaving is a run.
  Trace variables (not in the code) record the files masterd acknowledged, the names the
  queue accepted, the names whose push failed, and for every announce the files that were on
  disk when it came, finished or not, and that the transcoder did not delete while it was held.
  The effects of \<^verbatim>\<open>finalize\<close> are separate moves of \<^verbatim>\<open>run\<close>; those of the other operations
  (one event, the process signal) happen with their critical section.
\<close>

section \<open>State\<close>

datatype runpc =
    PcStart | PcPreparing | PcPrepared | PcPushers | PcSpawn | PcSpawned | PcWait
  | PcExited int | PcDrain int | PcDraining int | PcDecide int "string option"
  | PcFail | PcFinal JobState int
  | PcEffects "effect list"  \<comment> \<open>in \<^verbatim>\<open>finalize\<close>, after the lock was released\<close>
  | PcDone

datatype uphase = UTaken | UOpened | UAcked | UFailed string

datatype gstatus = GWaiting | GForwarded | GAborted

record gate =
  g_names :: "string list"
  g_rest :: "string list"
  g_seen :: "string set"
  g_status :: gstatus

record sys =
  s_job :: job
  s_pc :: runpc
  s_disk :: "string set"
  s_watch :: "string list"
  s_watchClosed :: bool
  s_overflow :: bool
  s_up :: "(string \<times> uphase) list"
  s_gates :: "gate list"
  s_pub :: "Event list"
  s_hubClosed :: bool
  s_qClosed :: bool
  s_panic :: bool
  s_procCancelled :: bool
  s_lost :: bool         \<comment> \<open>the lifeline monitor has decided, before \<^verbatim>\<open>requestCancel\<close>\<close>
  s_master :: "string set"
  s_accepted :: "string set"
  s_failed :: "string set"

fun applyEffect :: "effect \<Rightarrow> sys \<Rightarrow> sys" where
  "applyEffect (Publish ev) s = (if s_hubClosed s then s else s\<lparr>s_pub := s_pub s @ [ev]\<rparr>)"
| "applyEffect CloseHub s = s\<lparr>s_hubClosed := True\<rparr>"
| "applyEffect CloseWatcher s = s\<lparr>s_watchClosed := True\<rparr>"
| "applyEffect CloseQueue s = (if s_qClosed s then s\<lparr>s_panic := True\<rparr> else s\<lparr>s_qClosed := True\<rparr>)"
| "applyEffect RemoveDir s = s\<lparr>s_disk := {}\<rparr>"
| "applyEffect CancelProc s = s\<lparr>s_procCancelled := True\<rparr>"
| "applyEffect ScheduleKill s = s"

definition withJob :: "job \<times> effect list \<Rightarrow> sys \<Rightarrow> sys" where
  "withJob je s = fold applyEffect (snd je) (s\<lparr>s_job := fst je\<rparr>)"

definition initSys :: "string \<Rightarrow> string \<Rightarrow> sys" where
  "initSys jid jobdir =
     withJob (newJob jid jobdir)
       \<lparr>s_job = fst (newJob jid jobdir), s_pc = PcStart, s_disk = {}, s_watch = [],
        s_watchClosed = False, s_overflow = False, s_up = [], s_gates = [], s_pub = [],
        s_hubClosed = False, s_qClosed = False, s_panic = False, s_procCancelled = False, s_lost = False,
        s_master = {}, s_accepted = {}, s_failed = {}\<rparr>"

section \<open>Actions\<close>

datatype action =
    RunStep int               \<comment> \<open>the next move of \<^verbatim>\<open>run\<close>, at a time\<close>
  | Prepare "string option"   \<comment> \<open>\<^verbatim>\<open>prepare\<close> returns; the error, if any\<close>
  | Pushers "string option"   \<comment> \<open>\<^verbatim>\<open>startPushers\<close> returns\<close>
  | Spawn "string option"     \<comment> \<open>\<^verbatim>\<open>startProcess\<close> returns\<close>
  | ProcExit waitResult       \<comment> \<open>\<^verbatim>\<open>cmd.Wait\<close> returns\<close>
  | DrainCheck bool           \<comment> \<open>the drain loop looks at its condition; deadline passed?\<close>
  | Create string             \<comment> \<open>the transcoder begins a file in the out dir\<close>
  | Produce string            \<comment> \<open>the transcoder completes a file in the out dir\<close>
  | Unlink string             \<comment> \<open>the transcoder deletes a file in the out dir\<close>
  | WatchDeliver              \<comment> \<open>the watcher goroutine enqueues the next completed file\<close>
  | WatchOverflowAbort        \<comment> \<open>... and fails the job if the queue was full\<close>
  | WatchError string         \<comment> \<open>the watcher reports a fatal error\<close>
  | Pop                       \<comment> \<open>an upload worker takes a name off the queue\<close>
  | OpenFile nat string       \<comment> \<open>upload \<open>i\<close> opens its file; the error if it is gone\<close>
  | PutOk nat                 \<comment> \<open>upload \<open>i\<close>: masterd answered 2xx\<close>
  | PutFail nat string        \<comment> \<open>upload \<open>i\<close>: retries exhausted or permanent error\<close>
  | Cleanup nat               \<comment> \<open>upload \<open>i\<close>: remove the local file, or \<^verbatim>\<open>abortFail\<close>\<close>
  | Announce "string list"    \<comment> \<open>an announce that references these names arrives\<close>
  | GateStep nat bool         \<comment> \<open>gate \<open>i\<close> looks at its next name; client gone?\<close>
  | CancelJob                 \<comment> \<open>\<^verbatim>\<open>DELETE /v1/jobs/{id}\<close>\<close>
  | LifelineTick int          \<comment> \<open>a tick of the lifeline monitor at a time\<close>
  | LifelineCancel            \<comment> \<open>... and its cancel\<close>
  | DaemonStop                \<comment> \<open>the daemon's context is cancelled\<close>
  | ClientJoin
  | ClientLeave int
  | Stderr string             \<comment> \<open>a line of the transcoder's stderr\<close>

fun runStep :: "int \<Rightarrow> sys \<Rightarrow> sys option" where
  "runStep now s =
     (case s_pc s of
        PcStart \<Rightarrow> Some (withJob (setState JobPreparing now (s_job s)) (s\<lparr>s_pc := PcPreparing\<rparr>))
      | PcPrepared \<Rightarrow>
          (case abortState (s_job s) of
             Some st \<Rightarrow> Some (s\<lparr>s_pc := PcFinal st 1\<rparr>)
           | None \<Rightarrow> Some (s\<lparr>s_pc := PcPushers\<rparr>))
      | PcSpawned \<Rightarrow> Some (withJob (setState JobRunning now (s_job s)) (s\<lparr>s_pc := PcWait\<rparr>))
      | PcExited c \<Rightarrow>
          Some (withJob (setState JobDraining now (s_job s)) (s\<lparr>s_watchClosed := True, s_pc := PcDrain c\<rparr>))
      | PcDrain c \<Rightarrow> Some (s\<lparr>s_job := drainBegin (s_job s), s_pc := PcDraining c\<rparr>)
      | PcDecide c derr \<Rightarrow>
          Some ((case derr of None \<Rightarrow> s
                 | Some m \<Rightarrow> applyEffect (Publish (EventStderr (''prt: upload drain: '' @ m))) s)
                \<lparr>s_pc := PcFinal (decideFinal (s_job s) c derr) c\<rparr>)
      | PcFail \<Rightarrow> Some (s\<lparr>s_pc := PcFinal (terminalFor True (s_job s)) 1\<rparr>)
      | PcFinal st c \<Rightarrow>
          Some (s\<lparr>s_job := fst (finalize st c now (s_job s)),
                  s_pc := PcEffects (snd (finalize st c now (s_job s)))\<rparr>)
      | PcEffects es \<Rightarrow>
          (case es of [] \<Rightarrow> Some (s\<lparr>s_pc := PcDone\<rparr>)
           | e # es' \<Rightarrow> Some (applyEffect e (s\<lparr>s_pc := PcEffects es'\<rparr>)))
      | _ \<Rightarrow> None)"

definition failWith :: "string \<Rightarrow> sys \<Rightarrow> sys" where
  "failWith msg s = applyEffect (Publish (EventStderr msg)) (s\<lparr>s_pc := PcFail\<rparr>)"

definition setUp :: "nat \<Rightarrow> string \<times> uphase \<Rightarrow> sys \<Rightarrow> sys" where
  "setUp i u s = s\<lparr>s_up := (s_up s)[i := u]\<rparr>"

definition dropUp :: "nat \<Rightarrow> sys \<Rightarrow> sys" where
  "dropUp i s = s\<lparr>s_up := take i (s_up s) @ drop (Suc i) (s_up s)\<rparr>"

definition failUpload :: "nat \<Rightarrow> string \<Rightarrow> string \<Rightarrow> sys \<Rightarrow> sys" where
  "failUpload i n err s =
     setUp i (n, UFailed err) (s\<lparr>s_job := resolveUpload n False (s_job s), s_failed := insert n (s_failed s)\<rparr>)"

text \<open>A file the transcoder itself deletes is no longer waited for: the trace variable of the waiting gates.\<close>

definition forget :: "string \<Rightarrow> gate \<Rightarrow> gate" where
  "forget n g = (if g_status g = GWaiting then g\<lparr>g_seen := g_seen g - {n}\<rparr> else g)"

fun step :: "nat \<Rightarrow> nat \<Rightarrow> action \<Rightarrow> sys \<Rightarrow> sys option" where
  "step cap par (RunStep now) s = runStep now s"
| "step cap par (Prepare res) s =
     (if s_pc s \<noteq> PcPreparing then None
      else Some (case res of
          None \<Rightarrow> s\<lparr>s_pc := PcPrepared\<rparr>
        | Some err \<Rightarrow> failWith (''prt: prepare failed: '' @ err) s))"
| "step cap par (Pushers res) s =
     (if s_pc s \<noteq> PcPushers then None
      else Some (case res of
          None \<Rightarrow> s\<lparr>s_job := startPushers (s_job s), s_pc := PcSpawn\<rparr>
        | Some err \<Rightarrow> failWith (''prt: segment watcher failed: '' @ err) s))"
| "step cap par (Spawn res) s =
     (if s_pc s \<noteq> PcSpawn then None
      else Some (case (if s_procCancelled s then Some ''context canceled'' else res) of
          None \<Rightarrow> s\<lparr>s_job := (s_job s)\<lparr>j_started := True\<rparr>, s_pc := PcSpawned\<rparr>
        | Some err \<Rightarrow> failWith (''prt: spawn failed: '' @ err) s))"
| "step cap par (ProcExit w) s =
     (if s_pc s \<noteq> PcWait then None
      else Some (s\<lparr>s_job := (s_job s)\<lparr>j_exited := True\<rparr>, s_pc := PcExited (exitCodeOf w)\<rparr>))"
| "step cap par (DrainCheck expired) s =
     (case s_pc s of
        PcDraining c \<Rightarrow>
          if drainWaits expired (s_job s) then None
          else Some (s\<lparr>s_pc := PcDecide c (drainResult (s_job s))\<rparr>)
      | _ \<Rightarrow> None)"
| "step cap par (Produce n) s =
     (if j_started (s_job s) \<and> \<not> j_exited (s_job s)
      then Some (s\<lparr>s_disk := insert n (s_disk s), s_watch := s_watch s @ [n]\<rparr>) else None)"
| "step cap par (Create n) s =
     (if j_started (s_job s) \<and> \<not> j_exited (s_job s) then Some (s\<lparr>s_disk := insert n (s_disk s)\<rparr>) else None)"
| "step cap par (Unlink n) s =
     (if j_started (s_job s) \<and> \<not> j_exited (s_job s)
      then Some (s\<lparr>s_disk := s_disk s - {n}, s_gates := map (forget n) (s_gates s)\<rparr>) else None)"
| "step cap par WatchDeliver s =
     (case s_watch s of
        [] \<Rightarrow> None
      | n # ns \<Rightarrow>
          if s_overflow s then None
          else let (j, over) = enqueue cap n (s_job s) in
            Some (s\<lparr>s_job := j, s_watch := ns, s_overflow := over,
                    s_panic := (s_panic s \<or> (j_queue j \<noteq> j_queue (s_job s) \<and> s_qClosed s)),
                    s_accepted := (if j_queue j \<noteq> j_queue (s_job s) then insert n (s_accepted s) else s_accepted s)\<rparr>))"
| "step cap par WatchOverflowAbort s =
     (if s_overflow s
      then Some (withJob (abortFail (overflowMsg cap) (s_job s)) (s\<lparr>s_overflow := False\<rparr>)) else None)"
| "step cap par (WatchError m) s =
     (if j_watcher (s_job s) then Some (withJob (abortFail (''segment watcher: '' @ m) (s_job s)) s) else None)"
| "step cap par Pop s =
     (case j_queue (s_job s) of
        Some (n # q) \<Rightarrow>
          if length (s_up s) < par
          then Some (s\<lparr>s_job := (s_job s)\<lparr>j_queue := Some q\<rparr>, s_up := s_up s @ [(n, UTaken)]\<rparr>)
          else None
      | _ \<Rightarrow> None)"
| "step cap par (OpenFile i err) s =
     (if i < length (s_up s) \<and> snd (s_up s ! i) = UTaken
      then let n = fst (s_up s ! i) in
        Some (if n \<in> s_disk s then setUp i (n, UOpened) s else failUpload i n err s)
      else None)"
| "step cap par (PutOk i) s =
     (if i < length (s_up s) \<and> snd (s_up s ! i) = UOpened
      then let n = fst (s_up s ! i) in
        Some (setUp i (n, UAcked) (s\<lparr>s_job := resolveUpload n True (s_job s),
                                     s_master := insert n (s_master s)\<rparr>))
      else None)"
| "step cap par (PutFail i err) s =
     (if i < length (s_up s) \<and> snd (s_up s ! i) = UOpened
      then Some (failUpload i (fst (s_up s ! i)) err s) else None)"
| "step cap par (Cleanup i) s =
     (if i < length (s_up s) then
        (case snd (s_up s ! i) of
           UAcked \<Rightarrow> Some (dropUp i (s\<lparr>s_disk := s_disk s - {fst (s_up s ! i)}\<rparr>))
         | UFailed err \<Rightarrow>
             Some (dropUp i (withJob (abortFail (''push '' @ fst (s_up s ! i) @ '': '' @ err) (s_job s)) s))
         | _ \<Rightarrow> None)
      else None)"
| "step cap par (Announce ns) s =
     Some (s\<lparr>s_gates := s_gates s @ [\<lparr>g_names = ns, g_rest = ns,
        g_seen = s_disk s \<union> j_acked (s_job s), g_status = GWaiting\<rparr>]\<rparr>)"
| "step cap par (GateStep i ctxDone) s =
     (if i < length (s_gates s) \<and> g_status (s_gates s ! i) = GWaiting then
        let g = s_gates s ! i in
        (case g_rest g of
           [] \<Rightarrow> Some (s\<lparr>s_gates := (s_gates s)[i := g\<lparr>g_status := GForwarded\<rparr>]\<rparr>)
         | n # ns \<Rightarrow>
            (case gateCheck ctxDone (n \<in> s_disk s) (s_job s) n of
               GateNext \<Rightarrow> Some (s\<lparr>s_gates := (s_gates s)[i := g\<lparr>g_rest := ns\<rparr>]\<rparr>)
             | GateErrBroken \<Rightarrow> Some (s\<lparr>s_gates := (s_gates s)[i := g\<lparr>g_status := GAborted\<rparr>]\<rparr>)
             | GateErrCtx \<Rightarrow> Some (s\<lparr>s_gates := (s_gates s)[i := g\<lparr>g_status := GAborted\<rparr>]\<rparr>)
             | GateBlock \<Rightarrow> None))
      else None)"
| "step cap par CancelJob s = Some (withJob (requestCancel JobCancelled (s_job s)) s)"
| "step cap par (LifelineTick now) s =
     (case monitorTick now (s_job s) of
        LifelineLost \<Rightarrow> Some (s\<lparr>s_lost := True\<rparr>)
      | _ \<Rightarrow> None)"
| "step cap par LifelineCancel s =
     (if s_lost s then Some (withJob (requestCancel JobLost (s_job s)) (s\<lparr>s_lost := False\<rparr>)) else None)"
| "step cap par DaemonStop s = Some (s\<lparr>s_procCancelled := True\<rparr>)"
| "step cap par ClientJoin s = Some (s\<lparr>s_job := subscribeEvents (s_job s)\<rparr>)"
| "step cap par (ClientLeave now) s =
     (if j_clients (s_job s) > 0 then Some (s\<lparr>s_job := unsubscribeEvents now (s_job s)\<rparr>) else None)"
| "step cap par (Stderr l) s =
     (if j_started (s_job s) then Some (applyEffect (Publish (EventStderr l)) s) else None)"

end
