(* ===== verification/JobGate.thy ===== *)
theory JobGate
  imports JobSystem
begin

text \<open>
  The chunk-before-announce invariant of the gating proxy (\<^verbatim>\<open>gateWait\<close> in
  \<^verbatim>\<open>internal/workerd/job.go\<close>): what every operation on a job keeps (\<^term>\<open>jobMono\<close>), how a
  file can leave the out dir, and the invariant of the held announces, an instance of
  the locale of \<^verbatim>\<open>Transition\<close>.
\<close>


section \<open>What the operations keep\<close>

text \<open>
  The order of jobs every operation respects: acknowledged names stay, a broken gate
  stays broken, a terminal state stays, a closed intake stays closed.
\<close>

definition jobMono :: "job \<Rightarrow> job \<Rightarrow> bool" where
  "jobMono j j' \<longleftrightarrow> j_acked j \<subseteq> j_acked j' \<and> (gateBroken j \<longrightarrow> gateBroken j') \<and>
     (isTerminal (j_state j) \<longrightarrow> j_state j' = j_state j \<and> j_terminalAt j' = j_terminalAt j) \<and>
     (j_intakeClosed j \<longrightarrow> j_intakeClosed j') \<and> (j_queueClosed j \<longrightarrow> j_queueClosed j') \<and>
     (j_failing j \<longrightarrow> j_failing j') \<and>
     (j_cancelState j \<noteq> None \<longrightarrow> j_cancelState j' = j_cancelState j)"

named_theorems job_ops \<open>unfoldings of the job operations\<close>

declare setState_def [job_ops] finalize_def [job_ops] abortFail_def [job_ops]
  requestCancel_def [job_ops] subscribeEvents_def [job_ops] unsubscribeEvents_def [job_ops]
  startPushers_def [job_ops] enqueue_def [job_ops] resolveUpload_def [job_ops]
  drainBegin_def [job_ops]

lemma jobMono_refl [simp]: "jobMono j j"
  by (simp add: jobMono_def)

lemma jobMono_ops:
  "s \<in> {JobPending, JobPreparing, JobRunning, JobDraining} \<Longrightarrow> jobMono j (fst (setState s now j))"
  "jobMono j (fst (finalize st c now j))"
  "jobMono j (fst (abortFail msg j))"
  "jobMono j (fst (requestCancel target j))"
  "jobMono j (subscribeEvents j)"
  "jobMono j (unsubscribeEvents now j)"
  "jobMono j (startPushers j)"
  "jobMono j (fst (enqueue cap n j))"
  "jobMono j (resolveUpload n ok j)"
  "jobMono j (drainBegin j)"
  by (auto simp: job_ops jobMono_def gateBroken_def Let_def split: option.splits)

lemma fold_applyEffect_job [simp]: "s_job (fold applyEffect es s) = s_job s"
proof (induction es arbitrary: s)
  case (Cons e es)
  then show ?case by (cases e) auto
qed simp

lemma withJob_job [simp]: "s_job (withJob je s) = fst je"
  by (simp add: withJob_def)

lemma applyEffect_frame [simp]:
  "s_job (applyEffect e s) = s_job s" "s_pc (applyEffect e s) = s_pc s"
  "s_watch (applyEffect e s) = s_watch s"
  "s_up (applyEffect e s) = s_up s" "s_gates (applyEffect e s) = s_gates s"
  "s_master (applyEffect e s) = s_master s" "s_accepted (applyEffect e s) = s_accepted s"
  "s_failed (applyEffect e s) = s_failed s" "s_overflow (applyEffect e s) = s_overflow s"
  by (cases e; simp)+

lemma fold_applyEffect_frame [simp]:
  "s_pc (fold applyEffect es s) = s_pc s" "s_watch (fold applyEffect es s) = s_watch s"
  "s_up (fold applyEffect es s) = s_up s" "s_gates (fold applyEffect es s) = s_gates s"
  "s_master (fold applyEffect es s) = s_master s" "s_accepted (fold applyEffect es s) = s_accepted s"
  "s_failed (fold applyEffect es s) = s_failed s" "s_overflow (fold applyEffect es s) = s_overflow s"
  by (induction es arbitrary: s) simp_all

lemma withJob_frame [simp]:
  "s_pc (withJob je s) = s_pc s" "s_watch (withJob je s) = s_watch s"
  "s_up (withJob je s) = s_up s" "s_gates (withJob je s) = s_gates s"
  "s_master (withJob je s) = s_master s" "s_accepted (withJob je s) = s_accepted s"
  "s_failed (withJob je s) = s_failed s" "s_overflow (withJob je s) = s_overflow s"
  by (simp_all add: withJob_def)

text \<open>Only removing the job directory touches the disk among the effects.\<close>

lemma applyEffect_disk: "s_disk (applyEffect e s) = (if e = RemoveDir then {} else s_disk s)"
  by (cases e) auto

lemma fold_applyEffect_disk:
  "s_disk (fold applyEffect es s) = (if RemoveDir \<in> set es then {} else s_disk s)"
proof (induction es arbitrary: s)
  case (Cons e es)
  then show ?case by (cases e) auto
qed simp

lemma withJob_disk: "s_disk (withJob je s) = (if RemoveDir \<in> set (snd je) then {} else s_disk s)"
  by (simp add: withJob_def fold_applyEffect_disk)

lemma removes_dir [simp]:
  "RemoveDir \<notin> set (snd (setState s now j))"
  "RemoveDir \<notin> set (snd (abortFail msg j))"
  "RemoveDir \<notin> set (snd (requestCancel target j))"
  by (auto simp: job_ops killProcess_def Let_def)

lemma finalize_removes_dir:
  "RemoveDir \<in> set (snd (finalize st c now j)) \<Longrightarrow> gateBroken (fst (finalize st c now j))"
  by (auto simp: finalize_def Let_def gateBroken_def split: if_splits)

section \<open>Monotonicity of a step\<close>

lemma jobMono_fields [simp]:
  "jobMono j (j\<lparr>j_started := b\<rparr>)" "jobMono j (j\<lparr>j_exited := b\<rparr>)" "jobMono j (j\<lparr>j_queue := q\<rparr>)"
  by (simp_all add: jobMono_def gateBroken_def)

lemma jobMono_enqueue: "enqueue cap n j = (j', b) \<Longrightarrow> jobMono j j'"
  by (metis fst_conv jobMono_ops(8))

text \<open>The splits a case analysis of one step needs.\<close>

lemmas step_splits = if_splits option.splits runpc.splits list.splits uphase.splits
  gateVerdict.splits lifelineVerdict.splits prod.splits

lemmas step_defs = failWith_def setUp_def dropUp_def failUpload_def

lemma step_mono: "step cap par a s = Some t \<Longrightarrow> jobMono (s_job s) (s_job t)"
  by (cases a) (auto simp: jobMono_ops jobMono_enqueue step_defs Let_def split: step_splits)

text \<open>The effects \<^verbatim>\<open>finalize\<close> still has to perform.\<close>

definition dueEffects :: "sys \<Rightarrow> effect list" where
  "dueEffects s = (case s_pc s of PcEffects es \<Rightarrow> es | _ \<Rightarrow> [])"

definition removalBroken :: "sys \<Rightarrow> bool" where
  "removalBroken s \<longleftrightarrow> (RemoveDir \<in> set (dueEffects s) \<longrightarrow> gateBroken (s_job s))"

lemma step_removalBroken:
  assumes "step cap par a s = Some t" "removalBroken s"
  shows "removalBroken t"
proof -
  have mono: "jobMono (s_job s) (s_job t)" by (rule step_mono [OF assms(1)])
  have "set (dueEffects t) \<subseteq> set (dueEffects s) \<or>
      (\<exists>st c now. dueEffects t = snd (finalize st c now (s_job s)) \<and> s_job t = fst (finalize st c now (s_job s)))"
    using assms(1)
    by (cases a) (force simp: dueEffects_def step_defs Let_def split: step_splits)+
  then show ?thesis
    using mono assms(2) finalize_removes_dir unfolding removalBroken_def jobMono_def by (metis subsetD)
qed

lemma step_removes_file:
  assumes "step cap par a s = Some t" "n \<in> s_disk s" "n \<notin> s_disk t" "removalBroken s" "a \<noteq> Unlink n"
    and "\<And>m. (m, UAcked) \<in> set (s_up s) \<Longrightarrow> m \<in> j_acked (s_job s)"
  shows "n \<in> j_acked (s_job t) \<or> gateBroken (s_job t)"
proof -
  have mono: "jobMono (s_job s) (s_job t)" by (rule step_mono [OF assms(1)])
  consider (cleanup) i where "a = Cleanup i" "i < length (s_up s)" "s_up s ! i = (n, UAcked)"
    | (final) es where "s_pc s = PcEffects (RemoveDir # es)"
    using assms(1-3,5)
    by (cases a) (auto simp: withJob_disk applyEffect_disk step_defs Let_def prod_eq_iff split: step_splits)
  then show ?thesis
  proof cases
    case cleanup
    then have "n \<in> j_acked (s_job s)" using assms(6) by (metis nth_mem)
    then show ?thesis using mono by (auto simp: jobMono_def)
  next
    case final
    then show ?thesis using assms(4) mono by (simp add: removalBroken_def dueEffects_def jobMono_def)
  qed
qed

section \<open>The gate invariant\<close>

definition uploadsAcked :: "sys \<Rightarrow> bool" where
  "uploadsAcked s \<longleftrightarrow> (\<forall>n. (n, UAcked) \<in> set (s_up s) \<longrightarrow> n \<in> j_acked (s_job s)) \<and>
     j_acked (s_job s) \<subseteq> s_master s"

text \<open>A name an announce refers to, present when the announce came, at a gate.\<close>

definition gateHolds :: "sys \<Rightarrow> gate \<Rightarrow> string \<Rightarrow> bool" where
  "gateHolds s g n \<longleftrightarrow> n \<in> j_acked (s_job s) \<or>
     (g_status g = GWaiting \<and> n \<in> set (g_rest g) \<and> (n \<in> s_disk s \<or> gateBroken (s_job s)))"

definition gateInv :: "sys \<Rightarrow> bool" where
  "gateInv s \<longleftrightarrow> uploadsAcked s \<and> removalBroken s \<and>
     (\<forall>g \<in> set (s_gates s). g_status g \<noteq> GAborted \<longrightarrow>
        (\<forall>n \<in> set (g_names g) \<inter> g_seen g. gateHolds s g n))"

lemma step_uploadsAcked:
  assumes "step cap par a s = Some t" "uploadsAcked s"
  shows "uploadsAcked t"
proof -
  have mono: "j_acked (s_job s) \<subseteq> j_acked (s_job t)"
    using step_mono [OF assms(1)] by (simp add: jobMono_def)
  have up: "(n, UAcked) \<in> set (s_up t) \<Longrightarrow> (n, UAcked) \<in> set (s_up s) \<or> n \<in> j_acked (s_job t)" for n
    using assms(1)
    by (cases a) (auto simp: step_defs Let_def resolveUpload_def dest: in_set_takeD in_set_dropD
        dest!: set_update_subset_insert [THEN subsetD] split: step_splits)
  have master: "j_acked (s_job t) \<subseteq> s_master t"
    using assms
    by (cases a) (auto simp: uploadsAcked_def step_defs Let_def job_ops split: step_splits)
  from mono up master assms(2) show ?thesis by (auto simp: uploadsAcked_def)
qed

lemma step_gates:
  assumes "step cap par a s = Some t"
  shows "s_gates t = s_gates s \<or>
    (\<exists>ns. a = Announce ns) \<or> (\<exists>i ctxDone. a = GateStep i ctxDone) \<or> (\<exists>n. a = Unlink n)"
  using assms by (cases a) (auto simp: step_defs Let_def split: step_splits)

lemma step_gateHolds:
  assumes "step cap par a s = Some t" "uploadsAcked s" "removalBroken s" "gateHolds s g n" "a \<noteq> Unlink n"
  shows "gateHolds t g n"
proof -
  have mono: "jobMono (s_job s) (s_job t)" by (rule step_mono [OF assms(1)])
  have "n \<in> s_disk s \<Longrightarrow> n \<in> s_disk t \<or> n \<in> j_acked (s_job t) \<or> gateBroken (s_job t)"
    using step_removes_file [OF assms(1)] assms(2,3,5) by (auto simp: uploadsAcked_def)
  with mono assms(4) show ?thesis by (auto simp: gateHolds_def jobMono_def)
qed

lemma gateStep_inv:
  assumes "step cap par (GateStep i ctxDone) s = Some t" "gateInv s"
  shows "gateInv t"
proof -
  let ?g = "s_gates s ! i"
  have i: "i < length (s_gates s)" "g_status ?g = GWaiting"
    using assms(1) by (auto split: if_splits)
  then have "?g \<in> set (s_gates s)" by simp
  with assms(2) i have held: "\<forall>n \<in> set (g_names ?g) \<inter> g_seen ?g. gateHolds s ?g n"
    by (simp add: gateInv_def)
  have same: "s_job t = s_job s" "s_disk t = s_disk s" "s_up t = s_up s" "s_master t = s_master s" "s_pc t = s_pc s"
    using assms(1) by (auto simp: Let_def split: step_splits)
  then have holds: "gateHolds t = gateHolds s" by (intro ext) (simp add: gateHolds_def)
  obtain g' where t: "s_gates t = (s_gates s)[i := g']" "g_names g' = g_names ?g" "g_seen g' = g_seen ?g"
    and g': "g_status g' \<noteq> GAborted \<Longrightarrow> n \<in> set (g_names ?g) \<inter> g_seen ?g \<Longrightarrow> gateHolds s g' n" for n
    using assms(1) i held
    by (force simp: Let_def gateHolds_def gateCheck_def split: step_splits)
  show ?thesis
    unfolding gateInv_def holds
  proof (intro conjI ballI impI)
    show "uploadsAcked t" using assms(2) same by (simp add: gateInv_def uploadsAcked_def)
    show "removalBroken t" using assms(2) same by (simp add: gateInv_def removalBroken_def dueEffects_def)
  next
    fix g n
    assume "g \<in> set (s_gates t)" "g_status g \<noteq> GAborted" "n \<in> set (g_names g) \<inter> g_seen g"
    moreover from this t(1) have "g = g' \<or> g \<in> set (s_gates s)"
      using set_update_subset_insert [of "s_gates s" i g'] by auto
    ultimately show "gateHolds s g n" using g' t(2,3) assms(2) by (auto simp: gateInv_def)
  qed
qed

lemma forget_fields [simp]:
  "g_names (forget n g) = g_names g" "g_rest (forget n g) = g_rest g" "g_status (forget n g) = g_status g"
  "gateHolds s (forget n g) = gateHolds s g"
  by (auto simp: forget_def gateHolds_def)

lemma unlink_inv:
  assumes "step cap par (Unlink m) s = Some t" "gateInv s"
  shows "gateInv t"
proof -
  from assms(1) have t: "t = s\<lparr>s_disk := s_disk s - {m}, s_gates := map (forget m) (s_gates s)\<rparr>" by (auto split: if_splits)
  have up: "uploadsAcked s" "removalBroken s" using assms(2) by (simp_all add: gateInv_def)
  then have up': "uploadsAcked t" "removalBroken t" by (simp_all add: t uploadsAcked_def removalBroken_def dueEffects_def)
  have "gateHolds t (forget m g) n"
    if g: "g \<in> set (s_gates s)" "g_status g \<noteq> GAborted" "n \<in> set (g_names g)" "n \<in> g_seen (forget m g)" for g n
  proof -
    have held: "gateHolds s g n" using assms(2) g by (auto simp: gateInv_def forget_def split: if_splits)
    show ?thesis
    proof (cases "g_status g = GWaiting")
      case True
      then have "n \<noteq> m" using g(4) by (simp add: forget_def)
      then show ?thesis using step_gateHolds [OF assms(1) up held] by simp
    next
      case False
      then show ?thesis using held by (simp add: gateHolds_def t)
    qed
  qed
  with up' show ?thesis by (auto simp: gateInv_def t)
qed

lemma step_gateInv:
  assumes "gateInv s" "step cap par a s = Some t"
  shows "gateInv t"
proof -
  have up: "uploadsAcked t" "uploadsAcked s" "removalBroken s" "removalBroken t"
    using step_uploadsAcked [OF assms(2)] step_removalBroken [OF assms(2)] assms(1)
    by (auto simp: gateInv_def)
  from step_gates [OF assms(2)] consider (same) "s_gates t = s_gates s"
    | (announce) ns where "a = Announce ns" | (gatestep) i c where "a = GateStep i c" | (unlink) m where "a = Unlink m" by blast
  then show ?thesis
  proof cases
    case unlink
    with unlink_inv assms show ?thesis by blast
  next
    case same
    show ?thesis
    proof (cases "\<exists>m. a = Unlink m")
      case True
      with unlink_inv assms show ?thesis by blast
    next
      case False
      with same up step_gateHolds [OF assms(2) up(2,3)] assms(1) show ?thesis by (simp add: gateInv_def)
    qed
  next
    case announce
    with assms(2) have "s_gates t = s_gates s @ [\<lparr>g_names = ns, g_rest = ns,
        g_seen = s_disk s \<union> j_acked (s_job s), g_status = GWaiting\<rparr>]" "s_job t = s_job s" "s_disk t = s_disk s"
      by auto
    with up step_gateHolds [OF assms(2) up(2,3)] assms(1) show ?thesis
      by (auto simp: gateInv_def gateHolds_def)
  next
    case gatestep
    with gateStep_inv assms show ?thesis by blast
  qed
qed

lemma gateInv_init: "gateInv (initSys jid jobdir)"
  by (simp add: gateInv_def uploadsAcked_def removalBroken_def dueEffects_def initSys_def newJob_def withJob_def)

interpretation gates: invariant_of "step cap par" "\<lambda>s. \<exists>jid jobdir. s = initSys jid jobdir" gateInv
  for cap par
proof
  show "\<exists>jid jobdir. s = initSys jid jobdir \<Longrightarrow> gateInv s" for s
    using gateInv_init by blast
  show "gateInv s \<Longrightarrow> step cap par a s = Some t \<Longrightarrow> gateInv t" for s a t
    by (rule step_gateInv)
qed

lemma forwarded_acked:
  assumes "reachable (step cap par) (initSys jid jobdir) s"
    and "g \<in> set (s_gates s)" "g_status g = GForwarded" "n \<in> set (g_names g)" "n \<in> g_seen g"
  shows "n \<in> s_master s"
proof -
  have "gateInv s" by (rule gates.inv_reachable [OF _ assms(1)]) blast
  moreover from this have "gateHolds s g n" using assms(2-5) by (simp add: gateInv_def)
  ultimately show ?thesis using assms(3) by (auto simp: gateInv_def gateHolds_def uploadsAcked_def)
qed

section \<open>Properties\<close>


text \<open>A job that runs, produces one chunk and announces it: the schedule up to the announce.\<close>

definition startSchedule :: "action list" where
  "startSchedule = [RunStep 0, Prepare None, RunStep 0, Pushers None, Spawn None, RunStep 1]"

definition pushOne :: "string \<Rightarrow> action list" where
  "pushOne n = [Produce n, WatchDeliver, Pop, OpenFile 0 [], PutOk 0, Cleanup 0]"

lemmas run_defs = initSys_def withJob_def newJob_def setState_def startPushers_def enqueue_def
  resolveUpload_def setUp_def dropUp_def gateCheck_def abortState_def gateBroken_def finalize_def
  drainBegin_def drainWaits_def drainResult_def decideFinal_def exitCodeOf_def Let_def


end
