(* ===== verification/JobLife.thy ===== *)
theory JobLife
  imports JobGate
begin

text \<open>
  The life cycle of a job as its events stream shows it: the states \<^verbatim>\<open>run\<close> publishes and
  the single exit event (\<^verbatim>\<open>setState\<close>, \<^verbatim>\<open>finalize\<close> in \<^verbatim>\<open>internal/workerd/job.go\<close>), under
  every interleaving with the other threads, and that \<^verbatim>\<open>run\<close> always gets to its end.
\<close>

section \<open>Published events\<close>

fun statesOf :: "Event list \<Rightarrow> JobState list" where
  "statesOf [] = []"
| "statesOf (EventState st # es) = st # statesOf es"
| "statesOf (_ # es) = statesOf es"

fun exitsOf :: "Event list \<Rightarrow> int option list" where
  "exitsOf [] = []"
| "exitsOf (EventExit c # es) = c # exitsOf es"
| "exitsOf (_ # es) = exitsOf es"

fun pubsOf :: "effect list \<Rightarrow> Event list" where
  "pubsOf [] = []"
| "pubsOf (Publish ev # es) = ev # pubsOf es"
| "pubsOf (_ # es) = pubsOf es"

lemma statesOf_append [simp]: "statesOf (a @ b) = statesOf a @ statesOf b"
  by (induction a rule: statesOf.induct) simp_all

lemma exitsOf_append [simp]: "exitsOf (a @ b) = exitsOf a @ exitsOf b"
  by (induction a rule: exitsOf.induct) simp_all

lemma pubsOf_append [simp]: "pubsOf (a @ b) = pubsOf a @ pubsOf b"
  by (induction a rule: pubsOf.induct) simp_all

text \<open>Effects that only log a line and signal the process.\<close>

fun quietEffect :: "effect \<Rightarrow> bool" where
  "quietEffect (Publish (EventStderr l)) = True"
| "quietEffect CancelProc = True"
| "quietEffect ScheduleKill = True"
| "quietEffect _ = False"

lemma applyEffect_quiet:
  "quietEffect e \<Longrightarrow> statesOf (s_pub (applyEffect e s)) = statesOf (s_pub s) \<and>
     exitsOf (s_pub (applyEffect e s)) = exitsOf (s_pub s) \<and>
     s_hubClosed (applyEffect e s) = s_hubClosed s \<and> s_qClosed (applyEffect e s) = s_qClosed s \<and>
     s_panic (applyEffect e s) = s_panic s"
  by (induction e rule: quietEffect.induct) auto

lemma fold_quiet:
  "list_all quietEffect es \<Longrightarrow> statesOf (s_pub (fold applyEffect es s)) = statesOf (s_pub s) \<and>
     exitsOf (s_pub (fold applyEffect es s)) = exitsOf (s_pub s) \<and>
     s_hubClosed (fold applyEffect es s) = s_hubClosed s \<and>
     s_qClosed (fold applyEffect es s) = s_qClosed s \<and> s_panic (fold applyEffect es s) = s_panic s"
  by (induction es arbitrary: s) (simp_all add: applyEffect_quiet)

lemma withJob_quiet:
  assumes "list_all quietEffect (snd je)"
  shows "statesOf (s_pub (withJob je s)) = statesOf (s_pub s)"
    "exitsOf (s_pub (withJob je s)) = exitsOf (s_pub s)"
    "s_hubClosed (withJob je s) = s_hubClosed s" "s_qClosed (withJob je s) = s_qClosed s"
    "s_panic (withJob je s) = s_panic s"
  using fold_quiet [OF assms] by (simp_all add: withJob_def)

lemma quiet_ops [simp]:
  "list_all quietEffect (snd (abortFail msg j))" "list_all quietEffect (snd (requestCancel target j))"
  by (simp_all add: abortFail_def requestCancel_def killProcess_def Let_def)

lemma withJob_setState:
  "isTerminal (j_state j) \<Longrightarrow> withJob (setState st now j) s = s\<lparr>s_job := j\<rparr>"
  "\<not> isTerminal (j_state j) \<Longrightarrow> withJob (setState st now j) s =
     applyEffect (Publish (EventState st)) (s\<lparr>s_job := fst (setState st now j)\<rparr>)"
  by (simp_all add: withJob_def setState_def)

lemma setState_state: "\<not> isTerminal (j_state j) \<Longrightarrow> j_state (fst (setState st now j)) = st"
  by (simp add: setState_def)

section \<open>The life cycle\<close>

text \<open>The states a job has published when it is in a non-terminal state.\<close>

fun statesUpTo :: "JobState \<Rightarrow> JobState list" where
  "statesUpTo JobPending = [JobPending]"
| "statesUpTo JobPreparing = [JobPending, JobPreparing]"
| "statesUpTo JobRunning = [JobPending, JobPreparing, JobRunning]"
| "statesUpTo JobDraining = [JobPending, JobPreparing, JobRunning, JobDraining]"
| "statesUpTo _ = []"

text \<open>
  The documented life cycle: a job ends after DRAINING, or after PREPARING when it never
  got a transcoder.
\<close>

definition lifecycle :: "JobState list \<Rightarrow> bool" where
  "lifecycle sts \<longleftrightarrow> (\<exists>st \<in> {JobPending, JobPreparing, JobRunning, JobDraining}. sts = statesUpTo st) \<or>
     (\<exists>st \<in> {JobPreparing, JobDraining}. \<exists>fin. isTerminal fin \<and> sts = statesUpTo st @ [fin])"

fun pcState :: "runpc \<Rightarrow> JobState \<Rightarrow> bool" where
  "pcState PcStart st = (st = JobPending)"
| "pcState (PcExited c) st = (st = JobRunning)"
| "pcState PcWait st = (st = JobRunning)"
| "pcState (PcDrain c) st = (st = JobDraining)"
| "pcState (PcDraining c) st = (st = JobDraining)"
| "pcState (PcDecide c e) st = (st = JobDraining)"
| "pcState (PcFinal fin c) st = (st \<in> {JobPreparing, JobDraining} \<and> isTerminal fin)"
| "pcState (PcEffects es) st = isTerminal st"
| "pcState PcDone st = isTerminal st"
| "pcState _ st = (st = JobPreparing)"

definition cancelOk :: "job \<Rightarrow> bool" where
  "cancelOk j \<longleftrightarrow> j_cancelState j \<in> {None, Some JobCancelled, Some JobLost}"

definition emittedStates :: "sys \<Rightarrow> JobState list" where
  "emittedStates s = statesOf (s_pub s) @ statesOf (pubsOf (dueEffects s))"

definition emittedExits :: "sys \<Rightarrow> int option list" where
  "emittedExits s = exitsOf (s_pub s) @ exitsOf (pubsOf (dueEffects s))"

fun pubFirst :: "effect list \<Rightarrow> bool" where
  "pubFirst (Publish ev # es) = pubFirst es"
| "pubFirst es = (pubsOf es = [])"

definition lifeObs :: "JobState \<Rightarrow> bool \<Rightarrow> effect list \<Rightarrow> JobState list \<Rightarrow> int option list \<Rightarrow> bool" where
  "lifeObs st hubClosed due sts exits \<longleftrightarrow> pubFirst due \<and> length due \<le> 6 \<and>
     length (statesOf (pubsOf due)) \<le> 1 \<and>
     (hubClosed \<longrightarrow> isTerminal st \<and> pubsOf due = []) \<and>
     (if isTerminal st
      then sts \<in> {statesUpTo JobPreparing @ [st], statesUpTo JobDraining @ [st]} \<and> (\<exists>c. exits = [Some c])
      else sts = statesUpTo st \<and> exits = [])"

definition lifeInv :: "sys \<Rightarrow> bool" where
  "lifeInv s \<longleftrightarrow> cancelOk (s_job s) \<and> pcState (s_pc s) (j_state (s_job s)) \<and>
     lifeObs (j_state (s_job s)) (s_hubClosed s) (dueEffects s) (emittedStates s) (emittedExits s)"

lemma job_state_ops [simp]:
  "j_state (fst (abortFail msg j)) = j_state j" "j_state (fst (requestCancel target j)) = j_state j"
  "j_state (subscribeEvents j) = j_state j" "j_state (unsubscribeEvents now j) = j_state j"
  "j_state (startPushers j) = j_state j" "j_state (fst (enqueue cap n j)) = j_state j"
  "j_state (resolveUpload n ok j) = j_state j" "j_state (drainBegin j) = j_state j"
  by (auto simp: job_ops Let_def split: option.splits)

lemma job_cancel_ops [simp]:
  "j_cancelState (fst (abortFail msg j)) = j_cancelState j"
  "j_cancelState (fst (setState st now j)) = j_cancelState j"
  "j_cancelState (fst (finalize st c now j)) = j_cancelState j"
  "j_cancelState (subscribeEvents j) = j_cancelState j"
  "j_cancelState (unsubscribeEvents now j) = j_cancelState j"
  "j_cancelState (startPushers j) = j_cancelState j"
  "j_cancelState (fst (enqueue cap n j)) = j_cancelState j"
  "j_cancelState (resolveUpload n ok j) = j_cancelState j"
  "j_cancelState (drainBegin j) = j_cancelState j"
  by (auto simp: job_ops Let_def split: option.splits)

lemma cancelOk_cong: "j_cancelState j = j_cancelState j' \<Longrightarrow> cancelOk j = cancelOk j'"
  by (simp add: cancelOk_def)

lemma enqueue_same:
  "enqueue cap n j = (j', b) \<Longrightarrow> j_state j' = j_state j"
  "enqueue cap n j = (j', b) \<Longrightarrow> j_cancelState j' = j_cancelState j"
  using job_state_ops(6) [of cap n j] job_cancel_ops(7) [of cap n j] by simp_all

lemma step_cancelOk: "step cap par a s = Some t \<Longrightarrow> cancelOk (s_job s) \<Longrightarrow> cancelOk (s_job t)"
  by (cases a)
    (auto simp: cancelOk_def requestCancel_def enqueue_same step_defs Let_def split: step_splits)

fun dueOf :: "runpc \<Rightarrow> effect list" where
  "dueOf (PcEffects es) = es"
| "dueOf _ = []"

lemma dueEffects_pc: "dueEffects s = dueOf (s_pc s)"
  by (simp add: dueEffects_def split: runpc.splits)

fun isRunStep :: "action \<Rightarrow> bool" where
  "isRunStep (RunStep now) = True"
| "isRunStep _ = False"

text \<open>Every step but those of \<^verbatim>\<open>run\<close> itself leaves the life cycle alone.\<close>

definition sameLife :: "sys \<Rightarrow> sys \<Rightarrow> bool" where
  "sameLife s t \<longleftrightarrow> j_state (s_job t) = j_state (s_job s) \<and> s_hubClosed t = s_hubClosed s \<and>
     statesOf (s_pub t) = statesOf (s_pub s) \<and> exitsOf (s_pub t) = exitsOf (s_pub s)"

lemma step_sameLife: "step cap par a s = Some t \<Longrightarrow> \<not> isRunStep a \<Longrightarrow> sameLife s t"
  by (cases a) (auto simp: sameLife_def withJob_quiet enqueue_same step_defs Let_def split: step_splits)

lemma step_due: "step cap par a s = Some t \<Longrightarrow> \<not> isRunStep a \<Longrightarrow> dueEffects t = dueEffects s"
  unfolding dueEffects_pc
  by (cases a) (auto simp: step_defs Let_def split: step_splits)

lemma step_pcState:
  "step cap par a s = Some t \<Longrightarrow> \<not> isRunStep a \<Longrightarrow> pcState (s_pc s) st \<Longrightarrow> pcState (s_pc t) st"
  by (cases a) (auto simp: step_defs Let_def split: step_splits)

lemma lifeInv_other:
  assumes "lifeInv s" "step cap par a s = Some t" "\<not> isRunStep a"
  shows "lifeInv t"
  using assms(1) step_sameLife [OF assms(2,3)] step_due [OF assms(2,3)]
    step_pcState [OF assms(2,3)] step_cancelOk [OF assms(2)]
  unfolding lifeInv_def sameLife_def emittedStates_def emittedExits_def by simp

lemma pubFirst_tail: "pubFirst (e # es) \<Longrightarrow> pubFirst es"
proof (cases es)
  case (Cons e' es')
  assume "pubFirst (e # es)"
  with Cons show ?thesis by (cases e; cases e') auto
qed simp

lemma finalize_length: "length (snd (finalize st c now j)) \<le> 6"
  by (simp add: finalize_def Let_def)

lemma finalize_due:
  assumes "\<not> isTerminal (j_state j)" "isTerminal st"
  shows "pubsOf (snd (finalize st c now j)) = [EventState st, EventExit (Some c)]"
    "pubFirst (snd (finalize st c now j))" "j_state (fst (finalize st c now j)) = st"
  using assms by (auto simp: finalize_def Let_def)

lemma terminalFor_terminal: "cancelOk j \<Longrightarrow> isTerminal (terminalFor b j)"
  by (auto simp: cancelOk_def terminalFor_def)

lemma decideFinal_terminal: "cancelOk j \<Longrightarrow> isTerminal (decideFinal j c e)"
  by (auto simp: cancelOk_def decideFinal_def)

lemma abortState_terminal: "cancelOk j \<Longrightarrow> abortState j = Some st \<Longrightarrow> isTerminal st"
  by (auto simp: cancelOk_def abortState_def split: option.splits if_splits)

lemma lifeInv_effect:
  assumes "lifeInv s" "s_pc s = PcEffects (e # es)"
  shows "lifeInv (applyEffect e (s\<lparr>s_pc := PcEffects es\<rparr>))"
proof -
  have done_: "isTerminal (j_state (s_job s))" using assms by (simp add: lifeInv_def)
  have due: "pubFirst (e # es)" "s_hubClosed s \<longrightarrow> pubsOf (e # es) = []"
    using assms by (simp_all add: lifeInv_def lifeObs_def dueEffects_def)
  have frame: "s_job (applyEffect e (s\<lparr>s_pc := PcEffects es\<rparr>)) = s_job s"
    "s_pc (applyEffect e (s\<lparr>s_pc := PcEffects es\<rparr>)) = PcEffects es" by simp_all
  have "emittedStates (applyEffect e (s\<lparr>s_pc := PcEffects es\<rparr>)) = emittedStates s"
    "emittedExits (applyEffect e (s\<lparr>s_pc := PcEffects es\<rparr>)) = emittedExits s"
    using due(2) assms(2) statesOf_append [of "[ev]" "pubsOf es" for ev]
      exitsOf_append [of "[ev]" "pubsOf es" for ev]
    by (cases e; simp add: emittedStates_def emittedExits_def dueEffects_pc)+
  moreover have "length (statesOf (pubsOf (e # es))) \<le> 1"
    using assms by (simp add: lifeInv_def lifeObs_def dueEffects_def)
  then have "length (statesOf (pubsOf es)) \<le> 1"
    using statesOf_append [of "[ev]" "pubsOf es" for ev] by (cases e) auto
  moreover have "s_hubClosed (applyEffect e (s\<lparr>s_pc := PcEffects es\<rparr>)) \<longrightarrow> pubsOf es = []"
    using due by (cases e) auto
  ultimately show ?thesis
    using assms pubFirst_tail [OF due(1)] done_
    unfolding lifeInv_def frame by (auto simp: lifeObs_def dueEffects_pc)
qed

lemmas life_defs = lifeInv_def lifeObs_def dueEffects_pc emittedStates_def emittedExits_def

lemma lifeInv_setState:
  assumes "lifeInv s" "dueOf (s_pc s) = []" "\<not> isTerminal (j_state (s_job s))" "\<not> isTerminal st"
    and "statesUpTo st = statesUpTo (j_state (s_job s)) @ [st]" "pcState pc st" "dueOf pc = []"
  shows "lifeInv (withJob (setState st now (s_job s)) (s\<lparr>s_pc := pc\<rparr>))"
    "lifeInv (withJob (setState st now (s_job s)) (s\<lparr>s_watchClosed := True, s_pc := pc\<rparr>))"
  using assms
  by (simp_all add: life_defs withJob_setState(2) setState_state cancelOk_def)

lemma lifeInv_pc:
  assumes "lifeInv s" "dueOf (s_pc s) = []" "dueOf pc = []" "pcState pc (j_state (s_job s))"
  shows "lifeInv (s\<lparr>s_pc := pc\<rparr>)"
  using assms by (simp add: lifeInv_def dueEffects_pc emittedStates_def emittedExits_def)

lemma lifeInv_stderr:
  "lifeInv s \<Longrightarrow> lifeInv (applyEffect (Publish (EventStderr l)) s)"
  by (cases "s_hubClosed s") (simp_all add: lifeInv_def dueEffects_pc emittedStates_def emittedExits_def)

lemma lifeInv_finalize:
  assumes "lifeInv s" "s_pc s = PcFinal st c"
  shows "lifeInv (s\<lparr>s_job := fst (finalize st c now (s_job s)),
      s_pc := PcEffects (snd (finalize st c now (s_job s)))\<rparr>)"
proof -
  have st: "\<not> isTerminal (j_state (s_job s))" "isTerminal st" "j_state (s_job s) \<in> {JobPreparing, JobDraining}"
    using assms by (auto simp: lifeInv_def)
  then show ?thesis
    using assms finalize_due [OF st(1,2), of c now] finalize_length [of st c now "s_job s"]
    by (auto simp: life_defs cancelOk_def)
qed

lemma lifeInv_run:
  assumes "lifeInv s" "runStep now s = Some t"
  shows "lifeInv t"
proof -
  have ok: "cancelOk (s_job s)" "pcState (s_pc s) (j_state (s_job s))"
    using assms(1) by (simp_all add: lifeInv_def)
  show ?thesis
  proof (cases "s_pc s")
    case PcStart
    with assms ok show ?thesis by (auto intro!: lifeInv_setState)
  next
    case PcPrepared
    with assms ok show ?thesis
      by (auto intro!: lifeInv_pc simp: abortState_terminal split: option.splits)
  next
    case PcSpawned
    with assms ok show ?thesis by (auto intro!: lifeInv_setState)
  next
    case (PcExited c)
    with assms ok show ?thesis by (auto intro!: lifeInv_setState)
  next
    case (PcDrain c)
    with assms ok show ?thesis by (auto simp: life_defs cancelOk_def drainBegin_def)
  next
    case (PcDecide c e)
    let ?s = "case e of None \<Rightarrow> s | Some m \<Rightarrow> applyEffect (Publish (EventStderr (''prt: upload drain: '' @ m))) s"
    have "lifeInv ?s" "s_job ?s = s_job s" "s_pc ?s = s_pc s"
      using assms(1) lifeInv_stderr by (auto split: option.splits)
    moreover have "t = ?s\<lparr>s_pc := PcFinal (decideFinal (s_job s) c e) c\<rparr>"
      using assms(2) PcDecide by simp
    ultimately show ?thesis
      using PcDecide ok by (auto intro!: lifeInv_pc simp: decideFinal_terminal)
  next
    case PcFail
    with assms ok show ?thesis by (auto intro!: lifeInv_pc simp: terminalFor_terminal)
  next
    case (PcFinal st c)
    with assms lifeInv_finalize show ?thesis by auto
  next
    case (PcEffects es)
    show ?thesis
    proof (cases es)
      case Nil
      with assms PcEffects ok show ?thesis by (auto intro!: lifeInv_pc)
    next
      case (Cons e es')
      with assms PcEffects lifeInv_effect show ?thesis by auto
    qed
  qed (use assms in auto)
qed

lemma lifeInv_init: "lifeInv (initSys jid jobdir)"
  by (simp add: life_defs cancelOk_def initSys_def newJob_def withJob_def)

lemma step_lifeInv:
  assumes "lifeInv s" "step cap par a s = Some t"
  shows "lifeInv t"
proof (cases "isRunStep a")
  case True
  then obtain now where "a = RunStep now" by (rule isRunStep.elims)
  with assms lifeInv_run show ?thesis by simp
next
  case False
  with assms lifeInv_other show ?thesis by blast
qed

interpretation life: invariant_of "step cap par" "\<lambda>s. \<exists>jid jobdir. s = initSys jid jobdir" lifeInv
  for cap par
proof
  show "\<exists>jid jobdir. s = initSys jid jobdir \<Longrightarrow> lifeInv s" for s
    using lifeInv_init by blast
  show "lifeInv s \<Longrightarrow> step cap par a s = Some t \<Longrightarrow> lifeInv t" for s a t
    by (rule step_lifeInv)
qed

section \<open>Progress of run\<close>

text \<open>The next move of the run goroutine, with an environment that lets its calls return.\<close>

fun runAction :: "runpc \<Rightarrow> action" where
  "runAction PcPreparing = Prepare None"
| "runAction PcPushers = Pushers None"
| "runAction PcSpawn = Spawn None"
| "runAction PcWait = ProcExit WaitOk"
| "runAction (PcDraining c) = DrainCheck True"
| "runAction _ = RunStep 0"

fun runRank :: "runpc \<Rightarrow> nat" where
  "runRank PcStart = 30"
| "runRank PcPreparing = 29"
| "runRank PcPrepared = 28"
| "runRank PcPushers = 27"
| "runRank PcSpawn = 26"
| "runRank PcSpawned = 25"
| "runRank PcWait = 24"
| "runRank (PcExited c) = 23"
| "runRank (PcDrain c) = 22"
| "runRank (PcDraining c) = 21"
| "runRank (PcDecide c e) = 20"
| "runRank PcFail = 19"
| "runRank (PcFinal st c) = 18"
| "runRank (PcEffects es) = length es + 1"
| "runRank PcDone = 0"

lemma run_progress:
  assumes "s_pc s \<noteq> PcDone"
  shows "\<exists>t. step cap par (runAction (s_pc s)) s = Some t \<and> runRank (s_pc t) < runRank (s_pc s)"
proof (cases "s_pc s")
  case (PcFinal st c)
  with finalize_length [of st c 0 "s_job s"] show ?thesis by simp
next
  case (PcDraining c)
  then show ?thesis by (simp add: drainWaits_def)
next
  case (PcEffects es)
  then show ?thesis by (cases es) simp_all
next
  case (PcDecide c e)
  then show ?thesis by (cases e) simp_all
qed (use assms in \<open>simp_all add: failWith_def split: option.splits\<close>)

lemma run_finishes:
  "\<exists>as t. length as \<le> runRank (s_pc s) \<and> run_actions (step cap par) as s = Some t \<and> s_pc t = PcDone"
proof (induction "runRank (s_pc s)" arbitrary: s rule: less_induct)
  case less
  show ?case
  proof (cases "s_pc s = PcDone")
    case True
    then have "run_actions (step cap par) [] s = Some s \<and> s_pc s = PcDone" by simp
    then show ?thesis by (metis le0 list.size(3))
  next
    case False
    then obtain t where t: "step cap par (runAction (s_pc s)) s = Some t" "runRank (s_pc t) < runRank (s_pc s)"
      using run_progress by blast
    with less obtain as u where "length as \<le> runRank (s_pc t)" "run_actions (step cap par) as t = Some u"
      "s_pc u = PcDone" by blast
    with t have "length (runAction (s_pc s) # as) \<le> runRank (s_pc s) \<and>
        run_actions (step cap par) (runAction (s_pc s) # as) s = Some u \<and> s_pc u = PcDone" by simp
    then show ?thesis by blast
  qed
qed

lemma runRank_bound: "runRank (s_pc (initSys jid d)) = 30"
  by (simp add: initSys_def)

section \<open>Properties\<close>

lemma lifeObs_published:
  assumes "lifeObs st closed due (pub @ statesOf (pubsOf due)) exits" "\<not> isTerminal st \<longrightarrow> due = []"
  shows "lifecycle pub \<and> length pub \<le> 5"
proof (cases "isTerminal st")
  case True
  have "length (statesOf (pubsOf due)) \<le> 1" using assms by (simp add: lifeObs_def)
  then consider "statesOf (pubsOf due) = []" | x where "statesOf (pubsOf due) = [x]"
    by (cases "statesOf (pubsOf due)") auto
  then show ?thesis
    using assms True by cases (auto simp: lifeObs_def lifecycle_def)
next
  case False
  then have "st \<in> {JobPending, JobPreparing, JobRunning, JobDraining}" by (cases st) simp_all
  moreover have "pub = statesUpTo st" using assms False by (simp add: lifeObs_def)
  ultimately show ?thesis by (auto simp: lifecycle_def)
qed

lemma lifeInv_nonterminal: "lifeInv s \<Longrightarrow> \<not> isTerminal (j_state (s_job s)) \<longrightarrow> dueEffects s = []"
  by (cases "s_pc s") (auto simp: lifeInv_def dueEffects_pc)

lemma runRank_le: "lifeInv s \<Longrightarrow> runRank (s_pc s) \<le> 30"
  by (cases "s_pc s") (auto simp: lifeInv_def lifeObs_def dueEffects_pc)

text \<open>What an events stream may show, and what it has shown once \<^verbatim>\<open>run\<close> returned.\<close>

definition historyOk :: "sys \<Rightarrow> bool" where
  "historyOk s \<longleftrightarrow> lifecycle (statesOf (s_pub s)) \<and> length (statesOf (s_pub s)) \<le> 5 \<and>
     length (exitsOf (s_pub s)) \<le> 1 \<and>
     (s_pc s = PcDone \<longrightarrow> isTerminal (j_state (s_job s)) \<and>
        last (statesOf (s_pub s)) = j_state (s_job s) \<and> length (exitsOf (s_pub s)) = 1)"

lemma lifeInv_history:
  assumes "lifeInv s"
  shows "historyOk s"
proof -
  have obs: "lifeObs (j_state (s_job s)) (s_hubClosed s) (dueEffects s)
      (statesOf (s_pub s) @ statesOf (pubsOf (dueEffects s))) (exitsOf (s_pub s) @ exitsOf (pubsOf (dueEffects s)))"
    using assms by (simp add: lifeInv_def emittedStates_def emittedExits_def)
  have exits: "length (exitsOf (s_pub s)) \<le> 1"
  proof (cases "isTerminal (j_state (s_job s))")
    case True
    with obs obtain c where "exitsOf (s_pub s) @ exitsOf (pubsOf (dueEffects s)) = [Some c]"
      by (auto simp: lifeObs_def)
    then show ?thesis by (cases "exitsOf (s_pub s)") auto
  next
    case False
    with obs show ?thesis by (simp add: lifeObs_def)
  qed
  have "isTerminal (j_state (s_job s)) \<and> last (statesOf (s_pub s)) = j_state (s_job s) \<and>
      length (exitsOf (s_pub s)) = 1" if "s_pc s = PcDone"
    using that obs assms by (auto simp: lifeObs_def lifeInv_def dueEffects_pc)
  with exits lifeObs_published [OF obs lifeInv_nonterminal [OF assms]] show ?thesis
    by (simp add: historyOk_def)
qed



end
