(* ===== verification/JobOrder.thy ===== *)
theory JobOrder
  imports JobLife
begin

text \<open>
  The life cycle of a job as an order on its states (\<^verbatim>\<open>internal/workerd/job.go\<close>): an instance of the
  library's class of orders, in which every run climbs.
\<close>

section \<open>The order\<close>

text \<open>
  The life cycle as an order: the states follow one another, and the terminal states, which do not
  follow each other, are the maximal ones.
\<close>

fun stateRank :: "JobState \<Rightarrow> nat" where
  "stateRank JobPending = 0"
| "stateRank JobPreparing = 1"
| "stateRank JobRunning = 2"
| "stateRank JobDraining = 3"
| "stateRank _ = 4"

instantiation JobState :: order
begin

definition less_eq_JobState :: "JobState \<Rightarrow> JobState \<Rightarrow> bool" where
  "s \<le> t \<longleftrightarrow> s = t \<or> stateRank s < stateRank t"

definition less_JobState :: "JobState \<Rightarrow> JobState \<Rightarrow> bool" where
  "s < t \<longleftrightarrow> stateRank s < stateRank t"

instance
  by standard (auto simp: less_eq_JobState_def less_JobState_def)

end

lemma terminal_maximal: "isTerminal (s :: JobState) \<Longrightarrow> s \<le> t \<longleftrightarrow> s = t"
  by (cases s; cases t) (auto simp: less_eq_JobState_def isTerminal_def)

lemma terminal_rank [simp]: "isTerminal s \<Longrightarrow> stateRank s = 4"
  by (cases s) (simp_all add: isTerminal_def)

section \<open>Climbing\<close>

text \<open>The state of a job only moves up in the life cycle.\<close>

lemma step_climbs:
  assumes "lifeInv s" "step cap par a s = Some t"
  shows "j_state (s_job s) \<le> j_state (s_job t)"
proof (cases "isRunStep a")
  case False
  then show ?thesis using step_sameLife [OF assms(2)] by (simp add: sameLife_def)
next
  case True
  have pc: "pcState (s_pc s) (j_state (s_job s))" using assms(1) by (simp add: lifeInv_def)
  from True obtain now where a: "a = RunStep now" by (cases a) auto
  show ?thesis
    using assms(2) pc unfolding a
    by (cases "s_pc s") (auto simp: setState_def finalize_def less_eq_JobState_def Let_def split: option.splits if_splits list.splits)
qed

lemma job_state_climbs:
  assumes "reachable (step cap par) (initSys jid jobdir) s" "reachable (step cap par) s t"
  shows "j_state (s_job s) \<le> j_state (s_job t)"
  using assms(2)
proof (induction rule: reachable.induct)
  case (reach_step u a t)
  have "lifeInv u" by (rule life.inv_reachable [OF _ reachable_trans [OF reach_step.hyps(1) assms(1)]]) blast
  from step_climbs [OF this reach_step.hyps(2)] reach_step.IH show ?case by (rule order_trans [rotated])
qed simp

text \<open>C9: In every interleaving the state events of a job follow PENDING, PREPARING, RUNNING, DRAINING
  and one terminal state, skipping from PREPARING to the terminal state when the job gets no
  transcoder; there are at most five of them (so the snapshot of an event hub stays small)
  and at most one exit event.  When \<^verbatim>\<open>run\<close> has returned the job is terminal, that state is
  the last one published and exactly one exit event was.  From any reachable state on, the
  state of the job only moves up in the life cycle, and a terminal one stays as it is.\<close>

theorem job_event_history:
  assumes "reachable (step cap par) (initSys jid jobdir) s"
  shows "historyOk s \<and> (\<forall>t. reachable (step cap par) s t \<longrightarrow> j_state (s_job s) \<le> j_state (s_job t) \<and>
    (isTerminal (j_state (s_job s)) \<longrightarrow> j_state (s_job t) = j_state (s_job s)))"
proof -
  have "lifeInv s" by (rule life.inv_reachable [OF _ assms]) blast
  then show ?thesis using lifeInv_history job_state_climbs [OF assms] terminal_maximal by metis
qed

lemma job_event_history_witness:
  "\<exists>s. run_actions (step 4 2) (startSchedule @ [CancelJob, ProcExit (WaitSignaled 15), RunStep 2, RunStep 3,
      DrainCheck False, RunStep 4, RunStep 5, RunStep 5, RunStep 5, RunStep 5, RunStep 5, RunStep 5, RunStep 5, RunStep 5])
      (initSys ''j1'' ''d'') = Some s \<and> historyOk s \<and>
      statesOf (s_pub s) = [JobPending, JobPreparing, JobRunning, JobDraining, JobCancelled] \<and>
      exitsOf (s_pub s) = [Some 143]"
proof -
  let ?as = "startSchedule @ [CancelJob, ProcExit (WaitSignaled 15), RunStep 2, RunStep 3,
      DrainCheck False, RunStep 4, RunStep 5, RunStep 5, RunStep 5, RunStep 5, RunStep 5, RunStep 5, RunStep 5, RunStep 5]"
  have "\<exists>s. run_actions (step 4 2) ?as (initSys ''j1'' ''d'') = Some s \<and>
      statesOf (s_pub s) = [JobPending, JobPreparing, JobRunning, JobDraining, JobCancelled] \<and>
      exitsOf (s_pub s) = [Some 143]"
    by (simp add: run_defs startSchedule_def requestCancel_def killProcess_def)
  then obtain s where s: "run_actions (step 4 2) ?as (initSys ''j1'' ''d'') = Some s"
      "statesOf (s_pub s) = [JobPending, JobPreparing, JobRunning, JobDraining, JobCancelled]"
      "exitsOf (s_pub s) = [Some 143]"
    by blast
  with job_event_history [OF run_actions_reachable [OF s(1)]] show ?thesis by blast
qed

end
