(* ===== verification/JobAccount.thy ===== *)
theory JobAccount
  imports JobLife
begin

text \<open>
  The account of the upload queue (\<^verbatim>\<open>internal/workerd/pusher.go\<close>): \<^verbatim>\<open>pending\<close> is the number of
  names queued or being pushed, every accepted name is acknowledged, queued, in flight or
  failed, and what happens to both once intake is closed.
\<close>

section \<open>Accounting invariants\<close>

definition queued :: "job \<Rightarrow> string list" where
  "queued j = (case j_queue j of None \<Rightarrow> [] | Some q \<Rightarrow> q)"

fun unresolved :: "uphase \<Rightarrow> bool" where
  "unresolved UTaken = True"
| "unresolved UOpened = True"
| "unresolved _ = False"

definition inflight :: "sys \<Rightarrow> string list" where
  "inflight s = map fst (filter (\<lambda>u. unresolved (snd u)) (s_up s))"

text \<open>\<^verbatim>\<open>pending\<close> counts exactly the names queued or being pushed, and no accepted name gets lost.\<close>

definition acctInv :: "sys \<Rightarrow> bool" where
  "acctInv s \<longleftrightarrow>
     (j_queue (s_job s) = None \<longrightarrow> s_up s = []) \<and>
     j_pending (s_job s) = int (length (queued (s_job s)) + length (inflight s)) \<and>
     s_accepted s \<subseteq> j_acked (s_job s) \<union> set (queued (s_job s)) \<union> set (inflight s) \<union> s_failed s"

lemma filter_update_drop:
  assumes "i < length xs" "P (xs ! i)" "\<not> P y"
  shows "filter P (xs[i := y]) = filter P (take i xs) @ filter P (drop (Suc i) xs)"
    "filter P xs = filter P (take i xs) @ [xs ! i] @ filter P (drop (Suc i) xs)"
proof -
  show "filter P (xs[i := y]) = filter P (take i xs) @ filter P (drop (Suc i) xs)"
    using assms by (simp add: upd_conv_take_nth_drop)
  have "filter P xs = filter P (take i xs @ xs ! i # drop (Suc i) xs)"
    using assms by (simp add: id_take_nth_drop [symmetric])
  then show "filter P xs = filter P (take i xs) @ [xs ! i] @ filter P (drop (Suc i) xs)"
    using assms by simp
qed

lemma filter_drop_other:
  assumes "i < length xs" "\<not> P (xs ! i)"
  shows "filter P (take i xs @ drop (Suc i) xs) = filter P xs"
proof -
  have "filter P xs = filter P (take i xs @ xs ! i # drop (Suc i) xs)"
    using assms by (simp add: id_take_nth_drop [symmetric])
  then show ?thesis using assms by simp
qed

text \<open>Resolving an upload takes its name out of flight.\<close>

lemma inflight_resolve:
  assumes "i < length (s_up s)" "unresolved (snd (s_up s ! i))" "\<not> unresolved ph" "s_up s' = s_up s"
  shows "length (inflight s) = Suc (length (inflight (setUp i (n, ph) s')))"
    "set (inflight s) \<subseteq> insert (fst (s_up s ! i)) (set (inflight (setUp i (n, ph) s')))"
  using filter_update_drop [of i "s_up s" "\<lambda>u. unresolved (snd u)" "(n, ph)"] assms
  by (auto simp: inflight_def setUp_def)

lemma inflight_open:
  assumes "i < length (s_up s)" "snd (s_up s ! i) = UTaken"
  shows "inflight (setUp i (fst (s_up s ! i), UOpened) s) = inflight s"
proof -
  have "filter P xs = filter P (take i xs) @ filter P [xs ! i] @ filter P (drop (Suc i) xs)" if "i < length xs"
    for P and xs :: "(string \<times> uphase) list"
    using that by (metis (no_types, lifting) append_Cons append_Nil filter_append id_take_nth_drop)
  from this [of "s_up s" "\<lambda>u. unresolved (snd u)"] assms show ?thesis
    by (simp add: inflight_def setUp_def upd_conv_take_nth_drop)
qed

lemma inflight_cong: "s_up s = s_up s' \<Longrightarrow> inflight s = inflight s'"
  by (simp add: inflight_def)

lemma queued_ops [simp]:
  "queued (fst (setState st now j)) = queued j" "queued (fst (finalize st c now j)) = queued j"
  "queued (fst (abortFail msg j)) = queued j" "queued (fst (requestCancel target j)) = queued j"
  "queued (subscribeEvents j) = queued j" "queued (unsubscribeEvents now j) = queued j"
  "queued (resolveUpload n ok j) = queued j" "queued (drainBegin j) = queued j"
  "queued (j\<lparr>j_started := b\<rparr>) = queued j" "queued (j\<lparr>j_exited := b\<rparr>) = queued j"
  by (auto simp: queued_def job_ops Let_def)

lemma pending_ops [simp]:
  "j_pending (fst (setState st now j)) = j_pending j" "j_pending (fst (finalize st c now j)) = j_pending j"
  "j_pending (fst (abortFail msg j)) = j_pending j" "j_pending (fst (requestCancel target j)) = j_pending j"
  "j_pending (subscribeEvents j) = j_pending j" "j_pending (unsubscribeEvents now j) = j_pending j"
  "j_pending (startPushers j) = j_pending j" "j_pending (drainBegin j) = j_pending j"
  by (auto simp: job_ops Let_def)

lemma queue_ops [simp]:
  "j_queue (fst (setState st now j)) = j_queue j" "j_queue (fst (finalize st c now j)) = j_queue j"
  "j_queue (fst (abortFail msg j)) = j_queue j" "j_queue (fst (requestCancel target j)) = j_queue j"
  "j_queue (subscribeEvents j) = j_queue j" "j_queue (unsubscribeEvents now j) = j_queue j"
  "j_queue (resolveUpload n ok j) = j_queue j" "j_queue (drainBegin j) = j_queue j"
  by (auto simp: job_ops Let_def)

lemma acked_ops [simp]:
  "j_acked (fst (setState st now j)) = j_acked j" "j_acked (fst (finalize st c now j)) = j_acked j"
  "j_acked (fst (abortFail msg j)) = j_acked j" "j_acked (fst (requestCancel target j)) = j_acked j"
  "j_acked (subscribeEvents j) = j_acked j" "j_acked (unsubscribeEvents now j) = j_acked j"
  "j_acked (startPushers j) = j_acked j" "j_acked (drainBegin j) = j_acked j"
  by (auto simp: job_ops Let_def)

lemma enqueue_result:
  "enqueue cap n j = (j', over) \<Longrightarrow> j' = j \<or>
     (\<not> j_intakeClosed j \<and> \<not> j_failing j \<and> (\<exists>q. j_queue j = Some q \<and> length q < cap \<and>
        j' = j\<lparr>j_queue := Some (q @ [n]), j_pending := j_pending j + 1\<rparr>))"
  unfolding enqueue_def by (simp split: if_splits option.splits)

text \<open>A step that touches neither the queue nor the uploads keeps the account.\<close>

definition sameAcct :: "sys \<Rightarrow> sys \<Rightarrow> bool" where
  "sameAcct s t \<longleftrightarrow> j_queue (s_job t) = j_queue (s_job s) \<and> s_up t = s_up s \<and>
     j_pending (s_job t) = j_pending (s_job s) \<and> j_acked (s_job t) = j_acked (s_job s) \<and>
     s_accepted t = s_accepted s \<and> s_failed t = s_failed s"

lemma sameAcct_acct: "sameAcct s t \<Longrightarrow> acctInv s \<Longrightarrow> acctInv t"
  unfolding acctInv_def sameAcct_def queued_def inflight_def by simp

fun touchesQueue :: "action \<Rightarrow> bool" where
  "touchesQueue (Pushers r) = True"
| "touchesQueue WatchDeliver = True"
| "touchesQueue Pop = True"
| "touchesQueue (OpenFile i e) = True"
| "touchesQueue (PutOk i) = True"
| "touchesQueue (PutFail i e) = True"
| "touchesQueue (Cleanup i) = True"
| "touchesQueue _ = False"

lemma step_sameAcct: "step cap par a s = Some t \<Longrightarrow> \<not> touchesQueue a \<Longrightarrow> sameAcct s t"
  by (cases a) (auto simp: sameAcct_def step_defs Let_def split: step_splits)

lemma acct_failUpload:
  assumes "acctInv s" "i < length (s_up s)" "unresolved (snd (s_up s ! i))"
  shows "acctInv (failUpload i (fst (s_up s ! i)) err s)"
  using assms inflight_resolve [of i s "UFailed err"
      "s\<lparr>s_job := resolveUpload (fst (s_up s ! i)) False (s_job s), s_failed := insert (fst (s_up s ! i)) (s_failed s)\<rparr>"
      "fst (s_up s ! i)"]
  by (auto simp: acctInv_def failUpload_def resolveUpload_def setUp_def queued_def)

lemma acct_putOk:
  assumes "acctInv s" "i < length (s_up s)" "unresolved (snd (s_up s ! i))"
  shows "acctInv (setUp i (fst (s_up s ! i), UAcked)
     (s\<lparr>s_job := resolveUpload (fst (s_up s ! i)) True (s_job s), s_master := m\<rparr>))"
  using assms inflight_resolve [of i s UAcked
      "s\<lparr>s_job := resolveUpload (fst (s_up s ! i)) True (s_job s), s_master := m\<rparr>"
      "fst (s_up s ! i)"]
  by (auto simp: acctInv_def resolveUpload_def setUp_def queued_def)

lemma acct_drop:
  assumes "acctInv s" "i < length (s_up s)" "\<not> unresolved (snd (s_up s ! i))"
  shows "acctInv (dropUp i s)"
  using assms filter_drop_other [of i "s_up s" "\<lambda>u. unresolved (snd u)"]
  by (auto simp: acctInv_def dropUp_def inflight_def)

text \<open>The job record read off the queue name by name.\<close>

lemma acct_deliver:
  assumes "acctInv s" "enqueue cap n (s_job s) = (j, over)"
  shows "acctInv (s\<lparr>s_job := j, s_watch := ns, s_overflow := over, s_panic := p,
      s_accepted := (if j_queue j \<noteq> j_queue (s_job s) then insert n (s_accepted s) else s_accepted s)\<rparr>)"
  using enqueue_result [OF assms(2)] assms(1)
  by (auto simp: acctInv_def queued_def inflight_def)

lemma acct_pop:
  assumes "acctInv s" "j_queue (s_job s) = Some (n # q)"
  shows "acctInv (s\<lparr>s_job := (s_job s)\<lparr>j_queue := Some q\<rparr>, s_up := s_up s @ [(n, UTaken)]\<rparr>)"
  using assms by (auto simp: acctInv_def queued_def inflight_def)

lemma acct_pushers:
  "acctInv s \<Longrightarrow> j_queue (s_job s) = None \<Longrightarrow> acctInv (s\<lparr>s_job := startPushers (s_job s)\<rparr>)"
  by (auto simp: acctInv_def queued_def inflight_def startPushers_def)

lemma acct_abort:
  "acctInv s \<Longrightarrow> acctInv (withJob (abortFail msg (s_job s)) s)"
  by (rule sameAcct_acct [of s]) (simp_all add: sameAcct_def)

lemma acct_pc: "acctInv (s\<lparr>s_pc := pc\<rparr>) = acctInv s" "acctInv (s\<lparr>s_disk := d\<rparr>) = acctInv s"
  "acctInv (applyEffect e s) = acctInv s"
  by (simp_all add: acctInv_def inflight_def)

lemma acct_failWith: "acctInv (failWith m s) = acctInv s"
  unfolding failWith_def acct_pc by (rule refl)

lemma acct_open:
  "acctInv s \<Longrightarrow> i < length (s_up s) \<Longrightarrow> snd (s_up s ! i) = UTaken \<Longrightarrow>
     acctInv (setUp i (fst (s_up s ! i), UOpened) s)"
  using inflight_open [of i s] by (auto simp: acctInv_def setUp_def)

lemma step_acct:
  assumes "acctInv s" "step cap par a s = Some t" "s_pc s = PcPushers \<longrightarrow> j_queue (s_job s) = None"
  shows "acctInv t"
proof (cases "touchesQueue a")
  case False
  with assms step_sameAcct sameAcct_acct show ?thesis by blast
next
  case True
  then show ?thesis
  proof (cases a)
    case (Pushers r)
    with assms show ?thesis
      by (auto simp: acct_pushers acct_failWith acct_pc split: if_splits option.splits)
  next
    case WatchDeliver
    with assms(2) obtain n ns where w: "s_watch s = n # ns" "\<not> s_overflow s"
      by (auto split: list.splits if_splits)
    obtain j over where e: "enqueue cap n (s_job s) = (j, over)" by (metis surj_pair)
    have "t = s\<lparr>s_job := j, s_watch := ns, s_overflow := over,
        s_panic := s_panic s \<or> j_queue j \<noteq> j_queue (s_job s) \<and> s_qClosed s,
        s_accepted := (if j_queue j \<noteq> j_queue (s_job s) then insert n (s_accepted s) else s_accepted s)\<rparr>"
      using assms(2) WatchDeliver w e by simp
    then show ?thesis using acct_deliver [OF assms(1) e] by simp
  next
    case Pop
    with assms show ?thesis by (auto simp: acct_pop split: if_splits list.splits option.splits)
  next
    case (OpenFile i e)
    with assms show ?thesis
      by (auto simp: Let_def acct_open acct_failUpload split: if_splits)
  next
    case (PutOk i)
    with assms show ?thesis by (auto simp: Let_def acct_putOk split: if_splits)
  next
    case (PutFail i e)
    with assms show ?thesis by (auto simp: acct_failUpload split: if_splits)
  next
    case (Cleanup i)
    with assms show ?thesis
      by (auto simp: acct_drop acct_abort acct_pc split: if_splits uphase.splits)
  qed simp_all
qed

section \<open>The queue and the drain\<close>

text \<open>The states of \<^verbatim>\<open>run\<close> before the queue exists.\<close>

fun earlyPc :: "runpc \<Rightarrow> bool" where
  "earlyPc PcStart = True"
| "earlyPc PcPreparing = True"
| "earlyPc PcPrepared = True"
| "earlyPc PcPushers = True"
| "earlyPc _ = False"

text \<open>Intake is over and everything accepted was resolved.\<close>

definition drained :: "job \<Rightarrow> bool" where
  "drained j \<longleftrightarrow> j_intakeClosed j \<and> j_pending j = 0"

fun drainPc :: "runpc \<Rightarrow> JobState \<Rightarrow> job \<Rightarrow> bool" where
  "drainPc (PcDraining c) st j = j_intakeClosed j"
| "drainPc (PcDecide c e) st j = (j_intakeClosed j \<and> (e = None \<longrightarrow> drained j))"
| "drainPc (PcFinal fin c) st j = (fin = JobCompleted \<longrightarrow> c = 0 \<and> drained j)"
| "drainPc (PcEffects es) st j = (st = JobCompleted \<longrightarrow> drained j)"
| "drainPc PcDone st j = (st = JobCompleted \<longrightarrow> drained j)"
| "drainPc _ st j = True"

definition queueInv :: "sys \<Rightarrow> bool" where
  "queueInv s \<longleftrightarrow> (earlyPc (s_pc s) \<longrightarrow> j_queue (s_job s) = None) \<and>
     (j_queueClosed (s_job s) \<longrightarrow> j_intakeClosed (s_job s)) \<and>
     (s_qClosed s \<longrightarrow> j_queueClosed (s_job s)) \<and>
     (CloseQueue \<in> set (dueEffects s) \<longrightarrow> j_queueClosed (s_job s) \<and> \<not> s_qClosed s) \<and>
     length (filter (\<lambda>e. e = CloseQueue) (dueEffects s)) \<le> 1 \<and>
     \<not> s_panic s"

text \<open>While intake is closed, a step can only resolve uploads.\<close>

lemma enqueue_closed: "j_intakeClosed j \<Longrightarrow> enqueue cap n j = (j, False)"
  by (simp add: enqueue_def)

lemma step_pending:
  assumes "step cap par a s = Some t" "j_intakeClosed (s_job s)"
  shows "j_pending (s_job t) \<le> j_pending (s_job s)"
  using assms
  by (cases a) (auto simp: enqueue_closed resolveUpload_def step_defs Let_def split: step_splits)

lemma acct_pending_nonneg: "acctInv s \<Longrightarrow> j_pending (s_job s) \<ge> 0"
  by (simp add: acctInv_def)

lemma step_drained:
  assumes "step cap par a s = Some t" "acctInv t" "drained (s_job s)"
  shows "drained (s_job t)"
  using step_pending [OF assms(1)] step_mono [OF assms(1)] acct_pending_nonneg [OF assms(2)] assms(3)
  by (simp add: drained_def jobMono_def)

lemma dueOf_early [simp]: "earlyPc pc \<Longrightarrow> dueOf pc = []"
  by (cases pc) simp_all

lemma enqueue_none: "j_queue j = None \<Longrightarrow> enqueue cap n j = (j', b) \<Longrightarrow> j_queue j' = None"
  using enqueue_result by fastforce

lemma step_earlyQueue:
  assumes "step cap par a s = Some t" "earlyPc (s_pc s) \<longrightarrow> j_queue (s_job s) = None" "earlyPc (s_pc t)"
  shows "j_queue (s_job t) = None"
  using assms
  by (cases a) (auto simp: enqueue_none resolveUpload_def step_defs Let_def split: step_splits)

lemma queueClosed_ops [simp]:
  "j_queueClosed (fst (setState st now j)) = j_queueClosed j"
  "j_queueClosed (fst (abortFail msg j)) = j_queueClosed j"
  "j_queueClosed (fst (requestCancel target j)) = j_queueClosed j"
  "j_queueClosed (subscribeEvents j) = j_queueClosed j" "j_queueClosed (unsubscribeEvents now j) = j_queueClosed j"
  "j_queueClosed (startPushers j) = j_queueClosed j" "j_queueClosed (drainBegin j) = j_queueClosed j"
  "j_queueClosed (resolveUpload n ok j) = j_queueClosed j"
  by (auto simp: job_ops Let_def)

text \<open>Only \<^verbatim>\<open>finalize\<close> closes the queue, and it closes intake first.\<close>

lemma enqueue_queueClosed: "enqueue cap n j = (j', b) \<Longrightarrow> j_queueClosed j' = j_queueClosed j"
  using enqueue_result by fastforce

lemma step_queueClosed:
  assumes "step cap par a s = Some t"
  shows "j_queueClosed (s_job t) = j_queueClosed (s_job s) \<or>
    (j_intakeClosed (s_job t) \<and> (\<exists>st c now. a = RunStep now \<and> s_pc s = PcFinal st c \<and>
        \<not> isTerminal (j_state (s_job s))))"
  using assms
  by (cases a) (auto simp: finalize_def enqueue_queueClosed step_defs Let_def split: step_splits)

end
