(* ===== verification/JobDrain.thy ===== *)
theory JobDrain
  imports JobAccount
begin

text \<open>
  What the drain at the end of a job gives (\<^verbatim>\<open>drainUploads\<close>, the decision at the end of
  \<^verbatim>\<open>run\<close>, \<^verbatim>\<open>finalize\<close>): the upload queue is never written or closed after it was closed,
  and a COMPLETED job has pushed what it accepted, up to the names whose failure the
  upload worker had not reported yet.
\<close>

section \<open>No panic\<close>

lemma finalize_closeQueue:
  "CloseQueue \<in> set (snd (finalize st c now j)) \<longleftrightarrow>
     \<not> isTerminal (j_state j) \<and> j_queue j \<noteq> None \<and> \<not> j_queueClosed j"
  "length (filter (\<lambda>e. e = CloseQueue) (snd (finalize st c now j))) \<le> 1"
  "j_queueClosed (fst (finalize st c now j)) = (j_queueClosed j \<or>
     (\<not> isTerminal (j_state j) \<and> j_queue j \<noteq> None))"
  by (auto simp: finalize_def Let_def)

lemma applyEffect_flags:
  "s_panic (applyEffect e s) = (s_panic s \<or> (e = CloseQueue \<and> s_qClosed s))"
  "s_qClosed (applyEffect e s) = (s_qClosed s \<or> e = CloseQueue)"
  by (cases e; simp)+

lemma setState_flags [simp]:
  "s_panic (withJob (setState st now j) s) = s_panic s"
  "s_qClosed (withJob (setState st now j) s) = s_qClosed s"
  by (cases "isTerminal (j_state j)"; simp add: withJob_setState applyEffect_flags del: applyEffect.simps)+

lemma step_flags_other:
  assumes "step cap par a s = Some t" "\<not> isRunStep a" "s_qClosed s \<longrightarrow> j_intakeClosed (s_job s)"
  shows "s_panic t = s_panic s \<and> s_qClosed t = s_qClosed s"
  using assms
  by (cases a) (auto simp: withJob_quiet enqueue_closed step_defs Let_def split: step_splits)

lemma step_flags_run:
  assumes "runStep now s = Some t"
  shows "(s_panic t = s_panic s \<and> s_qClosed t = s_qClosed s \<and>
       (dueEffects t = dueEffects s \<or>
         (\<exists>st c. s_pc s = PcFinal st c \<and> dueEffects t = snd (finalize st c now (s_job s)) \<and>
            s_job t = fst (finalize st c now (s_job s))))) \<or>
     (\<exists>e es. s_pc s = PcEffects (e # es) \<and> dueEffects t = es \<and> s_job t = s_job s \<and>
        s_panic t = (s_panic s \<or> (e = CloseQueue \<and> s_qClosed s)) \<and> s_qClosed t = (s_qClosed s \<or> e = CloseQueue))"
proof (cases "s_pc s")
  case (PcEffects es)
  with assms show ?thesis by (cases es) (auto simp: dueEffects_pc applyEffect_flags)
qed (use assms in \<open>auto simp: dueEffects_pc applyEffect_flags simp del: applyEffect.simps split: option.splits\<close>)

lemma queueInv_effect:
  assumes "queueInv s" "s_pc s = PcEffects (e # es)" "dueEffects t = es" "s_job t = s_job s"
    and "s_panic t = (s_panic s \<or> (e = CloseQueue \<and> s_qClosed s))" "s_qClosed t = (s_qClosed s \<or> e = CloseQueue)"
    and "earlyPc (s_pc t) \<longrightarrow> j_queue (s_job t) = None"
  shows "queueInv t"
proof -
  have due: "dueEffects s = e # es" using assms(2) by (simp add: dueEffects_pc)
  have "e = CloseQueue \<Longrightarrow> CloseQueue \<notin> set es"
    using assms(1) unfolding queueInv_def due by (auto simp: filter_empty_conv)
  then show ?thesis using assms(1,3-7) unfolding queueInv_def due by auto
qed

lemma queueInv_finalize:
  assumes "queueInv s" "s_pc s = PcFinal st c" "s_panic t = s_panic s" "s_qClosed t = s_qClosed s"
    and "dueEffects t = snd (finalize st c now (s_job s))" "s_job t = fst (finalize st c now (s_job s))"
    and "earlyPc (s_pc t) \<longrightarrow> j_queue (s_job t) = None"
    and "j_queueClosed (s_job t) \<longrightarrow> j_intakeClosed (s_job t)"
  shows "queueInv t"
  using assms finalize_closeQueue [of st c now "s_job s"] unfolding queueInv_def by auto

lemma step_queueInv:
  assumes "queueInv s" "step cap par a s = Some t"
  shows "queueInv t"
proof -
  have mono: "jobMono (s_job s) (s_job t)" by (rule step_mono [OF assms(2)])
  have early: "earlyPc (s_pc t) \<longrightarrow> j_queue (s_job t) = None"
    using step_earlyQueue [OF assms(2)] assms(1) by (simp add: queueInv_def)
  have closed: "j_queueClosed (s_job t) \<longrightarrow> j_intakeClosed (s_job t)"
    using step_queueClosed [OF assms(2)] mono assms(1) by (auto simp: queueInv_def jobMono_def)
  show ?thesis
  proof (cases "isRunStep a")
    case False
    with step_flags_other [OF assms(2)] step_due [OF assms(2)] assms(1)
    have "s_panic t = s_panic s \<and> s_qClosed t = s_qClosed s" "dueEffects t = dueEffects s"
      by (auto simp: queueInv_def)
    with early closed mono assms(1) show ?thesis by (auto simp: queueInv_def jobMono_def)
  next
    case True
    then obtain now where a: "a = RunStep now" by (rule isRunStep.elims)
    with assms(2) have "runStep now s = Some t" by simp
    from step_flags_run [OF this] consider
      (same) "s_panic t = s_panic s" "s_qClosed t = s_qClosed s" "dueEffects t = dueEffects s"
    | (fin) st c where "s_panic t = s_panic s" "s_qClosed t = s_qClosed s" "s_pc s = PcFinal st c"
        "dueEffects t = snd (finalize st c now (s_job s))" "s_job t = fst (finalize st c now (s_job s))"
    | (eff) e es where "s_pc s = PcEffects (e # es)" "dueEffects t = es" "s_job t = s_job s"
        "s_panic t = (s_panic s \<or> (e = CloseQueue \<and> s_qClosed s))" "s_qClosed t = (s_qClosed s \<or> e = CloseQueue)"
      by blast
    then show ?thesis
    proof cases
      case same
      with early closed mono assms(1) show ?thesis by (auto simp: queueInv_def jobMono_def)
    next
      case fin
      with queueInv_finalize [OF assms(1)] early closed show ?thesis by blast
    next
      case eff
      with queueInv_effect [OF assms(1)] early show ?thesis by blast
    qed
  qed
qed

section \<open>Completion\<close>

definition exitZero :: "sys \<Rightarrow> bool" where
  "exitZero s \<longleftrightarrow> (j_state (s_job s) = JobCompleted \<longrightarrow> emittedExits s = [Some 0])"

definition drainInv :: "sys \<Rightarrow> bool" where
  "drainInv s \<longleftrightarrow> lifeInv s \<and> acctInv s \<and> queueInv s \<and> uploadsAcked s \<and> exitZero s \<and>
     drainPc (s_pc s) (j_state (s_job s)) (s_job s)"

lemma drainPc_mono:
  assumes "drainPc pc st j" "drained j \<Longrightarrow> drained j'" "j_intakeClosed j \<Longrightarrow> j_intakeClosed j'"
  shows "drainPc pc st j'"
  using assms by (cases pc) auto

lemma drainInv_nonterminal:
  "drainPc pc st j \<Longrightarrow> st \<noteq> JobCompleted \<Longrightarrow> drainPc (PcEffects es) st j"
  by simp

lemma drainResult_none: "drainResult j = None \<Longrightarrow> \<not> j_failing j \<and> j_pending j \<le> 0"
  by (simp add: drainResult_def split: if_splits)

text \<open>The program counter after a step of another thread, or of \<^verbatim>\<open>run\<close> returning from a call.\<close>

lemma step_pc_other:
  assumes "step cap par a s = Some t" "\<not> isRunStep a"
  shows "s_pc t = s_pc s \<or> s_pc t \<in> {PcPrepared, PcFail, PcSpawn, PcSpawned} \<or> (\<exists>c. s_pc t = PcExited c) \<or>
    (\<exists>c. s_pc s = PcDraining c \<and> s_pc t = PcDecide c (drainResult (s_job s)) \<and> s_job t = s_job s)"
  using assms by (cases a) (auto simp: step_defs Let_def split: step_splits)

lemma drainPc_other:
  assumes "drainInv s" "step cap par a s = Some t" "\<not> isRunStep a" "acctInv t"
  shows "drainPc (s_pc t) (j_state (s_job t)) (s_job t)"
proof -
  have st: "j_state (s_job t) = j_state (s_job s)"
    using step_sameLife [OF assms(2,3)] by (simp add: sameLife_def)
  have mono: "drained (s_job s) \<Longrightarrow> drained (s_job t)" "j_intakeClosed (s_job s) \<Longrightarrow> j_intakeClosed (s_job t)"
    using step_drained [OF assms(2,4)] step_mono [OF assms(2)] by (simp_all add: jobMono_def)
  have pc: "drainPc (s_pc s) (j_state (s_job s)) (s_job s)" using assms(1) by (simp add: drainInv_def)
  from step_pc_other [OF assms(2,3)] consider (same) "s_pc t = s_pc s"
    | (plain) "s_pc t \<in> {PcPrepared, PcFail, PcSpawn, PcSpawned} \<or> (\<exists>c. s_pc t = PcExited c)"
    | (decide) c where "s_pc s = PcDraining c" "s_pc t = PcDecide c (drainResult (s_job s))" "s_job t = s_job s"
    by blast
  then show ?thesis
  proof cases
    case same
    then show ?thesis using drainPc_mono [OF pc mono] st by simp
  next
    case plain
    then show ?thesis by auto
  next
    case decide
    have "drainResult (s_job s) = None \<Longrightarrow> j_pending (s_job s) = 0"
      using drainResult_none [of "s_job s"] acct_pending_nonneg [OF assms(4)] decide by auto
    with decide pc show ?thesis by (auto simp: drained_def)
  qed
qed

lemma decideFinal_completed:
  "cancelOk j \<Longrightarrow> decideFinal j c e = JobCompleted \<Longrightarrow> c = 0 \<and> e = None"
  by (auto simp: decideFinal_def cancelOk_def split: option.splits if_splits)

lemma terminalFor_not_completed: "cancelOk j \<Longrightarrow> terminalFor True j \<noteq> JobCompleted"
  by (auto simp: terminalFor_def cancelOk_def)

lemma abortState_not_completed: "cancelOk j \<Longrightarrow> abortState j \<noteq> Some JobCompleted"
  by (auto simp: abortState_def cancelOk_def)

lemma finalize_drained: "drained j \<Longrightarrow> drained (fst (finalize st c now j))"
  by (simp add: drained_def) (simp add: finalize_def Let_def)

lemma drainPc_run:
  assumes "drainInv s" "runStep now s = Some t"
  shows "drainPc (s_pc t) (j_state (s_job t)) (s_job t)"
proof -
  have inv: "cancelOk (s_job s)" "drainPc (s_pc s) (j_state (s_job s)) (s_job s)"
    "pcState (s_pc s) (j_state (s_job s))"
    using assms(1) by (simp_all add: drainInv_def lifeInv_def)
  show ?thesis
  proof (cases "s_pc s")
    case (PcDecide c e)
    let ?s = "case e of None \<Rightarrow> s | Some m \<Rightarrow> applyEffect (Publish (EventStderr (''prt: upload drain: '' @ m))) s"
    have "t = ?s\<lparr>s_pc := PcFinal (decideFinal (s_job s) c e) c\<rparr>" using assms(2) PcDecide by simp
    moreover have "s_job ?s = s_job s" by (cases e) simp_all
    ultimately show ?thesis using inv PcDecide decideFinal_completed by auto
  next
    case (PcFinal st c)
    with assms(2) have t: "s_pc t = PcEffects (snd (finalize st c now (s_job s)))"
      "s_job t = fst (finalize st c now (s_job s))" by auto
    have "\<not> isTerminal (j_state (s_job s))" "isTerminal st" using inv PcFinal by auto
    with PcFinal t inv finalize_drained finalize_due(3) show ?thesis by auto
  next
    case PcPrepared
    with inv assms(2) abortState_not_completed show ?thesis by (auto split: option.splits)
  next
    case PcFail
    with inv assms(2) terminalFor_not_completed show ?thesis by auto
  next
    case (PcEffects es)
    with inv assms(2) show ?thesis by (cases es) auto
  qed (use assms inv in \<open>auto simp: drainBegin_def\<close>)
qed

lemma exits_effect:
  assumes "lifeInv s" "s_pc s = PcEffects (e # es)"
  shows "emittedExits (applyEffect e (s\<lparr>s_pc := PcEffects es\<rparr>)) = emittedExits s"
proof -
  have "s_hubClosed s \<longrightarrow> pubsOf (e # es) = []"
    using assms by (simp add: lifeInv_def lifeObs_def dueEffects_def)
  then show ?thesis
    using assms(2) exitsOf_append [of "[ev]" "pubsOf es" for ev]
    by (cases e; simp add: emittedExits_def dueEffects_pc)
qed

lemma exitZero_run:
  assumes "drainInv s" "runStep now s = Some t"
  shows "exitZero t"
proof -
  have inv: "lifeInv s" "exitZero s" "drainPc (s_pc s) (j_state (s_job s)) (s_job s)"
    "lifeInv t" using assms lifeInv_run by (auto simp: drainInv_def)
  show ?thesis
  proof (cases "isTerminal (j_state (s_job t))")
    case False
    then show ?thesis by (auto simp: exitZero_def)
  next
    case True
    then have "(\<exists>es. s_pc t = PcEffects es) \<or> s_pc t = PcDone"
      using inv(4) by (cases "s_pc t") (auto simp: lifeInv_def)
    with assms(2) consider st c where "s_pc s = PcFinal st c" | es where "s_pc s = PcEffects es"
      by (cases "s_pc s") (auto split: option.splits)
    then show ?thesis
    proof cases
      case (1 st c)
      with inv(1) have st: "\<not> isTerminal (j_state (s_job s))" "isTerminal st" "emittedExits s = []"
        by (auto simp: lifeInv_def lifeObs_def)
      with 1 have "exitsOf (s_pub s) = []" by (simp add: emittedExits_def)
      with 1 st assms(2) inv(3) finalize_due [OF st(1,2)] show ?thesis
        by (auto simp: exitZero_def emittedExits_def dueEffects_pc)
    next
      case (2 es)
      show ?thesis
      proof (cases es)
        case Nil
        with 2 assms(2) inv(2) show ?thesis by (auto simp: exitZero_def emittedExits_def dueEffects_pc)
      next
        case (Cons e es')
        with 2 assms(2) inv(2) exits_effect [OF inv(1)] show ?thesis by (auto simp: exitZero_def)
      qed
    qed
  qed
qed

lemma exitZero_other:
  assumes "exitZero s" "step cap par a s = Some t" "\<not> isRunStep a"
  shows "exitZero t"
  using assms(1) step_sameLife [OF assms(2,3)] step_due [OF assms(2,3)]
  by (simp add: exitZero_def sameLife_def emittedExits_def)

lemma step_drainInv:
  assumes "drainInv s" "step cap par a s = Some t"
  shows "drainInv t"
proof -
  have inv: "lifeInv s" "acctInv s" "queueInv s" "uploadsAcked s" "exitZero s"
    using assms(1) by (simp_all add: drainInv_def)
  have "acctInv t"
    using step_acct [OF inv(2) assms(2)] inv(3) by (auto simp: queueInv_def)
  moreover have "exitZero t \<and> drainPc (s_pc t) (j_state (s_job t)) (s_job t)"
  proof (cases "isRunStep a")
    case True
    then obtain now where "a = RunStep now" by (rule isRunStep.elims)
    with assms exitZero_run drainPc_run show ?thesis by simp
  next
    case False
    with assms exitZero_other [OF inv(5)] drainPc_other \<open>acctInv t\<close> show ?thesis by blast
  qed
  ultimately show ?thesis
    using step_lifeInv [OF inv(1) assms(2)] step_queueInv [OF inv(3) assms(2)]
      step_uploadsAcked [OF assms(2) inv(4)]
    by (simp add: drainInv_def)
qed

lemma drainInv_init: "drainInv (initSys jid jobdir)"
proof -
  have "uploadsAcked (initSys jid jobdir)" using gateInv_init by (simp add: gateInv_def)
  then show ?thesis
    using lifeInv_init [of jid jobdir]
    by (simp add: drainInv_def acctInv_def queueInv_def exitZero_def initSys_def newJob_def withJob_def
        queued_def inflight_def dueEffects_pc)
qed

interpretation drain: invariant_of "step cap par" "\<lambda>s. \<exists>jid jobdir. s = initSys jid jobdir" drainInv
  for cap par
proof
  show "\<exists>jid jobdir. s = initSys jid jobdir \<Longrightarrow> drainInv s" for s
    using drainInv_init by blast
  show "drainInv s \<Longrightarrow> step cap par a s = Some t \<Longrightarrow> drainInv t" for s a t
    by (rule step_drainInv)
qed

section \<open>Properties\<close>

text \<open>C22: No interleaving sends on or closes the closed upload queue (either would panic the
  daemon), and \<^verbatim>\<open>pending\<close>, on which the drain waits, is at all times the number of names
  queued or being pushed, so it never becomes negative.\<close>

theorem queue_safe:
  assumes "reachable (step cap par) (initSys jid jobdir) s"
  shows "\<not> s_panic s \<and> j_pending (s_job s) = int (length (queued (s_job s)) + length (inflight s)) \<and>
    (s_qClosed s \<longrightarrow> (\<forall>n. enqueue cap n (s_job s) = (s_job s, False)))"
proof -
  have "drainInv s" by (rule drain.inv_reachable [OF _ assms]) blast
  then show ?thesis by (simp add: drainInv_def queueInv_def acctInv_def enqueue_closed)
qed

lemma queue_safe_witness:
  "\<exists>s. run_actions (step 4 2) (startSchedule @ [Produce ''a'', Produce ''b'', WatchDeliver, WatchDeliver, Pop])
      (initSys ''j1'' ''d'') = Some s \<and> \<not> s_panic s \<and> j_pending (s_job s) = 2"
proof -
  let ?as = "startSchedule @ [Produce ''a'', Produce ''b'', WatchDeliver, WatchDeliver, Pop]"
  have "\<exists>s. run_actions (step 4 2) ?as (initSys ''j1'' ''d'') = Some s \<and>
      queued (s_job s) = [''b''] \<and> inflight s = [''a'']"
    by (simp add: run_defs startSchedule_def queued_def inflight_def)
  then obtain s where s: "run_actions (step 4 2) ?as (initSys ''j1'' ''d'') = Some s"
      "queued (s_job s) = [''b'']" "inflight s = [''a'']" by blast
  with queue_safe [OF run_actions_reachable [OF s(1)]] show ?thesis by auto
qed

lemma drainInv_completed:
  assumes inv: "drainInv s" and "j_state (s_job s) = JobCompleted"
  shows "emittedExits s = [Some 0] \<and> drained (s_job s) \<and> queued (s_job s) = [] \<and> inflight s = [] \<and>
    s_accepted s \<subseteq> s_master s \<union> s_failed s"
proof -
  from assms have "pcState (s_pc s) JobCompleted" "drainPc (s_pc s) JobCompleted (s_job s)" "exitZero s" "acctInv s"
    by (simp_all add: drainInv_def lifeInv_def)
  then have dr: "drained (s_job s)" "emittedExits s = [Some 0]"
    using assms(2) by (cases "s_pc s"; simp add: exitZero_def)+
  then have "length (queued (s_job s)) + length (inflight s) = 0"
    using \<open>acctInv s\<close> unfolding drained_def acctInv_def by linarith
  then have empty: "queued (s_job s) = []" "inflight s = []" by simp_all
  have "s_accepted s \<subseteq> j_acked (s_job s) \<union> s_failed s" "j_acked (s_job s) \<subseteq> s_master s"
    using inv empty by (simp_all add: drainInv_def acctInv_def uploadsAcked_def)
  with dr empty show ?thesis by blast
qed

text \<open>C3: A job that ends COMPLETED exited with code 0, its intake is closed with nothing queued or in
  flight, and every chunk the queue accepted was acknowledged by masterd, except those
  whose push had failed.\<close>

theorem completed_delivered:
  assumes "reachable (step cap par) (initSys jid jobdir) s" "j_state (s_job s) = JobCompleted"
  shows "emittedExits s = [Some 0] \<and> drained (s_job s) \<and> queued (s_job s) = [] \<and> inflight s = [] \<and>
    s_accepted s \<subseteq> s_master s \<union> s_failed s"
proof -
  have "drainInv s" by (rule drain.inv_reachable [OF _ assms(1)]) blast
  then show ?thesis using assms(2) by (rule drainInv_completed)
qed

text \<open>Runs of a job to its end, after the transcoder exited with code 0.\<close>

definition endSchedule :: "action list" where
  "endSchedule = [DrainCheck False, RunStep 4] @ replicate 7 (RunStep 5)"

lemma replicate_7: "replicate 7 x = [x, x, x, x, x, x, x]"
  by (simp add: eval_nat_numeral)

lemma completed_delivered_witness:
  "\<exists>s. run_actions (step 4 2) (startSchedule @ pushOne ''c1'' @ [ProcExit WaitOk, RunStep 2, RunStep 3] @ [DrainCheck False, RunStep 4, RunStep 5])
      (initSys ''j1'' ''d'') = Some s \<and> j_state (s_job s) = JobCompleted \<and> s_failed s = {} \<and> ''c1'' \<in> s_master s"
proof -
  let ?as = "startSchedule @ pushOne ''c1'' @ [ProcExit WaitOk, RunStep 2, RunStep 3] @ [DrainCheck False, RunStep 4, RunStep 5]"
  have "\<exists>s. run_actions (step 4 2) ?as (initSys ''j1'' ''d'') = Some s \<and>
      j_state (s_job s) = JobCompleted \<and> s_failed s = {} \<and> s_accepted s = {''c1''}"
    by (simp add: run_defs startSchedule_def pushOne_def)
  then obtain s where s: "run_actions (step 4 2) ?as (initSys ''j1'' ''d'') = Some s"
      "j_state (s_job s) = JobCompleted" "s_failed s = {}" "s_accepted s = {''c1''}" by blast
  with completed_delivered [OF run_actions_reachable [OF s(1)] s(2)] show ?thesis by blast
qed

text \<open>C36: The exception is real: \<^verbatim>\<open>uploadWorker\<close> counts a failed push as resolved before it calls
  \<^verbatim>\<open>abortFail\<close>, and a drain that looks in between lets the job end COMPLETED with exit code 0
  although masterd never got a chunk the job produced and queued.\<close>

theorem completed_with_lost_chunk:
  "\<exists>as s. run_actions (step 4 2) as (initSys jid jobdir) = Some s \<and> s_pc s = PcDone \<and>
     j_state (s_job s) = JobCompleted \<and> exitsOf (s_pub s) = [Some 0] \<and>
     ''c1'' \<in> s_accepted s \<and> ''c1'' \<notin> s_master s"
proof -
  let ?as = "startSchedule @ [Produce ''c1'', WatchDeliver, Pop, OpenFile 0 [], ProcExit WaitOk, RunStep 2, RunStep 3,
      PutFail 0 ''e''] @ endSchedule @ [Cleanup 0]"
  have "\<exists>s. run_actions (step 4 2) ?as (initSys jid jobdir) = Some s \<and> s_pc s = PcDone \<and>
     j_state (s_job s) = JobCompleted \<and> exitsOf (s_pub s) = [Some 0] \<and>
     ''c1'' \<in> s_accepted s \<and> ''c1'' \<notin> s_master s"
    by (simp add: run_defs startSchedule_def endSchedule_def replicate_7 abortFail_def failUpload_def)
  then show ?thesis by blast
qed


end
