(* ===== verification/JobCancel.thy ===== *)
theory JobCancel
  imports JobDrain
begin

text \<open>
  What a cancel does (\<^verbatim>\<open>requestCancel\<close>, \<^verbatim>\<open>abortState\<close>, \<^verbatim>\<open>terminalFor\<close>, \<^verbatim>\<open>finalize\<close> in
  \<^verbatim>\<open>internal/workerd/job.go\<close>): the target of the first cancel decides the terminal state of a job
  that had none chosen, and the directory of a job that ends so is gone when \<^verbatim>\<open>run\<close> returns.
\<close>

section \<open>What a cancel fixes\<close>

definition doomed :: "JobState \<Rightarrow> sys \<Rightarrow> bool" where
  "doomed target s \<longleftrightarrow> j_cancelState (s_job s) = Some target \<and>
     (\<forall>st c. s_pc s = PcFinal st c \<longrightarrow> st = target) \<and>
     (isTerminal (j_state (s_job s)) \<longrightarrow> j_state (s_job s) = target)"

text \<open>Before \<^verbatim>\<open>run\<close> has chosen the terminal state.\<close>

definition undecided :: "sys \<Rightarrow> bool" where
  "undecided s \<longleftrightarrow> \<not> isTerminal (j_state (s_job s)) \<and> (\<forall>st c. s_pc s \<noteq> PcFinal st c)"

lemma decided_by_cancel:
  assumes "j_cancelState j = Some target"
  shows "abortState j = Some target" "terminalFor b j = target" "decideFinal j c e = target"
  using assms by (simp_all add: abortState_def terminalFor_def decideFinal_def)

lemma step_pcFinal:
  assumes "step cap par a s = Some t" "s_pc t = PcFinal st c" "j_cancelState (s_job s) = Some target"
  shows "s_pc s = PcFinal st c \<or> st = target"
  using assms
  by (cases a) (auto simp: decided_by_cancel step_defs Let_def split: step_splits)

lemma step_state:
  assumes "step cap par a s = Some t"
  shows "j_state (s_job t) = j_state (s_job s) \<or> \<not> isTerminal (j_state (s_job t)) \<or>
    (\<exists>c. s_pc s = PcFinal (j_state (s_job t)) c)"
proof (cases "isRunStep a")
  case False
  then show ?thesis using step_sameLife [OF assms] by (simp add: sameLife_def)
next
  case True
  then show ?thesis using assms
    by (cases a) (auto simp: setState_def finalize_def Let_def split: step_splits)
qed

lemma step_doomed:
  assumes "doomed target s" "step cap par a s = Some t"
  shows "doomed target t"
proof -
  have "j_cancelState (s_job t) = Some target"
    using assms(1) step_mono [OF assms(2)] by (auto simp: doomed_def jobMono_def)
  moreover have "st = target" if "s_pc t = PcFinal st c" for st c
    using step_pcFinal [OF assms(2) that] assms(1) by (auto simp: doomed_def)
  moreover have "j_state (s_job t) = target" if "isTerminal (j_state (s_job t))"
    using step_state [OF assms(2)] that assms(1) by (auto simp: doomed_def)
  ultimately show ?thesis by (simp add: doomed_def)
qed

section \<open>The directory of a cancelled job\<close>

fun processPc :: "runpc \<Rightarrow> bool" where
  "processPc PcSpawned = True"
| "processPc PcWait = True"
| "processPc _ = False"

definition removed :: "JobState \<Rightarrow> bool" where
  "removed st \<longleftrightarrow> st = JobCancelled \<or> st = JobLost"

definition dirInv :: "sys \<Rightarrow> bool" where
  "dirInv s \<longleftrightarrow> (j_started (s_job s) \<longrightarrow> j_exited (s_job s) \<or> processPc (s_pc s)) \<and>
     (removed (j_state (s_job s)) \<longrightarrow> (\<forall>es. s_pc s = PcEffects es \<longrightarrow> RemoveDir \<in> set es \<or> s_disk s = {}) \<and>
        (s_pc s = PcDone \<longrightarrow> s_disk s = {}))"

lemma proc_ops [simp]:
  "j_started (fst (setState st now j)) = j_started j" "j_started (fst (finalize st c now j)) = j_started j"
  "j_started (fst (abortFail msg j)) = j_started j" "j_started (fst (requestCancel target j)) = j_started j"
  "j_started (subscribeEvents j) = j_started j" "j_started (unsubscribeEvents now j) = j_started j"
  "j_started (startPushers j) = j_started j" "j_started (drainBegin j) = j_started j"
  "j_started (resolveUpload n ok j) = j_started j"
  "j_exited (fst (setState st now j)) = j_exited j" "j_exited (fst (finalize st c now j)) = j_exited j"
  "j_exited (fst (abortFail msg j)) = j_exited j" "j_exited (fst (requestCancel target j)) = j_exited j"
  "j_exited (subscribeEvents j) = j_exited j" "j_exited (unsubscribeEvents now j) = j_exited j"
  "j_exited (startPushers j) = j_exited j" "j_exited (drainBegin j) = j_exited j"
  "j_exited (resolveUpload n ok j) = j_exited j"
  by (auto simp: job_ops Let_def)

lemma enqueue_proc:
  "enqueue cap n j = (j', b) \<Longrightarrow> j_started j' = j_started j \<and> j_exited j' = j_exited j \<and> j_state j' = j_state j"
  by (auto simp: enqueue_def split: if_splits option.splits)

lemma step_process:
  assumes "step cap par a s = Some t" "j_started (s_job s) \<longrightarrow> j_exited (s_job s) \<or> processPc (s_pc s)"
  shows "j_started (s_job t) \<longrightarrow> j_exited (s_job t) \<or> processPc (s_pc t)"
  using assms
  by (cases a) (auto dest: enqueue_proc simp: step_defs Let_def split: step_splits)

text \<open>Only a transcoder that runs adds to the directory.\<close>

lemma step_disk:
  assumes "step cap par a s = Some t" "j_started (s_job s) \<longrightarrow> j_exited (s_job s)"
  shows "s_disk t \<subseteq> s_disk s"
  using assms
  by (cases a) (auto simp: withJob_disk applyEffect_disk step_defs Let_def split: step_splits)

lemma finalize_removed:
  "\<not> isTerminal (j_state j) \<Longrightarrow> removed st \<Longrightarrow> RemoveDir \<in> set (snd (finalize st c now j))"
  by (auto simp: finalize_def removed_def Let_def)

lemma removed_terminal: "removed st \<Longrightarrow> isTerminal st"
  by (auto simp: removed_def)

lemma step_pcEnd:
  assumes "step cap par a s = Some t" "s_pc t = PcDone \<or> (\<exists>es. s_pc t = PcEffects es)"
  shows "s_pc t = s_pc s \<or> (\<exists>st c now. s_pc s = PcFinal st c \<and> s_job t = fst (finalize st c now (s_job s)) \<and>
      s_pc t = PcEffects (snd (finalize st c now (s_job s)))) \<or>
    (s_pc s = PcEffects [] \<and> t = s\<lparr>s_pc := PcDone\<rparr>) \<or>
    (\<exists>e es. s_pc s = PcEffects (e # es) \<and> t = applyEffect e (s\<lparr>s_pc := PcEffects es\<rparr>))"
proof (cases "isRunStep a")
  case False
  then show ?thesis using step_pc_other [OF assms(1) False] assms(2) by auto
next
  case True
  then obtain now where "runStep now s = Some t" using assms(1) by (cases a) auto
  then show ?thesis
  proof (cases "s_pc s")
    case (PcEffects es)
    with \<open>runStep now s = Some t\<close> show ?thesis by (cases es) auto
  next
    case (PcFinal st c)
    with \<open>runStep now s = Some t\<close> show ?thesis by auto
  qed (use assms(2) in \<open>auto split: option.splits\<close>)
qed

lemma step_dirInv:
  assumes "dirInv s" "lifeInv s" "step cap par a s = Some t"
  shows "dirInv t"
proof -
  have life: "lifeInv t" by (rule step_lifeInv [OF assms(2,3)])
  have proc: "j_started (s_job t) \<longrightarrow> j_exited (s_job t) \<or> processPc (s_pc t)"
    using step_process [OF assms(3)] assms(1) by (simp add: dirInv_def)
  have "(\<forall>es. s_pc t = PcEffects es \<longrightarrow> RemoveDir \<in> set es \<or> s_disk t = {}) \<and> (s_pc t = PcDone \<longrightarrow> s_disk t = {})"
    if rem: "removed (j_state (s_job t))"
  proof (cases "s_pc t = PcDone \<or> (\<exists>es. s_pc t = PcEffects es)")
    case True
    from step_pcEnd [OF assms(3) True] consider (same) "s_pc t = s_pc s"
      | (fin) st c now where "s_pc s = PcFinal st c" "s_job t = fst (finalize st c now (s_job s))"
          "s_pc t = PcEffects (snd (finalize st c now (s_job s)))"
      | (last) "s_pc s = PcEffects []" "t = s\<lparr>s_pc := PcDone\<rparr>"
      | (eff) e es where "s_pc s = PcEffects (e # es)" "t = applyEffect e (s\<lparr>s_pc := PcEffects es\<rparr>)" by blast
    then show ?thesis
    proof cases
      case same
      have pc: "\<not> processPc (s_pc s)" using True same by auto
      have "isTerminal (j_state (s_job s))" using True same assms(2) by (auto simp: lifeInv_def)
      then have "j_state (s_job t) = j_state (s_job s)" using step_mono [OF assms(3)] by (simp add: jobMono_def)
      moreover have "s_disk t \<subseteq> s_disk s"
        using step_disk [OF assms(3)] assms(1) pc by (simp add: dirInv_def)
      ultimately show ?thesis using assms(1) rem same by (auto simp: dirInv_def)
    next
      case fin
      then have "\<not> isTerminal (j_state (s_job s))" "isTerminal st" using assms(2) by (auto simp: lifeInv_def)
      then have "j_state (s_job t) = st" using fin(2) by (simp add: finalize_due(3))
      then show ?thesis using finalize_removed rem fin(3) \<open>\<not> isTerminal (j_state (s_job s))\<close> by auto
    next
      case last
      then show ?thesis using assms(1) rem by (simp add: dirInv_def)
    next
      case eff
      then show ?thesis using assms(1) rem by (auto simp: dirInv_def applyEffect_disk)
    qed
  qed auto
  with proc show ?thesis by (simp add: dirInv_def)
qed

lemma dirInv_init: "dirInv (initSys jid jobdir)"
  by (simp add: dirInv_def removed_def initSys_def newJob_def withJob_def)

interpretation directory: invariant_of "step cap par" "\<lambda>s. \<exists>jid jobdir. s = initSys jid jobdir" "\<lambda>s. lifeInv s \<and> dirInv s"
  for cap par
proof
  show "\<exists>jid jobdir. s = initSys jid jobdir \<Longrightarrow> lifeInv s \<and> dirInv s" for s
    using lifeInv_init dirInv_init by blast
  show "lifeInv s \<and> dirInv s \<Longrightarrow> step cap par a s = Some t \<Longrightarrow> lifeInv t \<and> dirInv t" for s a t
    using step_lifeInv step_dirInv by blast
qed

interpretation cancelled: invariant_of "step cap par" "doomed target" "doomed target"
  for cap par target
  by unfold_locales (auto intro: step_doomed)

section \<open>Properties\<close>

text \<open>A cancel of an undecided job, as \<^verbatim>\<open>DELETE\<close> makes it and as the lifeline monitor does.\<close>

lemma requestCancel_dooms:
  assumes "undecided s" "j_cancelState (s_job s) = None"
  shows "doomed target (withJob (requestCancel target (s_job s)) s)"
    "s_procCancelled (withJob (requestCancel target (s_job s)) s)"
  using assms
  by (auto simp: doomed_def undecided_def requestCancel_def killProcess_def withJob_def Let_def)

definition cancels :: "JobState \<Rightarrow> action list \<Rightarrow> sys \<Rightarrow> bool" where
  "cancels target as s \<longleftrightarrow> (target = JobCancelled \<and> as = [CancelJob]) \<or>
     (target = JobLost \<and> (\<exists>now. as = [LifelineTick now, LifelineCancel] \<and> j_state (s_job s) = JobRunning \<and>
        j_clients (s_job s) = 0 \<and> PeerTimeout \<le> now - j_clientGone (s_job s)))"

lemma cancels_run:
  assumes "cancels target as s" "undecided s" "j_cancelState (s_job s) = None"
  shows "\<exists>u. run_actions (step cap par) as s = Some u \<and> doomed target u \<and> s_procCancelled u"
  using assms(1) unfolding cancels_def
proof (elim disjE conjE exE)
  assume "target = JobCancelled" "as = [CancelJob]"
  then show ?thesis using requestCancel_dooms [OF assms(2,3), of JobCancelled] by simp
next
  fix now
  assume a: "target = JobLost" "as = [LifelineTick now, LifelineCancel]" "j_state (s_job s) = JobRunning"
    "j_clients (s_job s) = 0" "PeerTimeout \<le> now - j_clientGone (s_job s)"
  then have tick: "monitorTick now (s_job s) = LifelineLost" using assms(3) by (simp add: monitorTick_def)
  have "undecided (s\<lparr>s_lost := False\<rparr>)" using assms(2) by (simp add: undecided_def)
  then show ?thesis using requestCancel_dooms [of "s\<lparr>s_lost := False\<rparr>" JobLost] tick a(1,2) assms(3) by simp
qed

lemma doomed_run:
  assumes "lifeInv t" "dirInv t" "doomed target t" "removed target"
  shows "\<exists>bs v. length bs \<le> 30 \<and> run_actions (step cap par) bs t = Some v \<and> s_pc v = PcDone \<and>
    j_state (s_job v) = target \<and> s_disk v = {}"
proof -
  obtain bs v where v: "length bs \<le> runRank (s_pc t)" "run_actions (step cap par) bs t = Some v" "s_pc v = PcDone"
    using run_finishes by blast
  note reach = run_actions_reachable [OF v(2)]
  have "lifeInv v \<and> dirInv v" using directory.inv_reachable_from [OF reach] assms(1,2) by blast
  moreover have "doomed target v" by (rule cancelled.inv_reachable_from [OF reach assms(3)])
  ultimately have "j_state (s_job v) = target" "s_disk v = {}"
    using v(3) assms(4) by (auto simp: lifeInv_def doomed_def dirInv_def)
  moreover have "length bs \<le> 30" using v(1) runRank_le [OF assms(1)] by (rule le_trans)
  ultimately show ?thesis using v(2,3) by blast
qed

text \<open>C20: A cancel takes effect.  Whenever a job is cancelled before \<^verbatim>\<open>run\<close> chose its terminal state, by a
  \<^verbatim>\<open>DELETE\<close> or by the lifeline monitor because a running job has had no events client for the peer
  timeout, the transcoder is told to stop at once; whatever the other threads do then, the job cannot
  end in any state but CANCELLED or LOST respectively, and \<^verbatim>\<open>run\<close> needs at most thirty more moves of its own
  (its blocking calls returning) to get there, with the job directory empty.\<close>

theorem cancel_takes_effect:
  assumes "reachable (step cap par) (initSys jid jobdir) s"
    and "undecided s" "j_cancelState (s_job s) = None" "cancels target as s"
  shows "\<exists>u. run_actions (step cap par) as s = Some u \<and> s_procCancelled u \<and>
    (\<forall>t. reachable (step cap par) u t \<longrightarrow> (isTerminal (j_state (s_job t)) \<longrightarrow> j_state (s_job t) = target) \<and>
      (\<exists>bs v. length bs \<le> 30 \<and> run_actions (step cap par) bs t = Some v \<and> s_pc v = PcDone \<and>
        j_state (s_job v) = target \<and> s_disk v = {}))"
proof -
  obtain u where u: "run_actions (step cap par) as s = Some u" "doomed target u" "s_procCancelled u"
    using cancels_run [OF assms(4,2,3)] by blast
  have rem: "removed target" using assms(4) by (auto simp: cancels_def removed_def)
  have inv: "lifeInv t \<and> dirInv t" "doomed target t" if "reachable (step cap par) u t" for t
    using directory.inv_reachable [OF _ reachable_trans [OF that reachable_trans [OF run_actions_reachable [OF u(1)] assms(1)]]]
      cancelled.inv_reachable_from [OF that u(2)] by blast+
  have "isTerminal (j_state (s_job t)) \<longrightarrow> j_state (s_job t) = target" if "reachable (step cap par) u t" for t
    using inv(2) [OF that] by (simp add: doomed_def)
  with u(1,3) inv doomed_run [OF _ _ _ rem] show ?thesis by blast
qed

lemma cancel_takes_effect_witness:
  "\<exists>s u. run_actions (step 4 2) (startSchedule @ [Produce ''c'', WatchDeliver, ClientJoin, ClientLeave 5])
       (initSys ''j1'' ''d'') = Some s \<and> s_disk s = {''c''} \<and>
     run_actions (step 4 2) [LifelineTick (5 + PeerTimeout), LifelineCancel] s = Some u \<and> s_procCancelled u \<and>
     (\<exists>bs v. length bs \<le> 30 \<and> run_actions (step 4 2) bs u = Some v \<and> j_state (s_job v) = JobLost \<and> s_disk v = {})"
proof -
  let ?as = "startSchedule @ [Produce ''c'', WatchDeliver, ClientJoin, ClientLeave 5]"
  have "\<exists>s. run_actions (step 4 2) ?as (initSys ''j1'' ''d'') = Some s \<and> s_disk s = {''c''} \<and> s_pc s = PcWait \<and>
      j_state (s_job s) = JobRunning \<and> j_cancelState (s_job s) = None \<and> j_clients (s_job s) = 0 \<and> j_clientGone (s_job s) = 5"
    by (simp add: run_defs startSchedule_def subscribeEvents_def unsubscribeEvents_def)
  then obtain s where s: "run_actions (step 4 2) ?as (initSys ''j1'' ''d'') = Some s" "s_disk s = {''c''}" "s_pc s = PcWait"
      "j_state (s_job s) = JobRunning" "j_cancelState (s_job s) = None" "j_clients (s_job s) = 0" "j_clientGone (s_job s) = 5"
    by blast
  then have "undecided s" "cancels JobLost [LifelineTick (5 + PeerTimeout), LifelineCancel] s"
    by (simp_all add: undecided_def cancels_def)
  from cancel_takes_effect [OF run_actions_reachable [OF s(1)] this(1) s(5) this(2)] s(1,2) show ?thesis
    by (meson reach_init)
qed

end
