(* ===== verification/JobWake.thy ===== *)
theory JobWake
  imports JobDrain
begin

text \<open>
  The condition variable of a job (\<^verbatim>\<open>j.cond\<close> in \<^verbatim>\<open>internal/workerd/job.go\<close> and \<^verbatim>\<open>pusher.go\<close>): which
  critical sections broadcast, and that those who wait (\<^verbatim>\<open>gateWait\<close>, \<^verbatim>\<open>drainUploads\<close>) miss no change
  of what they wait for, but for files that the transcoder deletes.
\<close>

section \<open>Broadcasts\<close>

text \<open>Whether the critical section of an action calls \<^verbatim>\<open>j.cond.Broadcast\<close>.\<close>

fun broadcasts :: "action \<Rightarrow> sys \<Rightarrow> bool" where
  "broadcasts (RunStep now) s =
     (case s_pc s of
        PcStart \<Rightarrow> \<not> isTerminal (j_state (s_job s))
      | PcSpawned \<Rightarrow> \<not> isTerminal (j_state (s_job s))
      | PcExited c \<Rightarrow> \<not> isTerminal (j_state (s_job s))
      | PcFinal st c \<Rightarrow> \<not> isTerminal (j_state (s_job s))
      | _ \<Rightarrow> False)"
| "broadcasts (OpenFile i err) s = (fst (s_up s ! i) \<notin> s_disk s)"
| "broadcasts (PutOk i) s = True"
| "broadcasts (PutFail i err) s = True"
| "broadcasts (Cleanup i) s =
     ((\<exists>err. snd (s_up s ! i) = UFailed err) \<and> \<not> j_failing (s_job s) \<and> \<not> isTerminal (j_state (s_job s)))"
| "broadcasts WatchOverflowAbort s = (\<not> j_failing (s_job s) \<and> \<not> isTerminal (j_state (s_job s)))"
| "broadcasts (WatchError m) s = (\<not> j_failing (s_job s) \<and> \<not> isTerminal (j_state (s_job s)))"
| "broadcasts CancelJob s = (j_cancelState (s_job s) = None \<and> \<not> isTerminal (j_state (s_job s)))"
| "broadcasts LifelineCancel s = (j_cancelState (s_job s) = None \<and> \<not> isTerminal (j_state (s_job s)))"
| "broadcasts _ s = False"

text \<open>What the two kinds of waiters look at changes in no other section.\<close>

lemma quiet_job_ops:
  "isTerminal (j_state j) \<Longrightarrow> fst (setState st now j) = j"
  "isTerminal (j_state j) \<Longrightarrow> fst (finalize st c now j) = j"
  "j_failing j \<or> isTerminal (j_state j) \<Longrightarrow> abortFail m j = (j, [])"
  "j_cancelState j \<noteq> None \<or> isTerminal (j_state j) \<Longrightarrow> requestCancel target j = (j, [])"
  by (auto simp: job_ops)

lemma waiters_ops [simp]:
  "gateBroken (subscribeEvents j) = gateBroken j" "gateBroken (unsubscribeEvents now j) = gateBroken j"
  "gateBroken (startPushers j) = gateBroken j" "gateBroken (drainBegin j) = gateBroken j"
  "j_failing (subscribeEvents j) = j_failing j" "j_failing (unsubscribeEvents now j) = j_failing j"
  "j_failing (startPushers j) = j_failing j" "j_failing (drainBegin j) = j_failing j"
  by (auto simp: job_ops gateBroken_def Let_def)

lemma enqueue_waiters:
  "enqueue cap n j = (j', b) \<Longrightarrow>
     gateBroken j' = gateBroken j \<and> j_failing j' = j_failing j \<and> j_acked j' = j_acked j \<and> j_pending j \<le> j_pending j'"
  by (auto simp: enqueue_def gateBroken_def split: if_splits option.splits)

lemma gateBroken_fields [simp]:
  "gateBroken (j\<lparr>j_started := b\<rparr>) = gateBroken j" "gateBroken (j\<lparr>j_exited := b\<rparr>) = gateBroken j"
  "gateBroken (j\<lparr>j_queue := q\<rparr>) = gateBroken j"
  by (simp_all add: gateBroken_def)

definition sameWait :: "job \<Rightarrow> job \<Rightarrow> bool" where
  "sameWait j j' \<longleftrightarrow> j_acked j' = j_acked j \<and> gateBroken j' = gateBroken j \<and> j_failing j' = j_failing j \<and>
     j_pending j \<le> j_pending j'"

lemma sameWait_ops [simp]:
  "sameWait j j" "sameWait j (subscribeEvents j)" "sameWait j (unsubscribeEvents now j)"
  "sameWait j (startPushers j)" "sameWait j (drainBegin j)"
  "sameWait j (j\<lparr>j_started := b\<rparr>)" "sameWait j (j\<lparr>j_exited := b\<rparr>)" "sameWait j (j\<lparr>j_queue := q\<rparr>)"
  by (simp_all add: sameWait_def)

lemma sameWait_enqueue: "enqueue cap n j = (j', b) \<Longrightarrow> sameWait j j'"
  using enqueue_waiters by (simp add: sameWait_def)

lemma quiet_run: "runStep now s = Some t \<Longrightarrow> \<not> broadcasts (RunStep now) s \<Longrightarrow> sameWait (s_job s) (s_job t)"
  by (cases "s_pc s") (auto simp: quiet_job_ops split: option.splits list.splits)

lemma quiet_step:
  assumes "step cap par a s = Some t" "\<not> broadcasts a s"
  shows "sameWait (s_job s) (s_job t)"
proof (cases "isRunStep a")
  case True
  then show ?thesis using assms quiet_run by (cases a) auto
next
  case False
  then show ?thesis using assms
    by (cases a) (auto dest: sameWait_enqueue simp: quiet_job_ops step_defs Let_def split: step_splits)
qed

lemma gateCheck_block:
  "gateCheck ctxDone onDisk j n = GateBlock \<longleftrightarrow> n \<notin> j_acked j \<and> \<not> gateBroken j \<and> \<not> ctxDone \<and> onDisk"
  by (simp add: gateCheck_def)

section \<open>Properties\<close>

text \<open>C21: No lost wakeup.  A gate that waits for a chunk and the drain that waits for the uploads look at
  their condition again only when somebody broadcasts; a step that does not broadcast leaves both
  conditions as they are, in every interleaving, so nobody sleeps on a condition that is over.  The
  one exception is a chunk that the transcoder itself deletes: nobody tells the gate that waits for it.\<close>

theorem no_lost_wakeup:
  assumes "reachable (step cap par) (initSys jid jobdir) s"
    and "step cap par a s = Some t" "\<not> broadcasts a s"
  shows "(gateCheck False (n \<in> s_disk s) (s_job s) n = GateBlock \<and> a \<noteq> Unlink n \<longrightarrow>
      gateCheck False (n \<in> s_disk t) (s_job t) n = GateBlock) \<and>
    (drainWaits False (s_job s) \<longrightarrow> drainWaits False (s_job t))"
proof -
  have inv: "gateInv s" by (rule gates.inv_reachable [OF _ assms(1)]) blast
  have same: "sameWait (s_job s) (s_job t)" by (rule quiet_step [OF assms(2,3)])
  then have drain: "drainWaits False (s_job s) \<longrightarrow> drainWaits False (s_job t)"
    by (auto simp: drainWaits_def sameWait_def)
  have "n \<in> s_disk t" if "n \<in> s_disk s" "n \<notin> j_acked (s_job s)" "\<not> gateBroken (s_job s)" "a \<noteq> Unlink n"
    using step_removes_file [OF assms(2) that(1) _ _ that(4)] inv that(2,3) same
    by (auto simp: gateInv_def uploadsAcked_def sameWait_def)
  with same drain show ?thesis by (auto simp: gateCheck_block sameWait_def)
qed

lemma held_announce:
  "\<exists>s. run_actions (step 4 2) (startSchedule @ [Produce ''c'', WatchDeliver, Announce [''c'']]) (initSys ''j1'' ''d'') = Some s \<and>
     s_disk s = {''c''} \<and> \<not> gateBroken (s_job s) \<and> j_acked (s_job s) = {} \<and> j_pending (s_job s) = 1 \<and> \<not> j_failing (s_job s)"
  by (simp add: run_defs startSchedule_def)

lemma no_lost_wakeup_witness:
  "\<exists>s t. run_actions (step 4 2) (startSchedule @ [Produce ''c'', WatchDeliver, Announce [''c'']]) (initSys ''j1'' ''d'') = Some s \<and>
     step 4 2 ClientJoin s = Some t \<and> gateCheck False (''c'' \<in> s_disk t) (s_job t) ''c'' = GateBlock \<and> drainWaits False (s_job t)"
proof -
  obtain s where s: "run_actions (step 4 2) (startSchedule @ [Produce ''c'', WatchDeliver, Announce [''c'']]) (initSys ''j1'' ''d'') = Some s"
     "s_disk s = {''c''}" "\<not> gateBroken (s_job s)" "j_acked (s_job s) = {}" "j_pending (s_job s) = 1" "\<not> j_failing (s_job s)"
    using held_announce by blast
  then have "gateCheck False (''c'' \<in> s_disk s) (s_job s) ''c'' = GateBlock" "drainWaits False (s_job s)"
    by (simp_all add: gateCheck_block drainWaits_def)
  moreover obtain t where t: "step 4 2 ClientJoin s = Some t" by simp
  moreover have "\<not> broadcasts ClientJoin s" "ClientJoin \<noteq> Unlink n" for n by simp_all
  ultimately show ?thesis
    using no_lost_wakeup [OF run_actions_reachable [OF s(1)] t, of "''c''"] s(1) by blast
qed

text \<open>
  A chunk that the transcoder deletes while its upload is in flight no longer holds the announce:
  the gate asks for the file, not for the upload.
\<close>

lemma in_flight_chunk_announced:
  "\<exists>s. run_actions (step 4 2) (startSchedule @ [Produce ''c'', WatchDeliver, Pop, OpenFile 0 [], Announce [''c''],
      Unlink ''c'', GateStep 0 False, GateStep 0 False]) (initSys ''j1'' ''d'') = Some s \<and>
     map g_status (s_gates s) = [GForwarded] \<and> inflight s = [''c''] \<and> s_master s = {}"
  by (simp add: run_defs startSchedule_def inflight_def forget_def)

text \<open>And no broadcast tells that gate that its file is gone.\<close>

lemma deleted_chunk_not_woken:
  "\<exists>s t. run_actions (step 4 2) (startSchedule @ [Create ''c'', Announce [''c'']]) (initSys ''j1'' ''d'') = Some s \<and>
     gateCheck False (''c'' \<in> s_disk s) (s_job s) ''c'' = GateBlock \<and> step 4 2 (Unlink ''c'') s = Some t \<and>
     \<not> broadcasts (Unlink ''c'') s \<and> gateCheck False (''c'' \<in> s_disk t) (s_job t) ''c'' = GateNext"
  by (simp add: run_defs startSchedule_def)

end
