(* ===== verification/JobContract.thy ===== *)
theory JobContract
  imports JobDrain
begin

text \<open>
  The contract of a job (\<^verbatim>\<open>internal/workerd/job.go\<close>, \<^verbatim>\<open>pusher.go\<close>) as masterd, the shim and the media
  server see it, as a small transition system of its own, and the proof that the threads of
  \<^verbatim>\<open>JobSystem\<close> refine it: every step is a step of the contract or invisible.
\<close>

section \<open>The contract\<close>

record contract =
  c_state :: JobState
  c_history :: "JobState list"
  c_exits :: "int option list"
  c_accepted :: "string set"
  c_delivered :: "string set"
  c_lost :: "string set"
  c_released :: "string set"  \<comment> \<open>chunks that forwarded announces name\<close>

definition freshContract :: contract where
  "freshContract = \<lparr>c_state = JobPending, c_history = [JobPending], c_exits = [], c_accepted = {},
     c_delivered = {}, c_lost = {}, c_released = {}\<rparr>"

inductive follows :: "JobState \<Rightarrow> JobState \<Rightarrow> bool" where
  "follows JobPending JobPreparing"
| "follows JobPreparing JobRunning"
| "follows JobRunning JobDraining"
| "isTerminal st \<Longrightarrow> st \<noteq> JobCompleted \<Longrightarrow> follows JobPreparing st"
| "isTerminal st \<Longrightarrow> follows JobDraining st"

inductive contractStep :: "contract \<Rightarrow> contract \<Rightarrow> bool" where
  Advance: "follows (c_state c) st \<Longrightarrow> \<not> isTerminal st \<Longrightarrow>
    contractStep c (c\<lparr>c_state := st, c_history := c_history c @ [st]\<rparr>)"
| Finish: "follows (c_state c) st \<Longrightarrow> isTerminal st \<Longrightarrow>
    st = JobCompleted \<longrightarrow> code = 0 \<and> c_accepted c \<subseteq> c_delivered c \<union> c_lost c \<Longrightarrow>
    contractStep c (c\<lparr>c_state := st, c_history := c_history c @ [st], c_exits := [Some code]\<rparr>)"
| Accept: "\<not> isTerminal (c_state c) \<Longrightarrow> contractStep c (c\<lparr>c_accepted := insert n (c_accepted c)\<rparr>)"
| Deliver: "n \<in> c_accepted c \<Longrightarrow> contractStep c (c\<lparr>c_delivered := insert n (c_delivered c)\<rparr>)"
| Lose: "n \<in> c_accepted c \<Longrightarrow> contractStep c (c\<lparr>c_lost := insert n (c_lost c)\<rparr>)"
| Release: "ns \<subseteq> c_delivered c \<Longrightarrow> contractStep c (c\<lparr>c_released := c_released c \<union> ns\<rparr>)"

section \<open>The job as a contract\<close>

definition released :: "sys \<Rightarrow> string set" where
  "released s = (\<Union>g \<in> {g \<in> set (s_gates s). g_status g = GForwarded}. set (g_names g) \<inter> g_seen g)"

definition absJob :: "sys \<Rightarrow> contract" where
  "absJob s = \<lparr>c_state = j_state (s_job s), c_history = emittedStates s, c_exits = emittedExits s,
     c_accepted = s_accepted s, c_delivered = s_master s, c_lost = s_failed s, c_released = released s\<rparr>"

lemma absJob_init: "absJob (initSys jid jobdir) = freshContract"
  by (simp add: absJob_def freshContract_def released_def initSys_def newJob_def withJob_def
      emittedStates_def emittedExits_def dueEffects_pc)

text \<open>Only accepted names are uploaded.\<close>

definition uploadsAccepted :: "sys \<Rightarrow> bool" where
  "uploadsAccepted s \<longleftrightarrow> set (queued (s_job s)) \<subseteq> s_accepted s \<and> fst ` set (s_up s) \<subseteq> s_accepted s"

lemma queued_startPushers: "queued (startPushers j) = []"
  by (simp add: queued_def startPushers_def)

lemma enqueue_queued:
  "enqueue cap n j = (j', b) \<Longrightarrow> queued j' = queued j \<and> j_queue j' = j_queue j \<or> queued j' = queued j @ [n] \<and> j_queue j' \<noteq> j_queue j"
  using enqueue_result [of cap n j j' b] by (auto simp: queued_def)

lemma step_accepted: "step cap par a s = Some t \<Longrightarrow> s_accepted s \<subseteq> s_accepted t"
  by (cases a) (auto simp: step_defs Let_def split: step_splits)

lemma queued_pop [simp]: "queued (j\<lparr>j_queue := Some q\<rparr>) = q"
  by (simp add: queued_def)

lemma names_up [simp]:
  "i < length xs \<Longrightarrow> fst ` set (xs[i := (fst (xs ! i), y)]) = fst ` set xs"
  "fst ` set (take i xs) \<subseteq> fst ` set xs \<union> A" "fst ` set (drop i xs) \<subseteq> fst ` set xs \<union> A"
proof -
  assume "i < length xs"
  then have "map fst (xs[i := (fst (xs ! i), y)]) = map fst xs" by (metis fst_conv list_update_id map_update nth_map)
  then show "fst ` set (xs[i := (fst (xs ! i), y)]) = fst ` set xs" by (metis set_map)
qed (auto intro: rev_image_eqI dest: in_set_takeD in_set_dropD)

lemma step_uploadNames:
  assumes "step cap par a s = Some t"
  shows "fst ` set (s_up t) \<subseteq> fst ` set (s_up s) \<union> set (queued (s_job s))"
proof (cases "a = Pop")
  case True
  then show ?thesis using assms by (auto simp: queued_def split: list.splits option.splits if_splits)
next
  case False
  then show ?thesis using assms
    by (cases a) (auto simp: image_Un step_defs Let_def split: step_splits del: subsetI)
qed

lemma step_queued:
  assumes "step cap par a s = Some t"
  shows "set (queued (s_job t)) \<subseteq> set (queued (s_job s)) \<union> s_accepted t"
proof (cases "a = Pop")
  case True
  then show ?thesis using assms by (auto simp: queued_def [of "s_job s"] split: list.splits option.splits if_splits)
next
  case False
  then show ?thesis using assms
    by (cases a) (auto dest!: enqueue_queued simp: queued_startPushers step_defs Let_def split: step_splits)
qed

lemma step_uploadsAccepted:
  assumes "uploadsAccepted s" "step cap par a s = Some t"
  shows "uploadsAccepted t"
  using step_accepted [OF assms(2)] step_uploadNames [OF assms(2)] step_queued [OF assms(2)] assms(1)
  unfolding uploadsAccepted_def by blast

section \<open>Simulation\<close>

text \<open>Chunks that forwarded announces name.\<close>

lemma released_cong: "s_gates t = s_gates s \<Longrightarrow> released t = released s"
  by (simp add: released_def)

lemma released_forget: "s_gates t = map (forget n) (s_gates s) \<Longrightarrow> released t = released s"
  by (auto simp: released_def forget_def split: if_splits)

lemma released_announce: "s_gates t = s_gates s @ [g] \<Longrightarrow> g_status g = GWaiting \<Longrightarrow> released t = released s"
  by (auto simp: released_def)

lemma released_gateStep:
  assumes "s_gates t = (s_gates s)[i := g]" "i < length (s_gates s)" "g_status (s_gates s ! i) = GWaiting"
  shows "released s \<subseteq> released t"
proof -
  have "h \<in> set (s_gates t)" if h: "h \<in> set (s_gates s)" "g_status h = GForwarded" for h
  proof -
    from h(1) obtain k where "k < length (s_gates s)" "h = s_gates s ! k" by (metis in_set_conv_nth)
    moreover from this have "k \<noteq> i" using h(2) assms(3) by auto
    ultimately show ?thesis unfolding assms(1) by (metis length_list_update nth_list_update_neq nth_mem)
  qed
  then show ?thesis by (auto simp: released_def)
qed

lemma released_delivered: "gateInv s \<Longrightarrow> released s \<subseteq> s_master s"
  by (fastforce simp: released_def gateInv_def gateHolds_def uploadsAcked_def)

text \<open>The steps of the threads beside \<^verbatim>\<open>run\<close>.\<close>

definition sameLog :: "sys \<Rightarrow> sys \<Rightarrow> bool" where
  "sameLog s t \<longleftrightarrow> j_state (s_job t) = j_state (s_job s) \<and> emittedStates t = emittedStates s \<and> emittedExits t = emittedExits s"

lemma step_sameLog: "step cap par a s = Some t \<Longrightarrow> \<not> isRunStep a \<Longrightarrow> sameLog s t"
  using step_sameLife [of cap par a s t] step_due [of cap par a s t]
  by (simp add: sameLog_def sameLife_def emittedStates_def emittedExits_def)

definition sameFiles :: "sys \<Rightarrow> sys \<Rightarrow> bool" where
  "sameFiles s t \<longleftrightarrow> s_accepted t = s_accepted s \<and> s_master t = s_master s \<and> s_failed t = s_failed s"

lemma absJob_simps [simp]:
  "c_state (absJob s) = j_state (s_job s)" "c_history (absJob s) = emittedStates s" "c_exits (absJob s) = emittedExits s"
  "c_accepted (absJob s) = s_accepted s" "c_delivered (absJob s) = s_master s" "c_lost (absJob s) = s_failed s"
  "c_released (absJob s) = released s"
  by (simp_all add: absJob_def)

lemma absJob_same: "sameLog s t \<Longrightarrow> sameFiles s t \<Longrightarrow> released t = released s \<Longrightarrow> absJob t = absJob s"
  by (simp add: absJob_def sameLog_def sameFiles_def)

fun movesFiles :: "action \<Rightarrow> bool" where
  "movesFiles WatchDeliver = True"
| "movesFiles (OpenFile i e) = True"
| "movesFiles (PutOk i) = True"
| "movesFiles (PutFail i e) = True"
| "movesFiles _ = False"

lemma step_sameFiles: "step cap par a s = Some t \<Longrightarrow> \<not> movesFiles a \<Longrightarrow> sameFiles s t"
  by (cases a) (auto simp: sameFiles_def step_defs Let_def split: step_splits)

lemma files_contract:
  assumes "step cap par a s = Some t" "movesFiles a" "uploadsAccepted s"
  shows "absJob t = absJob s \<or> contractStep (absJob s) (absJob t)"
proof -
  have log: "sameLog s t" using step_sameLog [OF assms(1)] assms(2) by (cases a) auto
  have rel: "released t = released s"
    by (rule released_cong, use assms(1,2) in \<open>cases a; auto simp: step_defs Let_def split: step_splits\<close>)
  have name: "i < length (s_up s) \<Longrightarrow> fst (s_up s ! i) \<in> c_accepted (absJob s)" for i
    using assms(3) by (auto simp: uploadsAccepted_def image_subset_iff)
  have lose: "absJob t = (absJob s)\<lparr>c_lost := insert n (s_failed s)\<rparr>"
    if "s_accepted t = s_accepted s" "s_master t = s_master s" "s_failed t = insert n (s_failed s)" for n
    using log rel that by (simp add: absJob_def sameLog_def)
  show ?thesis
  proof (cases a)
    case WatchDeliver
    then obtain n ns j over where w: "s_watch s = n # ns" "enqueue cap n (s_job s) = (j, over)"
      and t: "t = s\<lparr>s_job := j, s_watch := ns, s_overflow := over,
        s_panic := s_panic s \<or> j_queue j \<noteq> j_queue (s_job s) \<and> s_qClosed s,
        s_accepted := (if j_queue j \<noteq> j_queue (s_job s) then insert n (s_accepted s) else s_accepted s)\<rparr>"
      using assms(1) by (auto simp: Let_def split: list.splits if_splits prod.splits)
    show ?thesis
    proof (cases "j_queue j = j_queue (s_job s)")
      case True
      then have "sameFiles s t" by (simp add: t sameFiles_def)
      then show ?thesis using absJob_same log rel by blast
    next
      case False
      then have "\<not> isTerminal (c_state (absJob s))"
        using w(2) by (auto simp: enqueue_def split: if_splits option.splits)
      moreover have "absJob t = (absJob s)\<lparr>c_accepted := insert n (c_accepted (absJob s))\<rparr>"
        using False log rel by (simp add: absJob_def sameLog_def) (simp add: t)
      ultimately show ?thesis using Accept by metis
    qed
  next
    case (OpenFile i e)
    show ?thesis
    proof (cases "fst (s_up s ! i) \<in> s_disk s")
      case True
      then have "sameFiles s t" using assms(1) OpenFile by (auto simp: sameFiles_def setUp_def Let_def split: if_splits)
      then show ?thesis using absJob_same log rel by blast
    next
      case False
      then have "absJob t = (absJob s)\<lparr>c_lost := insert (fst (s_up s ! i)) (c_lost (absJob s))\<rparr>" "i < length (s_up s)"
        using assms(1) OpenFile lose by (auto simp: step_defs Let_def split: if_splits)
      then show ?thesis using Lose [OF name] by metis
    qed
  next
    case (PutFail i e)
    then have "absJob t = (absJob s)\<lparr>c_lost := insert (fst (s_up s ! i)) (c_lost (absJob s))\<rparr>" "i < length (s_up s)"
      using assms(1) lose by (auto simp: step_defs split: if_splits)
    then show ?thesis using Lose [OF name] by metis
  next
    case (PutOk i)
    then have "absJob t = (absJob s)\<lparr>c_delivered := insert (fst (s_up s ! i)) (c_delivered (absJob s))\<rparr>" "i < length (s_up s)"
      using assms(1) log rel by (auto simp: absJob_def sameLog_def setUp_def Let_def split: if_splits)
    then show ?thesis using Deliver [OF name] by metis
  qed (use assms(2) in simp_all)
qed

text \<open>The moves of \<^verbatim>\<open>run\<close>: at most one new state each.\<close>

lemma states_effect:
  assumes "lifeInv s" "s_pc s = PcEffects (e # es)"
  shows "emittedStates (applyEffect e (s\<lparr>s_pc := PcEffects es\<rparr>)) = emittedStates s"
proof -
  have "s_hubClosed s \<longrightarrow> pubsOf (e # es) = []"
    using assms by (simp add: lifeInv_def lifeObs_def dueEffects_def)
  then show ?thesis
    using assms(2) statesOf_append [of "[ev]" "pubsOf es" for ev]
    by (cases e; simp add: emittedStates_def dueEffects_pc)
qed

definition advanced :: "sys \<Rightarrow> sys \<Rightarrow> bool" where
  "advanced s t \<longleftrightarrow> follows (j_state (s_job s)) (j_state (s_job t)) \<and>
     emittedStates t = emittedStates s @ [j_state (s_job t)] \<and>
     (if isTerminal (j_state (s_job t)) then \<exists>c. emittedExits t = [Some c] else emittedExits t = emittedExits s)"

lemma advanced_setState:
  assumes "lifeInv s" "dueOf (s_pc s) = []" "follows (j_state (s_job s)) st" "\<not> isTerminal (j_state (s_job s))" "\<not> isTerminal st"
    and "dueOf pc = []"
  shows "advanced s (withJob (setState st now (s_job s)) (s\<lparr>s_pc := pc\<rparr>))"
    "advanced s (withJob (setState st now (s_job s)) (s\<lparr>s_watchClosed := True, s_pc := pc\<rparr>))"
proof -
  have "\<not> s_hubClosed s" using assms(1,4) by (auto simp: lifeInv_def lifeObs_def)
  then show "advanced s (withJob (setState st now (s_job s)) (s\<lparr>s_pc := pc\<rparr>))"
    "advanced s (withJob (setState st now (s_job s)) (s\<lparr>s_watchClosed := True, s_pc := pc\<rparr>))"
    using assms by (simp_all add: advanced_def withJob_setState(2) setState_state emittedStates_def emittedExits_def dueEffects_pc)
qed

lemma advanced_finalize:
  assumes "lifeInv s" "drainPc (s_pc s) (j_state (s_job s)) (s_job s)" "s_pc s = PcFinal st c" "st = JobCompleted \<longrightarrow> j_state (s_job s) = JobDraining"
  shows "advanced s (s\<lparr>s_job := fst (finalize st c now (s_job s)), s_pc := PcEffects (snd (finalize st c now (s_job s)))\<rparr>)"
proof -
  have st: "\<not> isTerminal (j_state (s_job s))" "isTerminal st" "j_state (s_job s) \<in> {JobPreparing, JobDraining}"
    using assms(1,3) by (auto simp: lifeInv_def)
  have "exitsOf (s_pub s) = []" using assms(1,3) st(1) by (simp add: lifeInv_def lifeObs_def emittedExits_def dueEffects_pc)
  moreover have "follows (j_state (s_job s)) st" using st assms(4) by (auto intro: follows.intros)
  ultimately show ?thesis
    using assms(3) st finalize_due [OF st(1,2), of c now]
    by (simp add: advanced_def emittedStates_def emittedExits_def dueEffects_pc)
qed

text \<open>A job that never got a transcoder is not completed.\<close>

fun finalOk :: "runpc \<Rightarrow> JobState \<Rightarrow> bool" where
  "finalOk (PcFinal fin c) st = (fin = JobCompleted \<longrightarrow> st = JobDraining)"
| "finalOk _ st = True"

lemma step_finalOk:
  assumes "lifeInv s" "finalOk (s_pc s) (j_state (s_job s))" "step cap par a s = Some t"
  shows "finalOk (s_pc t) (j_state (s_job t))"
proof (cases "isRunStep a")
  case False
  then show ?thesis
    using step_pc_other [OF assms(3) False] step_sameLog [OF assms(3) False] assms(2) by (auto simp: sameLog_def)
next
  case True
  then obtain now where run: "runStep now s = Some t" using assms(3) by (cases a) auto
  have inv: "cancelOk (s_job s)" "pcState (s_pc s) (j_state (s_job s))" using assms(1) by (simp_all add: lifeInv_def)
  show ?thesis
  proof (cases "s_pc s")
    case PcPrepared
    with run inv abortState_not_completed show ?thesis by (auto split: option.splits)
  next
    case PcFail
    with run inv terminalFor_not_completed show ?thesis by auto
  next
    case (PcDecide c e)
    with run inv show ?thesis by (cases e) auto
  next
    case (PcEffects es)
    with run show ?thesis by (cases es) auto
  qed (use run in auto)
qed

lemma run_history:
  assumes "lifeInv s" "drainPc (s_pc s) (j_state (s_job s)) (s_job s)" "finalOk (s_pc s) (j_state (s_job s))" "runStep now s = Some t"
  shows "sameLog s t \<or> advanced s t"
proof -
  have pc: "pcState (s_pc s) (j_state (s_job s))" using assms(1) by (simp add: lifeInv_def)
  note plain = sameLog_def emittedStates_def emittedExits_def dueEffects_pc
  show ?thesis
  proof (cases "s_pc s")
    case PcStart
    with assms pc show ?thesis by (auto intro!: advanced_setState simp: follows.intros)
  next
    case PcSpawned
    with assms pc show ?thesis by (auto intro!: advanced_setState simp: follows.intros)
  next
    case (PcExited c)
    with assms pc show ?thesis by (auto intro!: advanced_setState simp: follows.intros)
  next
    case PcPrepared
    with assms show ?thesis by (auto simp: plain split: option.splits)
  next
    case (PcDrain c)
    with assms show ?thesis by (auto simp: plain)
  next
    case (PcDecide c e)
    with assms show ?thesis by (cases e) (auto simp: plain)
  next
    case PcFail
    with assms show ?thesis by (auto simp: plain)
  next
    case (PcFinal st c)
    with assms advanced_finalize [OF assms(1,2) PcFinal] show ?thesis by auto
  next
    case (PcEffects es)
    show ?thesis
    proof (cases es)
      case Nil
      with PcEffects assms(4) show ?thesis by (auto simp: plain)
    next
      case (Cons e es')
      with PcEffects assms(4) states_effect [OF assms(1)] exits_effect [OF assms(1)] show ?thesis by (auto simp: sameLog_def)
    qed
  qed (use assms(4) in auto)
qed

lemma run_contract:
  assumes "drainInv s" "drainInv t" "finalOk (s_pc s) (j_state (s_job s))" "runStep now s = Some t"
  shows "absJob t = absJob s \<or> contractStep (absJob s) (absJob t)"
proof -
  have "step 0 0 (RunStep now) s = Some t" using assms(4) by simp
  then have "sameFiles s t" "s_gates t = s_gates s"
    using step_sameFiles [of 0 0 "RunStep now" s t] step_gates [of 0 0 "RunStep now" s t] by auto
  then have files: "sameFiles s t" "released t = released s" using released_cong by blast+
  have "lifeInv s" "drainPc (s_pc s) (j_state (s_job s)) (s_job s)" using assms(1) by (simp_all add: drainInv_def)
  from run_history [OF this assms(3,4)] show ?thesis
  proof
    assume "sameLog s t"
    with files absJob_same show ?thesis by blast
  next
    assume adv: "advanced s t"
    show ?thesis
    proof (cases "isTerminal (j_state (s_job t))")
      case True
      then obtain c where c: "emittedExits t = [Some c]" using adv by (auto simp: advanced_def)
      have "j_state (s_job t) = JobCompleted \<longrightarrow> c = 0 \<and> s_accepted s \<subseteq> s_master s \<union> s_failed s"
        using drainInv_completed [OF assms(2)] c files by (auto simp: sameFiles_def)
      moreover have "absJob t = (absJob s)\<lparr>c_state := j_state (s_job t), c_history := c_history (absJob s) @ [j_state (s_job t)],
          c_exits := [Some c]\<rparr>"
        using adv c files by (simp add: absJob_def advanced_def sameFiles_def)
      ultimately show ?thesis using Finish [of "absJob s" "j_state (s_job t)" c] adv True by (simp add: advanced_def)
    next
      case False
      moreover have "absJob t = (absJob s)\<lparr>c_state := j_state (s_job t), c_history := c_history (absJob s) @ [j_state (s_job t)]\<rparr>"
        using adv False files by (simp add: absJob_def advanced_def sameFiles_def)
      ultimately show ?thesis using Advance [of "absJob s" "j_state (s_job t)"] adv by (simp add: advanced_def)
    qed
  qed
qed

definition refineInv :: "sys \<Rightarrow> bool" where
  "refineInv s \<longleftrightarrow> drainInv s \<and> gateInv s \<and> uploadsAccepted s \<and> finalOk (s_pc s) (j_state (s_job s))"

lemma step_refineInv: "refineInv s \<Longrightarrow> step cap par a s = Some t \<Longrightarrow> refineInv t"
  unfolding refineInv_def drainInv_def [of s]
  using step_drainInv [of s] step_gateInv step_uploadsAccepted step_finalOk drainInv_def by blast

lemma step_contract:
  assumes "refineInv s" "step cap par a s = Some t"
  shows "absJob t = absJob s \<or> contractStep (absJob s) (absJob t)"
proof -
  have t: "refineInv t" by (rule step_refineInv [OF assms])
  consider (run) now where "a = RunStep now" | (files) "movesFiles a" | (gate) i c where "a = GateStep i c"
    | (other) "\<not> isRunStep a" "\<not> movesFiles a" "\<forall>i c. a \<noteq> GateStep i c"
    by (cases a) auto
  then show ?thesis
  proof cases
    case run
    with assms t run_contract show ?thesis by (auto simp: refineInv_def)
  next
    case files
    with assms files_contract show ?thesis by (auto simp: refineInv_def)
  next
    case (gate i c)
    then have log: "sameLog s t" "sameFiles s t"
      using step_sameLog [OF assms(2)] step_sameFiles [OF assms(2)] by auto
    obtain g where g: "s_gates t = (s_gates s)[i := g]" "i < length (s_gates s)" "g_status (s_gates s ! i) = GWaiting"
      using assms(2) gate by (auto simp: Let_def split: step_splits)
    have sub: "released t \<subseteq> c_delivered (absJob s)"
      using released_delivered [of t] t log(2) by (simp add: refineInv_def sameFiles_def)
    have "absJob t = (absJob s)\<lparr>c_released := c_released (absJob s) \<union> released t\<rparr>"
      using log released_gateStep [OF g] by (auto simp: absJob_def sameLog_def sameFiles_def)
    with Release [OF sub] show ?thesis by metis
  next
    case other
    have "s_gates t = s_gates s \<or> (\<exists>n. s_gates t = map (forget n) (s_gates s)) \<or>
        (\<exists>g. s_gates t = s_gates s @ [g] \<and> g_status g = GWaiting)"
      using step_gates [OF assms(2)] other(3) assms(2)
      by (elim disjE exE) (simp, fastforce, blast, auto simp del: map_eq_conv split: if_splits)
    then have "released t = released s" using released_cong released_forget released_announce by blast
    then show ?thesis using step_sameLog [OF assms(2) other(1)] step_sameFiles [OF assms(2) other(2)] absJob_same by blast
  qed
qed

lemma refineInv_init: "refineInv (initSys jid jobdir)"
  using drainInv_init [of jid jobdir] gateInv_init [of jid jobdir]
  by (simp add: refineInv_def uploadsAccepted_def queued_def initSys_def newJob_def withJob_def)

interpretation refines: invariant_of "step cap par" "\<lambda>s. \<exists>jid jobdir. s = initSys jid jobdir"
    "\<lambda>s. refineInv s \<and> contractStep\<^sup>*\<^sup>* freshContract (absJob s)"
  for cap par
proof
  show "\<exists>jid jobdir. s = initSys jid jobdir \<Longrightarrow> refineInv s \<and> contractStep\<^sup>*\<^sup>* freshContract (absJob s)" for s
    using refineInv_init absJob_init by auto
  show "refineInv s \<and> contractStep\<^sup>*\<^sup>* freshContract (absJob s) \<Longrightarrow> step cap par a s = Some t \<Longrightarrow>
      refineInv t \<and> contractStep\<^sup>*\<^sup>* freshContract (absJob t)" for s a t
    using step_refineInv step_contract rtranclp.rtrancl_into_rtrancl by metis
qed

section \<open>What the contract promises\<close>

definition contractOk :: "contract \<Rightarrow> bool" where
  "contractOk c \<longleftrightarrow> c_released c \<subseteq> c_delivered c \<and> c_delivered c \<subseteq> c_accepted c \<and> c_lost c \<subseteq> c_accepted c \<and>
     last (c_history c) = c_state c \<and> lifecycle (c_history c) \<and>
     (\<not> isTerminal (c_state c) \<longrightarrow> c_history c = statesUpTo (c_state c)) \<and> (c_exits c = [] \<longleftrightarrow> \<not> isTerminal (c_state c)) \<and>
     (c_state c = JobCompleted \<longrightarrow> c_exits c = [Some 0] \<and> c_accepted c \<subseteq> c_delivered c \<union> c_lost c)"

lemma follows_live: "follows st st' \<Longrightarrow> \<not> isTerminal st"
  by (induction rule: follows.induct) auto

lemma follows_history:
  "follows st st' \<Longrightarrow> \<not> isTerminal st' \<Longrightarrow> statesUpTo st @ [st'] = statesUpTo st'"
  "follows st st' \<Longrightarrow> isTerminal st' \<Longrightarrow> lifecycle (statesUpTo st @ [st'])"
  by (induction rule: follows.induct; simp; auto simp: lifecycle_def)+

lemma lifecycle_upTo: "\<not> isTerminal st \<Longrightarrow> lifecycle (statesUpTo st)"
  by (cases st) (auto simp: lifecycle_def)

lemma contractStep_ok: "contractStep c c' \<Longrightarrow> contractOk c \<Longrightarrow> contractOk c'"
  by (induction rule: contractStep.induct)
    (auto simp: contractOk_def follows_history lifecycle_upTo dest: follows_live)

lemma contractOk_fresh: "contractOk freshContract"
  by (simp add: contractOk_def freshContract_def lifecycle_def)

lemma contract_ok: "contractStep\<^sup>*\<^sup>* freshContract c \<Longrightarrow> contractOk c"
  by (induction rule: rtranclp_induct) (blast intro: contractOk_fresh contractStep_ok)+

section \<open>Properties\<close>



end
