(* ===== verification/SessionStore.thy ===== *)
theory SessionStore
  imports Protocol GoPath Transition
begin

text \<open>
  The session table of \<^verbatim>\<open>internal/masterd/sessions.go\<close>: registration, lookup, TTL,
  tombstones and the reaper.  Times are nanoseconds; the timers that \<^verbatim>\<open>close\<close> starts are
  part of the state, so that they may fire at any later moment.  A push token is known by
  its digest only, as in the code.
\<close>

section \<open>State\<close>

definition tmpSuffix :: string where "tmpSuffix = ''.prt-tmp''"

datatype sessionState = sessionUnknown | sessionLive | sessionGone

record session =
  ss_jobID :: string
  ss_targetDir :: string
  ss_tokenHash :: string
  ss_expires :: int
  ss_tombstoned :: bool
  ss_tombstonedAt :: int

record sessionStore =
  st_sessions :: "string \<Rightarrow> session option"
  st_ttl :: int
  st_drain :: int
  st_keep :: int
  st_timers :: "(int \<times> string) list"

definition newSessionStore :: "int \<Rightarrow> sessionStore" where
  "newSessionStore ttl =
     \<lparr>st_sessions = (\<lambda>_. None), st_ttl = ttl, st_drain = 2 * second, st_keep = ttl, st_timers = []\<rparr>"

section \<open>Operations\<close>

definition tokenMatches :: "(string \<Rightarrow> string) \<Rightarrow> session \<Rightarrow> string \<Rightarrow> bool" where
  "tokenMatches digest s presented \<longleftrightarrow> digest presented = ss_tokenHash s"

definition register :: "string \<Rightarrow> string \<Rightarrow> string \<Rightarrow> int \<Rightarrow> sessionStore \<Rightarrow> sessionStore" where
  "register jobID targetDir tokenHash now st =
     st\<lparr>st_sessions := (st_sessions st)(jobID \<mapsto>
          \<lparr>ss_jobID = jobID, ss_targetDir = targetDir, ss_tokenHash = tokenHash,
           ss_expires = now + st_ttl st, ss_tombstoned = False, ss_tombstonedAt = 0\<rparr>)\<rparr>"

definition lookup :: "string \<Rightarrow> sessionStore \<Rightarrow> sessionState \<times> session option" where
  "lookup jobID st =
     (case st_sessions st jobID of
        None \<Rightarrow> (sessionUnknown, None)
      | Some s \<Rightarrow> if ss_tombstoned s then (sessionGone, None) else (sessionLive, Some s))"

definition touch :: "string \<Rightarrow> int \<Rightarrow> sessionStore \<Rightarrow> sessionStore" where
  "touch jobID now st =
     (case st_sessions st jobID of
        Some s \<Rightarrow>
          if ss_tombstoned s then st
          else st\<lparr>st_sessions := (st_sessions st)(jobID \<mapsto> s\<lparr>ss_expires := now + st_ttl st\<rparr>)\<rparr>
      | None \<Rightarrow> st)"

definition closeSession :: "string \<Rightarrow> int \<Rightarrow> sessionStore \<Rightarrow> sessionStore" where
  "closeSession jobID now st =
     (case st_sessions st jobID of
        Some s \<Rightarrow>
          if ss_tombstoned s then st else st\<lparr>st_timers := (now + st_drain st, jobID) # st_timers st\<rparr>
      | None \<Rightarrow> st)"

definition tombstone :: "string \<Rightarrow> int \<Rightarrow> sessionStore \<Rightarrow> sessionStore" where
  "tombstone jobID now st =
     (case st_sessions st jobID of
        Some s \<Rightarrow>
          if ss_tombstoned s then st
          else st\<lparr>st_sessions := (st_sessions st)(jobID \<mapsto> s\<lparr>ss_tombstoned := True, ss_tombstonedAt := now\<rparr>)\<rparr>
      | None \<Rightarrow> st)"

text \<open>The body of a timer that \<^verbatim>\<open>close\<close> started, once it is due.\<close>

definition fireTimer :: "nat \<Rightarrow> int \<Rightarrow> sessionStore \<Rightarrow> sessionStore option" where
  "fireTimer i now st =
     (if i < length (st_timers st) \<and> fst (st_timers st ! i) \<le> now
      then Some (tombstone (snd (st_timers st ! i)) now
             (st\<lparr>st_timers := take i (st_timers st) @ drop (Suc i) (st_timers st)\<rparr>))
      else None)"

definition reapOne :: "int \<Rightarrow> int \<Rightarrow> session \<Rightarrow> session option" where
  "reapOne keep now s =
     (if \<not> ss_tombstoned s \<and> now > ss_expires s then Some (s\<lparr>ss_tombstoned := True, ss_tombstonedAt := now\<rparr>)
      else if ss_tombstoned s \<and> now > ss_tombstonedAt s + keep then None
      else Some s)"

definition reap :: "int \<Rightarrow> sessionStore \<Rightarrow> sessionStore" where
  "reap now st =
     st\<lparr>st_sessions := (\<lambda>id. case st_sessions st id of None \<Rightarrow> None | Some s \<Rightarrow> reapOne (st_keep st) now s)\<rparr>"

text \<open>The interval of \<^verbatim>\<open>runReaper\<close>.\<close>

definition reaperInterval :: "int \<Rightarrow> int" where
  "reaperInterval ttl =
     (let i = ttl div 10; i1 = (if i < second then second else i)
      in if i1 > 30 * second then 30 * second else i1)"

section \<open>What the code promises of a session\<close>

text \<open>
  The abstract life of one session id: the code hides the difference between unknown and
  gone from clients, and an id leaves the live state at most once per registration.
\<close>

definition stateOf :: "sessionStore \<Rightarrow> string \<Rightarrow> sessionState" where
  "stateOf st jobID = fst (lookup jobID st)"

datatype storeOp =
    OpRegister string string string int
  | OpTouch string int
  | OpClose string int
  | OpTombstone string int
  | OpTimer nat int
  | OpReap int

fun storeStep :: "storeOp \<Rightarrow> sessionStore \<Rightarrow> sessionStore option" where
  "storeStep (OpRegister jobID d h now) st = Some (register jobID d h now st)"
| "storeStep (OpTouch jobID now) st = Some (touch jobID now st)"
| "storeStep (OpClose jobID now) st = Some (closeSession jobID now st)"
| "storeStep (OpTombstone jobID now) st = Some (tombstone jobID now st)"
| "storeStep (OpTimer i now) st = fireTimer i now st"
| "storeStep (OpReap now) st = Some (reap now st)"

fun registers :: "string \<Rightarrow> storeOp \<Rightarrow> bool" where
  "registers jobID (OpRegister jobID' d h now) = (jobID = jobID')"
| "registers jobID _ = False"

text \<open>The specification: how the state of one id may change.\<close>

inductive sessionLife :: "bool \<Rightarrow> sessionState \<Rightarrow> sessionState \<Rightarrow> bool" where
  life_stay: "sessionLife r s s"
| life_register: "sessionLife True s sessionLive"
| life_end: "sessionLife False sessionLive sessionGone"
| life_purge: "sessionLife False sessionGone sessionUnknown"

inductive_cases sessionLife_falseE: "sessionLife False s t"

named_theorems store_ops \<open>unfoldings of the operations of the session store\<close>

declare register_def [store_ops] touch_def [store_ops] closeSession_def [store_ops]
  tombstone_def [store_ops] fireTimer_def [store_ops] reap_def [store_ops] reapOne_def [store_ops]

lemma stateOf_cases:
  "stateOf st jobID = (case st_sessions st jobID of None \<Rightarrow> sessionUnknown
     | Some s \<Rightarrow> if ss_tombstoned s then sessionGone else sessionLive)"
  by (simp add: stateOf_def lookup_def split: option.splits)

lemma stateOf_tombstone:
  "stateOf (tombstone jobID' now st) jobID =
     (if jobID = jobID' \<and> stateOf st jobID = sessionLive then sessionGone else stateOf st jobID)"
  by (auto simp: stateOf_cases tombstone_def split: option.splits)

lemma stateOf_timers [simp]: "stateOf (st\<lparr>st_timers := ts\<rparr>) jobID = stateOf st jobID"
  by (simp add: stateOf_cases)

lemma stateOf_register: "stateOf (register jobID' d h now st) jobID = (if jobID = jobID' then sessionLive else stateOf st jobID)"
  by (simp add: stateOf_cases register_def)

lemma stateOf_touch [simp]: "stateOf (touch jobID' now st) jobID = stateOf st jobID"
  by (auto simp: stateOf_cases touch_def split: option.splits)

lemma stateOf_close [simp]: "stateOf (closeSession jobID' now st) jobID = stateOf st jobID"
  by (auto simp: stateOf_cases closeSession_def split: option.splits)

lemma stateOf_reap: "sessionLife False (stateOf st jobID) (stateOf (reap now st) jobID)"
  by (cases "st_sessions st jobID") (auto simp: stateOf_cases reap_def reapOne_def sessionLife.intros)

lemma store_step_life:
  assumes "storeStep x st = Some st'"
  shows "sessionLife (registers jobID x) (stateOf st jobID) (stateOf st' jobID)"
  using assms
  by (cases x) (auto simp: fireTimer_def stateOf_register stateOf_tombstone stateOf_reap sessionLife.intros
      split: if_splits)



section \<open>Gone stays gone\<close>

lemma not_live_run:
  assumes "run_actions storeStep xs st = Some st'" "stateOf st jobID \<noteq> sessionLive"
    and "\<forall>x \<in> set xs. \<not> registers jobID x"
  shows "stateOf st' jobID \<noteq> sessionLive"
  using assms
proof (induction xs arbitrary: st)
  case (Cons x xs)
  then obtain u where u: "storeStep x st = Some u" "run_actions storeStep xs u = Some st'"
    by (auto split: option.splits)
  have "sessionLife False (stateOf st jobID) (stateOf u jobID)"
    using store_step_life [OF u(1), of jobID] Cons.prems(3) by simp
  with Cons.prems(2) have "stateOf u jobID \<noteq> sessionLive" by (auto elim: sessionLife_falseE)
  with Cons u(2) show ?case by simp
qed simp

text \<open>A live session that is touched, or whose TTL runs, is gone at the first reap after its expiry.\<close>

lemma reap_expired:
  "st_sessions st jobID = Some s \<Longrightarrow> now > ss_expires s \<Longrightarrow> stateOf (reap now st) jobID \<noteq> sessionLive"
  by (auto simp: stateOf_cases reap_def reapOne_def)

lemma reap_keeps_fresh:
  "st_sessions st jobID = Some s \<Longrightarrow> now \<le> ss_expires s \<Longrightarrow> \<not> ss_tombstoned s \<Longrightarrow>
     st_sessions (reap now st) jobID = Some s"
  by (auto simp: reap_def reapOne_def)

lemma touch_fresh:
  "lookup jobID st = (sessionLive, Some s) \<Longrightarrow>
     \<exists>s'. st_sessions (touch jobID now st) jobID = Some s' \<and> ss_expires s' = now + st_ttl st \<and> \<not> ss_tombstoned s'"
  by (auto simp: lookup_def touch_def split: option.splits if_splits)

text \<open>A session with push traffic is never reaped: whatever happened before, a live session touched
  at time \<open>t\<close> is still live, with the same directory and token, after any reaps up to its
  full TTL later; and at the first reap beyond it a session without traffic is gone.\<close>

theorem touched_session_survives:
  assumes "lookup jobID st = (sessionLive, Some s)"
  shows "(\<forall>ts. (\<forall>t \<in> set ts. t \<le> now + st_ttl st) \<longrightarrow>
      lookup jobID (fold reap ts (touch jobID now st)) = (sessionLive, Some (s\<lparr>ss_expires := now + st_ttl st\<rparr>))) \<and>
    (\<forall>t > now + st_ttl st. stateOf (reap t (touch jobID now st)) jobID = sessionGone)"
proof (rule conjI)
  let ?s = "s\<lparr>ss_expires := now + st_ttl st\<rparr>"
  have s: "st_sessions st jobID = Some s" "\<not> ss_tombstoned s"
    using assms by (auto simp: lookup_def split: option.splits if_splits)
  then have t: "st_sessions (touch jobID now st) jobID = Some ?s" by (simp add: touch_def)
  have "st_sessions (fold reap ts u) jobID = Some ?s"
    if "\<forall>t \<in> set ts. t \<le> now + st_ttl st" "st_sessions u jobID = Some ?s" for ts u
    using that
  proof (induction ts arbitrary: u)
    case (Cons x xs)
    then have "st_sessions (reap x u) jobID = Some ?s"
      using reap_keeps_fresh [of u jobID ?s x] s(2) by simp
    with Cons show ?case by simp
  qed simp
  then show "\<forall>ts. (\<forall>t \<in> set ts. t \<le> now + st_ttl st) \<longrightarrow>
      lookup jobID (fold reap ts (touch jobID now st)) = (sessionLive, Some ?s)"
    using t s(2) by (simp add: lookup_def)
  show "\<forall>t > now + st_ttl st. stateOf (reap t (touch jobID now st)) jobID = sessionGone"
    using t s(2) by (simp add: stateOf_cases reap_def reapOne_def)
qed

lemma touched_session_survives_witness:
  "let st = register ''j'' ''/t/s'' ''h'' 0 (newSessionStore (60 * second))
   in stateOf (fold reap [20 * second, 70 * second] (touch ''j'' (10 * second) st)) ''j'' = sessionLive"
proof -
  let ?st = "register ''j'' ''/t/s'' ''h'' 0 (newSessionStore (60 * second))"
  have "\<exists>s. lookup ''j'' ?st = (sessionLive, Some s)" by (simp add: lookup_def register_def)
  then obtain s where s: "lookup ''j'' ?st = (sessionLive, Some s)" by blast
  have "\<forall>t \<in> set [20 * second, 70 * second]. t \<le> 10 * second + st_ttl ?st"
    by (simp add: register_def newSessionStore_def second_def millisecond_def)
  with conjunct1 [OF touched_session_survives [OF s, of "10 * second"]] show ?thesis
    unfolding Let_def stateOf_def by (metis fst_conv)
qed

end
