(* ===== verification/GoUrl.thy ===== *)
theory GoUrl
  imports Strconv "HOL-Library.Char_ord" "HOL-Library.List_Lexorder"
begin

text \<open>
  The parts of Go's \<^verbatim>\<open>net/url\<close> the program calls: query and path escaping, \<^verbatim>\<open>ParseQuery\<close> and
  \<^verbatim>\<open>Values.Encode\<close>, with the round trip between the two.  Strings are byte strings.  A
  \<^verbatim>\<open>url.Values\<close> is the list of its key-value pairs in the order they were added; two
  lists that agree after the stable sort by key stand for the same map.
\<close>

section \<open>Escaping\<close>

definition unreserved :: "char \<Rightarrow> bool" where
  "unreserved c \<longleftrightarrow> isAlnum c \<or> c \<in> {CHR ''-'', CHR ''_'', CHR ''.'', CHR ''~''}"

definition upperHex :: "nat \<Rightarrow> char" where
  "upperHex d = ''0123456789ABCDEF'' ! d"

definition percent :: "char \<Rightarrow> string" where
  "percent c = [CHR ''%'', upperHex (ord c div 16), upperHex (ord c mod 16)]"

definition QueryEscape :: "string \<Rightarrow> string" where
  "QueryEscape s = concat (map (\<lambda>c.
     if unreserved c then [c] else if c = CHR '' '' then ''+'' else percent c) s)"

text \<open>\<^verbatim>\<open>url.PathEscape\<close> keeps in addition the characters \<^verbatim>\<open>$&+=:@\<close> of a path segment.\<close>

definition PathEscape :: "string \<Rightarrow> string" where
  "PathEscape s = concat (map (\<lambda>c.
     if unreserved c \<or> c \<in> set ''$&+=:@'' then [c] else percent c) s)"

text \<open>\<^verbatim>\<open>QueryUnescape\<close> (\<open>inQuery\<close> set) and \<^verbatim>\<open>PathUnescape\<close>; \<open>None\<close> is the escape error.\<close>

fun unescape :: "bool \<Rightarrow> string \<Rightarrow> string option" where
  "unescape inQuery [] = Some []"
| "unescape inQuery (c # cs) =
     (if c = CHR ''%'' then
        (case cs of
           a # b # r \<Rightarrow>
             (case (hexVal a, hexVal b, unescape inQuery r) of
                (Some x, Some y, Some t) \<Rightarrow> Some (char_of (16 * x + y) # t)
              | _ \<Rightarrow> None)
         | _ \<Rightarrow> None)
      else map_option ((#) (if inQuery \<and> c = CHR ''+'' then CHR '' '' else c)) (unescape inQuery cs))"

abbreviation QueryUnescape :: "string \<Rightarrow> string option" where
  "QueryUnescape \<equiv> unescape True"

abbreviation PathUnescape :: "string \<Rightarrow> string option" where
  "PathUnescape \<equiv> unescape False"

section \<open>Values\<close>

type_synonym url_values = "(string \<times> string) list"

definition valuesGet :: "string \<Rightarrow> url_values \<Rightarrow> string" where
  "valuesGet k q = (case map_of q k of Some v \<Rightarrow> v | None \<Rightarrow> [])"

definition valuesSet :: "string \<Rightarrow> string \<Rightarrow> url_values \<Rightarrow> url_values" where
  "valuesSet k v q = filter (\<lambda>kv. fst kv \<noteq> k) q @ [(k, v)]"

definition encodePair :: "string \<times> string \<Rightarrow> string" where
  "encodePair kv = QueryEscape (fst kv) @ ''='' @ QueryEscape (snd kv)"

definition valuesEncode :: "url_values \<Rightarrow> string" where
  "valuesEncode q = joinWith ''&'' (map encodePair (sort_key fst q))"

text \<open>
  One piece of a query between ampersands: skipped, an error, or a pair.  The partial
  result that Go returns next to an error is the list of the pairs that did parse.
\<close>

datatype piece = PieceSkip | PieceBad | PiecePair string string

definition parsePiece :: "string \<Rightarrow> piece" where
  "parsePiece p =
     (if CHR '';'' \<in> set p then PieceBad
      else if p = [] then PieceSkip
      else case cut p ''='' of (k, v, found) \<Rightarrow>
        (case (QueryUnescape k, QueryUnescape v) of
           (Some k', Some v') \<Rightarrow> PiecePair k' v'
         | _ \<Rightarrow> PieceBad))"

fun piecePairs :: "piece list \<Rightarrow> url_values" where
  "piecePairs [] = []"
| "piecePairs (PiecePair k v # ps) = (k, v) # piecePairs ps"
| "piecePairs (_ # ps) = piecePairs ps"

definition queryPieces :: "string \<Rightarrow> piece list" where
  "queryPieces q = map parsePiece (splitOn (CHR ''&'') q)"

text \<open>\<^verbatim>\<open>URL.Query()\<close> drops the error; \<^verbatim>\<open>ParseQuery\<close> returns it.\<close>

definition parseQueryLax :: "string \<Rightarrow> url_values" where
  "parseQueryLax q = piecePairs (queryPieces q)"

definition ParseQuery :: "string \<Rightarrow> url_values option" where
  "ParseQuery q = (if PieceBad \<in> set (queryPieces q) then None else Some (parseQueryLax q))"

section \<open>Round trips\<close>

lemma upperHex_props:
  assumes "d < 16"
  shows "hexVal (upperHex d) = Some d \<and> upperHex d \<notin> set ''&=;?/#+ '' \<and> upperHex d \<noteq> CHR ''%''"
proof -
  have "d = 0 \<or> d = 1 \<or> d = 2 \<or> d = 3 \<or> d = 4 \<or> d = 5 \<or> d = 6 \<or> d = 7 \<or> d = 8 \<or> d = 9
      \<or> d = 10 \<or> d = 11 \<or> d = 12 \<or> d = 13 \<or> d = 14 \<or> d = 15"
    using assms by arith
  then show ?thesis by (elim disjE) (simp_all add: hexVal_def upperHex_def isDigit_def)
qed

lemma hexVal_upperHex [simp]: "d < 16 \<Longrightarrow> hexVal (upperHex d) = Some d"
  using upperHex_props by blast

lemma ord_div_16 [simp]: "ord c div 16 < 16"
  using ord_less_256 [of c] by linarith

lemma unescape_percent: "unescape inQuery (percent c @ s) = map_option ((#) c) (unescape inQuery s)"
proof -
  have "16 * (ord c div 16) + ord c mod 16 = ord c" by simp
  then show ?thesis by (simp add: percent_def split: option.splits)
qed

lemma unreserved_plain: "unreserved c \<Longrightarrow> c \<notin> set ''&=;?/#+ '' \<and> c \<noteq> CHR ''%''"
  by (auto simp: unreserved_def isAlnum_def isDigit_def isUpper_def isLower_def)

lemma QueryUnescape_QueryEscape [simp]: "QueryUnescape (QueryEscape s) = Some s"
proof (induction s)
  case Nil
  then show ?case by (simp add: QueryEscape_def)
next
  case (Cons c s)
  let ?h = "if unreserved c then [c] else if c = CHR '' '' then ''+'' else percent c"
  have split: "QueryEscape (c # s) = ?h @ QueryEscape s" by (simp add: QueryEscape_def)
  have "QueryUnescape (?h @ r) = map_option ((#) c) (QueryUnescape r)" for r
    using unreserved_plain [of c] by (auto simp: unescape_percent)
  with Cons show ?case unfolding split by simp
qed

lemma PathUnescape_PathEscape [simp]: "PathUnescape (PathEscape s) = Some s"
proof (induction s)
  case Nil
  then show ?case by (simp add: PathEscape_def)
next
  case (Cons c s)
  let ?h = "if unreserved c \<or> c \<in> set ''$&+=:@'' then [c] else percent c"
  have split: "PathEscape (c # s) = ?h @ PathEscape s" by (simp add: PathEscape_def)
  have "PathUnescape (?h @ r) = map_option ((#) c) (PathUnescape r)" for r
    using unreserved_plain [of c] by (auto simp: unescape_percent)
  with Cons show ?case unfolding split by simp
qed

lemma QueryEscape_chars:
  assumes "c \<in> set (QueryEscape s)"
  shows "c \<notin> set ''&=;?/# ''"
proof -
  obtain d where "c \<in> set (if unreserved d then [d] else if d = CHR '' '' then ''+'' else percent d)"
    using assms unfolding QueryEscape_def set_concat set_map by blast
  then show ?thesis
    using unreserved_plain [of d] upperHex_props [of "ord d div 16"] upperHex_props [of "ord d mod 16"]
    by (auto simp: percent_def split: if_splits)
qed

lemma PathEscape_chars:
  assumes "c \<in> set (PathEscape s)"
  shows "c \<notin> set '';?/# ''"
proof -
  obtain d where "c \<in> set (if unreserved d \<or> d \<in> set ''$&+=:@'' then [d] else percent d)"
    using assms unfolding PathEscape_def set_concat set_map by blast
  then show ?thesis
    using unreserved_plain [of d] upperHex_props [of "ord d div 16"] upperHex_props [of "ord d mod 16"]
    by (auto simp: percent_def split: if_splits)
qed

lemma parsePiece_encodePair: "parsePiece (encodePair (k, v)) = PiecePair k v"
proof -
  have no: "CHR ''='' \<notin> set (QueryEscape k)" "CHR '';'' \<notin> set (QueryEscape k)" "CHR '';'' \<notin> set (QueryEscape v)"
    using QueryEscape_chars by auto
  then have "cut (QueryEscape k @ CHR ''='' # QueryEscape v) [CHR ''=''] = (QueryEscape k, QueryEscape v, True)"
    by (intro cut_char_append)
  with no show ?thesis by (simp add: parsePiece_def encodePair_def)
qed

lemma piecePairs_map: "piecePairs (map (\<lambda>(k, v). PiecePair k v) q) = q"
  by (induction q) auto

lemma splitOn_valuesEncode:
  "q \<noteq> [] \<Longrightarrow> splitOn (CHR ''&'') (valuesEncode q) = map encodePair (sort_key fst q)"
proof -
  assume q: "q \<noteq> []"
  have "p \<in> set (map encodePair (sort_key fst q)) \<Longrightarrow> CHR ''&'' \<notin> set p" for p
    using QueryEscape_chars by (fastforce simp: encodePair_def)
  moreover have "map encodePair (sort_key fst q) \<noteq> []"
    using q by (metis length_0_conv length_map length_sort)
  ultimately show ?thesis unfolding valuesEncode_def by (intro splitOn_joinWith) auto
qed

lemma queryPieces_encode:
  assumes "q \<noteq> []"
  shows "queryPieces (valuesEncode q) = map (\<lambda>(k, v). PiecePair k v) (sort_key fst q)"
proof -
  have "queryPieces (valuesEncode q) = map (parsePiece \<circ> encodePair) (sort_key fst q)"
    unfolding queryPieces_def splitOn_valuesEncode [OF assms] by simp
  also have "\<dots> = map (\<lambda>(k, v). PiecePair k v) (sort_key fst q)"
    by (rule map_cong [OF refl]) (auto simp: parsePiece_encodePair)
  finally show ?thesis .
qed

lemma parseQueryLax_encode [simp]: "parseQueryLax (valuesEncode q) = sort_key fst q"
proof (cases "q = []")
  case True
  then show ?thesis by (simp add: parseQueryLax_def queryPieces_def valuesEncode_def parsePiece_def)
next
  case False
  show ?thesis unfolding parseQueryLax_def queryPieces_encode [OF False] by (rule piecePairs_map)
qed

lemma ParseQuery_encode: "ParseQuery (valuesEncode q) = Some (sort_key fst q)"
proof (cases "q = []")
  case True
  then show ?thesis
    by (simp add: ParseQuery_def parseQueryLax_def queryPieces_def valuesEncode_def parsePiece_def)
next
  case False
  have "PieceBad \<notin> set (queryPieces (valuesEncode q))"
    unfolding queryPieces_encode [OF False] by auto
  then show ?thesis by (simp add: ParseQuery_def)
qed

section \<open>Lookup after sorting\<close>

lemma map_of_filter_key: "map_of q k = (case filter (\<lambda>kv. fst kv = k) q of [] \<Rightarrow> None | kv # _ \<Rightarrow> Some (snd kv))"
  by (induction q) auto

lemma map_of_sort_key [simp]: "map_of (sort_key fst q) = map_of q"
proof
  fix k
  have "filter (\<lambda>kv. fst kv = k) (sort_key fst q) = filter (\<lambda>kv. fst kv = k) q"
    by (rule sort_key_stable)
  then show "map_of (sort_key fst q) k = map_of q k"
    unfolding map_of_filter_key by simp
qed

lemma valuesGet_sort [simp]: "valuesGet k (sort_key fst q) = valuesGet k q"
  by (simp add: valuesGet_def)

lemma valuesGet_set [simp]: "valuesGet k (valuesSet k v q) = v"
proof -
  have "map_of (filter (\<lambda>kv. fst kv \<noteq> k) q) k = None" by (auto simp: map_of_eq_None_iff)
  then show ?thesis by (simp add: valuesGet_def valuesSet_def map_add_def)
qed

lemma valuesGet_set_other: "k' \<noteq> k \<Longrightarrow> valuesGet k' (valuesSet k v q) = valuesGet k' q"
proof -
  assume "k' \<noteq> k"
  then have "map_of (filter (\<lambda>kv. fst kv \<noteq> k) q) k' = map_of q k'" by (induction q) auto
  with \<open>k' \<noteq> k\<close> show ?thesis
    by (simp add: valuesGet_def valuesSet_def map_add_def split: option.splits)
qed

lemma valuesEncode_sort [simp]: "valuesEncode (sort_key fst q) = valuesEncode q"
  by (simp add: valuesEncode_def sort_key_id_if_sorted)

end
