(* ===== verification/Authtok.thy ===== *)
theory Authtok
  imports GoUrl Protocol
begin

text \<open>
  \<^verbatim>\<open>internal/authtok/authtok.go\<close>: token files, the bearer middleware and signed media
  URLs.  \<^verbatim>\<open>HMAC-SHA256\<close> and \<^verbatim>\<open>SHA-256\<close> are parameters (\<open>mac\<close>, \<open>digest\<close>); a request is its
  decoded path and its raw query, as \<^verbatim>\<open>net/http\<close> hands it to a handler.
\<close>

section \<open>Tokens\<close>

text \<open>The white space of \<^verbatim>\<open>strings.TrimSpace\<close>, as UTF-8 byte sequences.\<close>

definition byteChars :: "nat list \<Rightarrow> string" where
  "byteChars bs = map char_of bs"

definition spaceSeqs :: "string list" where
  "spaceSeqs = map byteChars
     ([[9], [10], [11], [12], [13], [32], [194, 133], [194, 160], [225, 154, 128],
       [226, 128, 168], [226, 128, 169], [226, 128, 175], [226, 129, 159], [227, 128, 128]] @
      map (\<lambda>b. [226, 128, b]) [128, 129, 130, 131, 132, 133, 134, 135, 136, 137, 138])"

definition leadingSpace :: "string list \<Rightarrow> string \<Rightarrow> nat" where
  "leadingSpace seqs s = (case filter (\<lambda>w. prefix w s) seqs of [] \<Rightarrow> 0 | w # _ \<Rightarrow> length w)"

function trimSeqs :: "string list \<Rightarrow> string \<Rightarrow> string" where
  "trimSeqs seqs s =
     (if leadingSpace seqs s = 0 \<or> s = [] then s else trimSeqs seqs (drop (leadingSpace seqs s) s))"
  by auto
termination by (relation "measure (\<lambda>(seqs, s). length s)") auto

declare trimSeqs.simps [simp del]

definition trimSpace :: "string \<Rightarrow> string" where
  "trimSpace s = rev (trimSeqs (map rev spaceSeqs) (rev (trimSeqs spaceSeqs s)))"

text \<open>\<^verbatim>\<open>LoadToken\<close> on the content of the file; \<open>None\<close> when it cannot be read.\<close>

definition LoadToken :: "string option \<Rightarrow> string option" where
  "LoadToken content =
     (case content of
        None \<Rightarrow> None
      | Some raw \<Rightarrow> let token = trimSpace raw in if token = [] then None else Some token)"

text \<open>\<^verbatim>\<open>MintToken\<close> on the 32 bytes of the random source.\<close>

definition MintToken :: "string option \<Rightarrow> string option" where
  "MintToken random = map_option hexEncode random"

text \<open>\<^verbatim>\<open>Middleware\<close>: whether the request with this \<^verbatim>\<open>Authorization\<close> header reaches the handler.\<close>

definition Middleware :: "(string \<Rightarrow> string) \<Rightarrow> string \<Rightarrow> string \<Rightarrow> bool" where
  "Middleware digest token header =
     (case cutPrefix header ''Bearer '' of
        None \<Rightarrow> False
      | Some got \<Rightarrow> digest got = digest token)"

section \<open>Signed URLs\<close>

record request =
  rq_path :: string
  rq_query :: string

definition restOf :: "url_values \<Rightarrow> url_values" where
  "restOf q = filter (\<lambda>kv. fst kv \<noteq> ''exp'' \<and> fst kv \<noteq> ''sig'') q"

definition canonical :: "string \<Rightarrow> url_values \<Rightarrow> string" where
  "canonical path q = (let rest = restOf q in
     if rest = [] then path else path @ ''?'' @ valuesEncode rest)"

definition signedMessage :: "string \<Rightarrow> url_values \<Rightarrow> string \<Rightarrow> string" where
  "signedMessage path q e = canonical path q @ ''|'' @ e"

definition computeSig :: "(string \<Rightarrow> string \<Rightarrow> string) \<Rightarrow> string \<Rightarrow> string \<Rightarrow> string \<Rightarrow> string" where
  "computeSig mac secret canon e = hexEncode (mac secret (canon @ ''|'' @ e))"

definition SignURL :: "(string \<Rightarrow> string \<Rightarrow> string) \<Rightarrow> string \<Rightarrow> string \<Rightarrow> int \<Rightarrow> string" where
  "SignURL mac secret path expiry =
     (case cut path ''?'' of (rawPath, rawQuery, found) \<Rightarrow>
       let q = (case ParseQuery rawQuery of Some q \<Rightarrow> q | None \<Rightarrow> []);
           e = formatInt expiry;
           sig = computeSig mac secret (canonical rawPath q) e
       in rawPath @ ''?'' @ valuesEncode (valuesSet ''sig'' sig (valuesSet ''exp'' e q)))"

datatype verdict = SigOk | SigMissing | SigBadExp | SigBadHex | SigMismatch | SigExpired

definition VerifySignedQuery :: "(string \<Rightarrow> string \<Rightarrow> string) \<Rightarrow> string \<Rightarrow> int \<Rightarrow> request \<Rightarrow> verdict" where
  "VerifySignedQuery mac secret now r =
     (let q = parseQueryLax (rq_query r); e = valuesGet ''exp'' q; sigHex = valuesGet ''sig'' q in
      if e = [] \<or> sigHex = [] then SigMissing
      else case atoi e of
          None \<Rightarrow> SigBadExp
        | Some expUnix \<Rightarrow>
            (case hexDecode sigHex of
               None \<Rightarrow> SigBadHex
             | Some got \<Rightarrow>
                 if hexDecode (computeSig mac secret (canonical (rq_path r) q) e) \<noteq> Some got then SigMismatch
                 else if now > expUnix then SigExpired
                 else SigOk))"

text \<open>
  What \<^verbatim>\<open>net/http\<close> makes of a request target in origin form: the path before the first
  question mark, percent-decoded, and the rest as raw query.
\<close>

definition parseTarget :: "string \<Rightarrow> request option" where
  "parseTarget u =
     (case cut u ''?'' of (p, q, found) \<Rightarrow>
       map_option (\<lambda>p'. \<lparr>rq_path = p', rq_query = q\<rparr>) (PathUnescape p))"

section \<open>Facts\<close>

lemma canonical_sort [simp]: "canonical path (sort_key fst q) = canonical path q"
proof -
  have "restOf (sort_key fst q) = sort_key fst (restOf q)" by (simp add: restOf_def filter_sort)
  moreover have "sort_key fst (restOf q) = [] \<longleftrightarrow> restOf q = []" by (metis length_0_conv length_sort)
  ultimately show ?thesis by (simp add: canonical_def)
qed

lemma restOf_set: "k \<in> {''exp'', ''sig''} \<Longrightarrow> restOf (valuesSet k v q) = restOf q"
  unfolding restOf_def valuesSet_def by (induction q) auto

lemma canonical_set: "k \<in> {''exp'', ''sig''} \<Longrightarrow> canonical path (valuesSet k v q) = canonical path q"
  unfolding canonical_def by (simp only: restOf_set)

lemma valuesGet_restOf: "k \<noteq> ''exp'' \<Longrightarrow> k \<noteq> ''sig'' \<Longrightarrow> valuesGet k (restOf q) = valuesGet k q"
proof -
  assume k: "k \<noteq> ''exp''" "k \<noteq> ''sig''"
  then have "map_of (restOf q) k = map_of q k" unfolding restOf_def by (induction q) auto
  then show ?thesis by (simp only: valuesGet_def)
qed

lemma takeWhile_before: "b \<notin> set u \<Longrightarrow> takeWhile (\<lambda>c. c \<noteq> b) (u @ b # v) = u"
  by (induction u) auto

lemma last_sep_unique:
  assumes "x @ b # y = x' @ b # y'" "b \<notin> set y" "b \<notin> set y'"
  shows "x = x' \<and> y = y'"
proof -
  have "takeWhile (\<lambda>c. c \<noteq> b) (rev (x @ b # y)) = rev y" "takeWhile (\<lambda>c. c \<noteq> b) (rev (x' @ b # y')) = rev y'"
    using assms(2,3) takeWhile_before [of b "rev y"] takeWhile_before [of b "rev y'"] by simp_all
  then have "y = y'" using assms(1) by (metis rev_rev_ident)
  with assms(1) show ?thesis by simp
qed

lemma first_sep_unique:
  assumes "x @ b # y = x' @ b # y'" "b \<notin> set x" "b \<notin> set x'"
  shows "x = x' \<and> y = y'"
proof -
  have "x = x'"
    using takeWhile_before [OF assms(2), of y] takeWhile_before [OF assms(3), of y'] assms(1) by metis
  with assms(1) show ?thesis by simp
qed

lemma canonical_inj:
  assumes "canonical p q = canonical p' q'" "CHR ''?'' \<notin> set p" "CHR ''?'' \<notin> set p'"
  shows "p = p' \<and> sort_key fst (restOf q) = sort_key fst (restOf q')"
proof -
  have enc: "valuesEncode a = valuesEncode b \<Longrightarrow> sort_key fst a = sort_key fst b" for a b
    by (metis parseQueryLax_encode)
  have full: "restOf a \<noteq> [] \<Longrightarrow> canonical x a = x @ CHR ''?'' # valuesEncode (restOf a)" for x a
    by (simp add: canonical_def)
  have plain: "restOf a = [] \<Longrightarrow> canonical x a = x" for x a
    by (simp add: canonical_def)
  show ?thesis
  proof (cases "restOf q = []")
    case True
    have "restOf q' = []"
    proof (rule ccontr)
      assume "restOf q' \<noteq> []"
      then have "p = p' @ CHR ''?'' # valuesEncode (restOf q')" using assms(1) plain [OF True] full by metis
      then show False using assms(2) by simp
    qed
    with assms(1) True plain show ?thesis by metis
  next
    case False
    have "restOf q' \<noteq> []"
    proof
      assume "restOf q' = []"
      then have "p' = p @ CHR ''?'' # valuesEncode (restOf q)" using assms(1) full [OF False] plain by metis
      then show False using assms(3) by simp
    qed
    then have "p @ CHR ''?'' # valuesEncode (restOf q) = p' @ CHR ''?'' # valuesEncode (restOf q')"
      using assms(1) full False by metis
    from first_sep_unique [OF this assms(2,3)] enc show ?thesis by blast
  qed
qed

lemma atoi_no_bar: "atoi e = Some i \<Longrightarrow> CHR ''|'' \<notin> set e"
  using atoi_chars [of e i "CHR ''|''"] by (auto simp: isDigit_def)

lemma formatInt_nonempty [simp]: "formatInt i \<noteq> []"
  by (simp add: formatInt_def)

lemma parseTarget_plain:
  assumes "CHR ''?'' \<notin> set p" "CHR ''%'' \<notin> set p"
  shows "parseTarget (p @ ''?'' @ q) = Some \<lparr>rq_path = p, rq_query = q\<rparr>"
proof -
  have "PathUnescape p = Some p" using assms(2) by (induction p) auto
  moreover have "cut (p @ ''?'' @ q) ''?'' = (p, q, True)"
    using cut_char_append [OF assms(1), of q] by simp
  ultimately show ?thesis by (simp add: parseTarget_def)
qed

lemma cut_path: "cut path ''?'' = (p, q, b) \<Longrightarrow> CHR ''?'' \<notin> set p"
  by (auto simp: cut_char dest: set_takeWhileD split: if_splits)

text \<open>What a successful verification says of the request.\<close>

lemma VerifySignedQuery_ok:
  assumes "VerifySignedQuery mac secret now r = SigOk"
  shows "\<exists>i. atoi (valuesGet ''exp'' (parseQueryLax (rq_query r))) = Some i \<and> now \<le> i"
    "hexDecode (valuesGet ''sig'' (parseQueryLax (rq_query r))) =
       Some (mac secret (signedMessage (rq_path r) (parseQueryLax (rq_query r))
         (valuesGet ''exp'' (parseQueryLax (rq_query r)))))"
  using assms
  by (auto simp: VerifySignedQuery_def Let_def computeSig_def signedMessage_def split: if_splits option.splits)

section \<open>Properties\<close>

lemma SignURL_request:
  assumes "cut path ''?'' = (rawPath, rawQuery, found)" "CHR ''%'' \<notin> set rawPath"
    and "inInt64 expiry" "\<And>m. mac secret m \<noteq> []"
  shows "\<exists>r. parseTarget (SignURL mac secret path expiry) = Some r \<and> rq_path r = rawPath \<and>
    (\<forall>k q. k \<noteq> ''exp'' \<longrightarrow> k \<noteq> ''sig'' \<longrightarrow> ParseQuery rawQuery = Some q \<longrightarrow>
       valuesGet k (parseQueryLax (rq_query r)) = valuesGet k q) \<and>
    VerifySignedQuery mac secret now r = (if now > expiry then SigExpired else SigOk)"
proof -
  define q where "q = (case ParseQuery rawQuery of Some q \<Rightarrow> q | None \<Rightarrow> [])"
  define sig where "sig = computeSig mac secret (canonical rawPath q) (formatInt expiry)"
  define full where "full = valuesSet ''sig'' sig (valuesSet ''exp'' (formatInt expiry) q)"
  let ?r = "\<lparr>rq_path = rawPath, rq_query = valuesEncode full\<rparr>"
  have url: "SignURL mac secret path expiry = rawPath @ ''?'' @ valuesEncode full"
    by (simp add: SignURL_def assms(1) q_def sig_def full_def Let_def)
  then have target: "parseTarget (SignURL mac secret path expiry) = Some ?r"
    using parseTarget_plain [OF cut_path [OF assms(1)] assms(2)] by simp
  have q': "parseQueryLax (rq_query ?r) = sort_key fst full" by simp
  have get: "valuesGet ''exp'' (sort_key fst full) = formatInt expiry" "valuesGet ''sig'' (sort_key fst full) = sig"
    by (simp_all add: full_def valuesGet_set_other)
  have canon: "canonical rawPath full = canonical rawPath q"
    by (simp add: full_def canonical_set)
  have "sig \<noteq> []" "hexDecode sig = Some (mac secret (canonical rawPath q @ ''|'' @ formatInt expiry))"
    using assms(4) by (simp_all add: sig_def computeSig_def hexEncode_nonempty)
  then have "VerifySignedQuery mac secret now ?r = (if now > expiry then SigExpired else SigOk)"
    unfolding VerifySignedQuery_def q' get Let_def
    by (simp add: canon get atoi_formatInt [OF assms(3)] computeSig_def)
  moreover have "\<forall>k q. k \<noteq> ''exp'' \<longrightarrow> k \<noteq> ''sig'' \<longrightarrow> ParseQuery rawQuery = Some q \<longrightarrow>
      valuesGet k (parseQueryLax (rq_query ?r)) = valuesGet k q"
    unfolding q' by (simp add: full_def q_def valuesGet_set_other)
  ultimately show ?thesis using target by (intro exI [of _ ?r]) simp
qed


text \<open>The MAC of the examples: the message followed by the key.\<close>

definition plainMac :: "string \<Rightarrow> string \<Rightarrow> string" where
  "plainMac secret m = m @ ''|'' @ secret"

lemma plainMac_nonempty: "plainMac secret m \<noteq> []"
  by (simp add: plainMac_def)


definition sigParam :: "request \<Rightarrow> string" where
  "sigParam r = valuesGet ''sig'' (parseQueryLax (rq_query r))"

definition expParam :: "request \<Rightarrow> string" where
  "expParam r = valuesGet ''exp'' (parseQueryLax (rq_query r))"

definition requestMessage :: "request \<Rightarrow> string" where
  "requestMessage r = signedMessage (rq_path r) (parseQueryLax (rq_query r)) (expParam r)"

text \<open>C14: A signature authorises one path, one set of query values and one expiry: two accepted
  requests with the same signature bytes agree on all of them (so that a signed URL cannot
  be turned to another file or a later expiry), unless their messages collide in the MAC.\<close>

theorem signature_binds_request:
  assumes "VerifySignedQuery mac secret now r = SigOk" "VerifySignedQuery mac secret now' r' = SigOk"
    and "hexDecode (sigParam r) = hexDecode (sigParam r')"
    and "mac secret (requestMessage r) = mac secret (requestMessage r') \<Longrightarrow> requestMessage r = requestMessage r'"
    and "CHR ''?'' \<notin> set (rq_path r)" "CHR ''?'' \<notin> set (rq_path r')"
  shows "rq_path r = rq_path r' \<and> expParam r = expParam r' \<and>
    (\<forall>k. k \<noteq> ''exp'' \<longrightarrow> k \<noteq> ''sig'' \<longrightarrow>
       valuesGet k (parseQueryLax (rq_query r)) = valuesGet k (parseQueryLax (rq_query r')))"
proof -
  let ?q = "parseQueryLax (rq_query r)" and ?q' = "parseQueryLax (rq_query r')"
  have "hexDecode (sigParam r) = Some (mac secret (requestMessage r))"
    "hexDecode (sigParam r') = Some (mac secret (requestMessage r'))"
    using VerifySignedQuery_ok(2) [OF assms(1)] VerifySignedQuery_ok(2) [OF assms(2)]
    by (simp_all only: sigParam_def requestMessage_def expParam_def)
  with assms(3,4) have "requestMessage r = requestMessage r'" by simp
  then have eq: "canonical (rq_path r) ?q @ CHR ''|'' # expParam r = canonical (rq_path r') ?q' @ CHR ''|'' # expParam r'"
    by (simp add: requestMessage_def signedMessage_def)
  have bars: "CHR ''|'' \<notin> set (expParam r)" "CHR ''|'' \<notin> set (expParam r')"
    using VerifySignedQuery_ok(1) [OF assms(1)] VerifySignedQuery_ok(1) [OF assms(2)] atoi_no_bar
    unfolding expParam_def by blast+
  have canon: "canonical (rq_path r) ?q = canonical (rq_path r') ?q'" and e: "expParam r = expParam r'"
    using last_sep_unique [OF eq bars] by simp_all
  have path: "rq_path r = rq_path r'" and rest: "sort_key fst (restOf ?q) = sort_key fst (restOf ?q')"
    using canonical_inj [OF canon assms(5,6)] by simp_all
  have "valuesGet k ?q = valuesGet k ?q'" if "k \<noteq> ''exp''" "k \<noteq> ''sig''" for k
    using valuesGet_restOf [OF that] rest valuesGet_sort by metis
  with path e show ?thesis by blast
qed

lemma signature_binds_request_witness:
  "let sig = hexEncode (plainMac ''k'' ''/m?path=a|9''); Sig = map (\<lambda>c. if c = CHR ''f'' then CHR ''F'' else c) sig;
     r = \<lparr>rq_path = ''/m'', rq_query = ''path=a&exp=9&sig='' @ sig\<rparr>;
     r' = \<lparr>rq_path = ''/m'', rq_query = ''exp=9&sig='' @ Sig @ ''&path=%61''\<rparr>
   in sig \<noteq> Sig \<and> VerifySignedQuery plainMac ''k'' 9 r = SigOk \<and> VerifySignedQuery plainMac ''k'' 8 r' = SigOk \<and>
     expParam r = expParam r'"
proof -
  define sig where "sig = hexEncode (plainMac ''k'' ''/m?path=a|9'')"
  define Sig where "Sig = map (\<lambda>c. if c = CHR ''f'' then CHR ''F'' else c) sig"
  define r where "r = \<lparr>rq_path = ''/m'', rq_query = ''path=a&exp=9&sig='' @ sig\<rparr>"
  define r' where "r' = \<lparr>rq_path = ''/m'', rq_query = ''exp=9&sig='' @ Sig @ ''&path=%61''\<rparr>"
  have ok: "sig \<noteq> Sig" "VerifySignedQuery plainMac ''k'' 9 r = SigOk" "VerifySignedQuery plainMac ''k'' 8 r' = SigOk"
    "hexDecode (sigParam r) = hexDecode (sigParam r')"
    unfolding r_def r'_def Sig_def sig_def by code_simp+
  have inj: "plainMac ''k'' m = plainMac ''k'' m' \<Longrightarrow> m = m'" for m m' by (simp add: plainMac_def)
  have "CHR ''?'' \<notin> set (rq_path r)" "CHR ''?'' \<notin> set (rq_path r')" by (simp_all add: r_def r'_def)
  from signature_binds_request [OF ok(2-4) inj this] ok show ?thesis
    unfolding Let_def r_def r'_def Sig_def sig_def by blast
qed

lemma leadingSpace_zero: "[] \<notin> set seqs \<Longrightarrow> leadingSpace seqs s = 0 \<longleftrightarrow> (\<forall>w \<in> set seqs. \<not> prefix w s)"
  by (cases "filter (\<lambda>w. prefix w s) seqs") (auto simp: leadingSpace_def filter_empty_conv filter_eq_Cons_iff)

lemma trimSeqs_suffix: "suffix (trimSeqs seqs s) s"
proof (induction seqs s rule: trimSeqs.induct)
  case (1 seqs s)
  show ?case
  proof (cases "leadingSpace seqs s = 0 \<or> s = []")
    case True
    then show ?thesis by (subst trimSeqs.simps) auto
  next
    case False
    with 1 have "suffix (trimSeqs seqs (drop (leadingSpace seqs s) s)) (drop (leadingSpace seqs s) s)" by blast
    moreover have "trimSeqs seqs s = trimSeqs seqs (drop (leadingSpace seqs s) s)"
      using False by (subst trimSeqs.simps) simp
    ultimately show ?thesis
      using suffix_drop [of "leadingSpace seqs s" s] by (simp add: suffix_order.order_trans)
  qed
qed

lemma trimSeqs_done: "trimSeqs seqs s = [] \<or> leadingSpace seqs (trimSeqs seqs s) = 0"
proof (induction seqs s rule: trimSeqs.induct)
  case (1 seqs s)
  show ?case
  proof (cases "leadingSpace seqs s = 0 \<or> s = []")
    case True
    then have "trimSeqs seqs s = s" by (subst trimSeqs.simps) simp
    with True show ?thesis by auto
  next
    case False
    then have "trimSeqs seqs s = trimSeqs seqs (drop (leadingSpace seqs s) s)"
      by (subst trimSeqs.simps) simp
    with False 1 show ?thesis by simp
  qed
qed

lemma spaceSeqs_nonempty: "[] \<notin> set spaceSeqs" "[] \<notin> set (map rev spaceSeqs)"
  by (simp_all add: spaceSeqs_def byteChars_def)

lemma trimSpace_ends:
  assumes "w \<in> set spaceSeqs" "trimSpace s \<noteq> []"
  shows "\<not> prefix w (trimSpace s) \<and> \<not> suffix w (trimSpace s)"
proof -
  define t where "t = trimSeqs spaceSeqs s"
  define u where "u = trimSeqs (map rev spaceSeqs) (rev t)"
  have trim: "trimSpace s = rev u" by (simp add: trimSpace_def t_def u_def)
  then have "u \<noteq> []" using assms(2) by simp
  then have "leadingSpace (map rev spaceSeqs) u = 0" using trimSeqs_done u_def by metis
  then have "\<not> prefix (rev w) u" using assms(1) leadingSpace_zero [OF spaceSeqs_nonempty(2)] by auto
  then have right: "\<not> suffix w (trimSpace s)" by (simp add: trim suffix_to_prefix)
  have pre: "prefix (trimSpace s) t"
    using trimSeqs_suffix [of "map rev spaceSeqs" "rev t"] by (simp add: trim u_def suffix_to_prefix)
  then have "t \<noteq> []" using assms(2) by auto
  then have "leadingSpace spaceSeqs t = 0" using trimSeqs_done t_def by metis
  then have "\<not> prefix w t" using assms(1) leadingSpace_zero [OF spaceSeqs_nonempty(1)] by auto
  with pre have "\<not> prefix w (trimSpace s)" using prefix_order.order_trans by blast
  with right show ?thesis by blast
qed

lemma LoadToken_Some: "LoadToken content = Some token \<longleftrightarrow> (\<exists>raw. content = Some raw \<and> token = trimSpace raw \<and> token \<noteq> [])"
  by (auto simp: LoadToken_def Let_def split: option.splits)

lemma Middleware_iff: "Middleware digest token header \<longleftrightarrow> (\<exists>got. header = ''Bearer '' @ got \<and> digest got = digest token)"
proof (cases "cutPrefix header ''Bearer ''")
  case None
  have "header \<noteq> ''Bearer '' @ got" for got
    using None cutPrefix_Some [of header "''Bearer ''" got] by (simp only: option.distinct not_False_eq_True)
  then show ?thesis unfolding Middleware_def None by (simp only: option.case) blast
next
  case (Some got)
  then have h: "header = ''Bearer '' @ got" unfolding cutPrefix_Some .
  have "Middleware digest token header \<longleftrightarrow> digest got = digest token"
    unfolding Middleware_def Some by (rule option.case)
  then show ?thesis unfolding h same_append_eq by blast
qed

text \<open>The bearer middleware lets a request through exactly if its header is the scheme followed
  by the token, unless the digests of token and guess collide; a token that \<^verbatim>\<open>LoadToken\<close>
  returned is not empty and has no white space at its ends, and the bare scheme is refused.\<close>

theorem bearer_exact:
  assumes "LoadToken content = Some token"
    and "\<And>got. digest got = digest token \<Longrightarrow> got = token"
  shows "(Middleware digest token header \<longleftrightarrow> header = ''Bearer '' @ token) \<and>
    \<not> Middleware digest token ''Bearer '' \<and>
    (\<forall>w \<in> set spaceSeqs. \<not> prefix w token \<and> \<not> suffix w token)"
proof -
  have tok: "token \<noteq> []" "\<forall>w \<in> set spaceSeqs. \<not> prefix w token \<and> \<not> suffix w token"
    using assms(1) trimSpace_ends unfolding LoadToken_Some by blast+
  have exact: "Middleware digest token h \<longleftrightarrow> h = ''Bearer '' @ token" for h
    unfolding Middleware_iff using assms(2) by blast
  have "\<not> Middleware digest token ''Bearer ''"
    unfolding exact using tok(1) by simp
  with exact tok show ?thesis by blast
qed

lemma bearer_exact_witness:
  "LoadToken (Some (''s3cret'' @ [CHR 0x0A])) = Some ''s3cret'' \<and> Middleware id ''s3cret'' (''Bearer '' @ ''s3cret'') \<and>
     \<not> Middleware id ''s3cret'' ''Bearer ''"
proof -
  have "LoadToken (Some (''s3cret'' @ [CHR 0x0A])) = Some ''s3cret''" by code_simp
  from bearer_exact [OF this, of id "''Bearer '' @ ''s3cret''"] this show ?thesis unfolding id_apply by blast
qed

end
