(* ===== verification/Masterd.thy ===== *)
theory Masterd
  imports SessionStore Authtok
begin

text \<open>
  The segment plane of masterd (\<^verbatim>\<open>handleRegisterSession\<close>, \<^verbatim>\<open>handleDeleteSession\<close> and
  \<^verbatim>\<open>handlePutFile\<close> in \<^verbatim>\<open>internal/masterd/sessions.go\<close>) over a small file system, as a
  transition system: a PUT in flight is a program counter whose moves are the system calls
  and table operations of the handler, so that PUTs interleave with each other, with
  registrations, timers and the reaper, and with PMS removing directories.
\<close>

section \<open>A file system\<close>

text \<open>
  Names point to inodes; an open file keeps its inode when the name goes away.  Only
  what the handler uses: no links, no permissions (those failures are injected).
\<close>

datatype errno = ENOENT | EISDIR | EOTHER

record fsys =
  f_dirs :: "string set"
  f_names :: "string \<Rightarrow> nat option"
  f_data :: "nat \<Rightarrow> string"
  f_next :: nat

definition openTrunc :: "string \<Rightarrow> fsys \<Rightarrow> errno + (nat \<times> fsys)" where
  "openTrunc p fs =
     (if p \<in> f_dirs fs then Inl EISDIR
      else if dir p \<notin> f_dirs fs then Inl ENOENT
      else case f_names fs p of
          Some i \<Rightarrow> Inr (i, fs\<lparr>f_data := (f_data fs)(i := [])\<rparr>)
        | None \<Rightarrow>
            (let i = f_next fs
             in Inr (i, fs\<lparr>f_names := (f_names fs)(p \<mapsto> i), f_data := (f_data fs)(i := []), f_next := Suc i\<rparr>)))"

text \<open>A write at an offset, with a hole of zero bytes if the file was truncated meanwhile.\<close>

definition writeAt :: "nat \<Rightarrow> nat \<Rightarrow> string \<Rightarrow> fsys \<Rightarrow> fsys" where
  "writeAt i off bs fs =
     (let d = f_data fs i; padded = d @ replicate (off - length d) (char_of (0::nat))
      in fs\<lparr>f_data := (f_data fs)(i := take off padded @ bs @ drop (off + length bs) d)\<rparr>)"

definition renameFile :: "string \<Rightarrow> string \<Rightarrow> fsys \<Rightarrow> errno + fsys" where
  "renameFile src dst fs =
     (case f_names fs src of
        None \<Rightarrow> Inl ENOENT
      | Some i \<Rightarrow>
          if dst \<in> f_dirs fs then Inl EISDIR
          else if dir dst \<notin> f_dirs fs then Inl ENOENT
          else Inr (fs\<lparr>f_names := (f_names fs)(src := None, dst := Some i)\<rparr>))"

definition removeFile :: "string \<Rightarrow> fsys \<Rightarrow> fsys" where
  "removeFile p fs = fs\<lparr>f_names := (f_names fs)(p := None)\<rparr>"

definition removeTree :: "string \<Rightarrow> fsys \<Rightarrow> fsys" where
  "removeTree d fs =
     fs\<lparr>f_dirs := {p \<in> f_dirs fs. \<not> atOrUnder d p},
        f_names := (\<lambda>p. if atOrUnder d p then None else f_names fs p)\<rparr>"

section \<open>Handlers\<close>

definition GONE :: HttpReply where "GONE = Reply 410 ''GONE''"

definition safeRelPath :: "string \<Rightarrow> string option" where
  "safeRelPath rel =
     (if rel = [] \<or> CHR 0x00 \<in> set rel \<or> isAbs rel then None
      else let c = clean rel in
        if c = ''.'' \<or> c = ''..'' \<or> hasPrefix c ''../'' then None else Some c)"

text \<open>
  \<^verbatim>\<open>handleRegisterSession\<close> on a decoded body; \<open>minted\<close> is the outcome of \<^verbatim>\<open>MintToken\<close>.
\<close>

definition handleRegisterSession ::
  "(string \<Rightarrow> string) \<Rightarrow> string \<Rightarrow> string \<Rightarrow> string \<Rightarrow> string option \<Rightarrow> int \<Rightarrow> sessionStore \<Rightarrow> HttpReply \<times> sessionStore" where
  "handleRegisterSession digest root jobID targetDir minted now st =
     (if jobID = [] \<or> targetDir = [] then (Reply 400 ''BAD_REQUEST'', st)
      else let target = clean targetDir in
        if \<not> isAbs target \<or> \<not> isUnder root target then (Reply 400 ''BAD_REQUEST'', st)
        else case minted of
            None \<Rightarrow> (Reply 500 ''INTERNAL'', st)
          | Some tok \<Rightarrow> (Reply 200 [], register jobID target (digest tok) now st))"

definition handleDeleteSession :: "string \<Rightarrow> int \<Rightarrow> sessionStore \<Rightarrow> HttpReply \<times> sessionStore" where
  "handleDeleteSession jobID now st = (Reply 204 [], closeSession jobID now st)"

text \<open>The checks of \<^verbatim>\<open>handlePutFile\<close> before it opens a file: an answer, or tmp and final name.\<close>

definition putAdmit ::
  "(string \<Rightarrow> string) \<Rightarrow> sessionStore \<Rightarrow> string \<Rightarrow> string \<Rightarrow> string \<Rightarrow> HttpReply + (string \<times> string)" where
  "putAdmit digest st jobID auth relpath =
     (case lookup jobID st of
        (sessionLive, Some sess) \<Rightarrow>
          (case cutPrefix auth ''Bearer '' of
             None \<Rightarrow> Inl (Reply 401 ''UNAUTHORIZED'')
           | Some presented \<Rightarrow>
               if \<not> tokenMatches digest sess presented then Inl (Reply 401 ''UNAUTHORIZED'')
               else case safeRelPath relpath of
                   None \<Rightarrow> Inl (Reply 400 ''BAD_REQUEST'')
                 | Some rel \<Rightarrow>
                     (let final = joinPath [ss_targetDir sess, rel] in
                      if \<not> isUnder (ss_targetDir sess) final then Inl (Reply 400 ''BAD_REQUEST'')
                      else Inr (final @ tmpSuffix, final)))
      | _ \<Rightarrow> Inl GONE)"

section \<open>The system\<close>

datatype putpc =
    PutStart
  | PutOpen string string           \<comment> \<open>tmp and final name are known\<close>
  | PutCopy string string nat nat   \<comment> \<open>inode and bytes written\<close>
  | PutRename string string nat     \<comment> \<open>copied and closed\<close>
  | PutCleanup string HttpReply     \<comment> \<open>about to remove tmp\<close>
  | PutTouch                        \<comment> \<open>renamed\<close>
  | PutDirGone                      \<comment> \<open>\<^verbatim>\<open>putAfterDirRemoved\<close>\<close>
  | PutDone HttpReply

record put =
  p_id :: string
  p_auth :: string
  p_rel :: string
  p_body :: string
  p_pc :: putpc
  p_stored :: "string option"   \<comment> \<open>trace: the content of the final name when it was renamed\<close>

record masterd =
  m_store :: sessionStore
  m_fs :: fsys
  m_puts :: "put list"

datatype maction =
    MRegister string string "string option" int
  | MDelete string int
  | MTimer nat int
  | MReap int
  | MRemoveTree string                   \<comment> \<open>PMS removes a directory\<close>
  | MArrive string string string string  \<comment> \<open>a PUT: id, Authorization, relpath, body\<close>
  | MStep nat int                        \<comment> \<open>PUT \<open>i\<close> makes its next move\<close>
  | MWrite nat nat                       \<comment> \<open>PUT \<open>i\<close> copies up to \<open>n\<close> more bytes\<close>
  | MFail nat                            \<comment> \<open>an I/O error hits PUT \<open>i\<close>\<close>

definition setPc :: "nat \<Rightarrow> putpc \<Rightarrow> masterd \<Rightarrow> masterd" where
  "setPc i pc m = m\<lparr>m_puts := (m_puts m)[i := (m_puts m ! i)\<lparr>p_pc := pc\<rparr>]\<rparr>"

definition putStep :: "(string \<Rightarrow> string) \<Rightarrow> nat \<Rightarrow> int \<Rightarrow> masterd \<Rightarrow> masterd option" where
  "putStep digest i now m =
     (let p = m_puts m ! i; fs = m_fs m in
      case p_pc p of
        PutStart \<Rightarrow>
          (case putAdmit digest (m_store m) (p_id p) (p_auth p) (p_rel p) of
             Inl reply \<Rightarrow> Some (setPc i (PutDone reply) m)
           | Inr (tmp, final) \<Rightarrow> Some (setPc i (PutOpen tmp final) m))
      | PutOpen tmp final \<Rightarrow>
          (case openTrunc tmp fs of
             Inr (ino, fs') \<Rightarrow> Some (setPc i (PutCopy tmp final ino 0) (m\<lparr>m_fs := fs'\<rparr>))
           | Inl ENOENT \<Rightarrow> Some (setPc i PutDirGone m)
           | Inl _ \<Rightarrow> Some (setPc i (PutDone (Reply 500 ''INTERNAL'')) m))
      | PutCopy tmp final ino off \<Rightarrow>
          if off = length (p_body p) then Some (setPc i (PutRename tmp final ino) m) else None
      | PutRename tmp final ino \<Rightarrow>
          (case renameFile tmp final fs of
             Inr fs' \<Rightarrow>
               Some (m\<lparr>m_fs := fs', m_puts := (m_puts m)[i := p\<lparr>p_pc := PutTouch,
                 p_stored := map_option (f_data fs') (f_names fs' final)\<rparr>]\<rparr>)
           | Inl ENOENT \<Rightarrow> Some (setPc i (PutCleanup tmp GONE) m)
           | Inl _ \<Rightarrow> Some (setPc i (PutCleanup tmp (Reply 500 ''INTERNAL'')) m))
      | PutCleanup tmp reply \<Rightarrow>
          Some (setPc i (if reply = GONE then PutDirGone else PutDone reply) (m\<lparr>m_fs := removeFile tmp fs\<rparr>))
      | PutTouch \<Rightarrow>
          Some (setPc i (PutDone (Reply 200 [])) (m\<lparr>m_store := touch (p_id p) now (m_store m)\<rparr>))
      | PutDirGone \<Rightarrow>
          Some (setPc i (PutDone GONE) (m\<lparr>m_store := tombstone (p_id p) now (m_store m)\<rparr>))
      | PutDone reply \<Rightarrow> None)"

definition putWrite :: "nat \<Rightarrow> nat \<Rightarrow> masterd \<Rightarrow> masterd option" where
  "putWrite i n m =
     (let p = m_puts m ! i in
      case p_pc p of
        PutCopy tmp final ino off \<Rightarrow>
          let bs = take n (drop off (p_body p)) in
          Some (setPc i (PutCopy tmp final ino (off + length bs)) (m\<lparr>m_fs := writeAt ino off bs (m_fs m)\<rparr>))
      | _ \<Rightarrow> None)"

text \<open>An open that fails for another reason, a read of the body or a write that fails, a failed rename.\<close>

definition putFail :: "nat \<Rightarrow> masterd \<Rightarrow> masterd option" where
  "putFail i m =
     (case p_pc (m_puts m ! i) of
        PutOpen tmp final \<Rightarrow> Some (setPc i (PutDone (Reply 500 ''INTERNAL'')) m)
      | PutCopy tmp final ino off \<Rightarrow> Some (setPc i (PutCleanup tmp (Reply 500 ''INTERNAL'')) m)
      | PutRename tmp final ino \<Rightarrow> Some (setPc i (PutCleanup tmp (Reply 500 ''INTERNAL'')) m)
      | _ \<Rightarrow> None)"

fun mstep :: "(string \<Rightarrow> string) \<Rightarrow> string \<Rightarrow> maction \<Rightarrow> masterd \<Rightarrow> masterd option" where
  "mstep digest root (MRegister jobID d minted now) m =
     Some (m\<lparr>m_store := snd (handleRegisterSession digest root jobID d minted now (m_store m))\<rparr>)"
| "mstep digest root (MDelete jobID now) m = Some (m\<lparr>m_store := snd (handleDeleteSession jobID now (m_store m))\<rparr>)"
| "mstep digest root (MTimer k now) m = map_option (\<lambda>st. m\<lparr>m_store := st\<rparr>) (fireTimer k now (m_store m))"
| "mstep digest root (MReap now) m = Some (m\<lparr>m_store := reap now (m_store m)\<rparr>)"
| "mstep digest root (MRemoveTree d) m = Some (m\<lparr>m_fs := removeTree d (m_fs m)\<rparr>)"
| "mstep digest root (MArrive jobID auth rel body) m =
     Some (m\<lparr>m_puts := m_puts m @ [\<lparr>p_id = jobID, p_auth = auth, p_rel = rel, p_body = body,
        p_pc = PutStart, p_stored = None\<rparr>]\<rparr>)"
| "mstep digest root (MStep i now) m = (if i < length (m_puts m) then putStep digest i now m else None)"
| "mstep digest root (MWrite i n) m = (if i < length (m_puts m) then putWrite i n m else None)"
| "mstep digest root (MFail i) m = (if i < length (m_puts m) then putFail i m else None)"

definition initMasterd :: "int \<Rightarrow> fsys \<Rightarrow> masterd" where
  "initMasterd ttl fs = \<lparr>m_store = newSessionStore ttl, m_fs = fs, m_puts = []\<rparr>"

end
