(* ===== verification/PutConfined.thy ===== *)
theory PutConfined
  imports Masterd
begin

text \<open>
  Where masterd writes: a session's directory lies strictly below the transcode root, a
  segment upload stays below its session's directory, and no interleaving of requests
  changes anything else (\<^verbatim>\<open>safeRelPath\<close>, \<^verbatim>\<open>isUnder\<close>, \<^verbatim>\<open>handlePutFile\<close> of
  \<^verbatim>\<open>internal/masterd\<close>).
\<close>

section \<open>Confinement\<close>

lemma isUnder_append: "isUnder r p \<Longrightarrow> isUnder r (p @ s)"
proof (cases "r = ''/''")
  case True
  assume "isUnder r p"
  with True have p: "p \<noteq> ''/''" "prefix ''/'' p" by (simp_all add: isUnder_def)
  then obtain t where "p = CHR ''/'' # t" by (auto simp: prefix_def)
  with p True show ?thesis by (cases t) (simp_all add: isUnder_def)
next
  case False
  assume "isUnder r p"
  with False show ?thesis by (simp add: isUnder_def)
qed

lemma clean_idem_rel:
  assumes "safeRelPath rel = Some c"
  shows "\<exists>ps. properComps ps \<and> ps \<noteq> [] \<and> c = joinWith ''/'' ps"
proof -
  have rel: "rel \<noteq> []" "\<not> isAbs rel" "c = clean rel" "c \<noteq> ''.''" "\<not> escapes (clean rel)"
    using assms by (auto simp: safeRelPath_def Let_def escapes_def split: if_splits)
  from clean_rel_proper [OF rel(1,2,5)] obtain ps
    where "properComps ps" "clean rel = (if ps = [] then ''.'' else joinWith ''/'' ps)" by blast
  with rel(3,4) show ?thesis by (metis (full_types))
qed

text \<open>The second check of \<^verbatim>\<open>handlePutFile\<close> never fires.\<close>

lemma safeRelPath_under:
  assumes "cleanAbs target" "safeRelPath rel = Some c"
  shows "isUnder target (joinPath [target, c])"
proof -
  from clean_idem_rel [OF assms(2)] obtain ps where "properComps ps" "ps \<noteq> []" "c = joinWith ''/'' ps" by blast
  with isUnder_joinPath(1) [OF assms(1)] show ?thesis by simp
qed

definition storeConfined :: "string \<Rightarrow> sessionStore \<Rightarrow> bool" where
  "storeConfined root st \<longleftrightarrow> (\<forall>jobID s. st_sessions st jobID = Some s \<longrightarrow>
     cleanAbs (ss_targetDir s) \<and> isUnder root (ss_targetDir s))"

lemma isAbs_clean_iff: "isAbs (clean d) \<longleftrightarrow> isAbs d"
proof
  assume a: "isAbs (clean d)"
  show "isAbs d"
  proof (rule ccontr)
    assume rel: "\<not> isAbs d"
    have noslash: "c \<in> set (splitOn CHR ''/'' d) \<Longrightarrow> CHR ''/'' \<notin> set c" for c by (rule splitOn_no_sep)
    obtain k ps where cs: "cleanComps False [] (splitOn CHR ''/'' d) = replicate k ''..'' @ ps" "properComps ps"
      using cleanComps_rel_shape [of "[]" "[]" 0 "splitOn CHR ''/'' d", simplified] noslash by blast
    have comp: "c \<noteq> [] \<and> CHR ''/'' \<notin> set c" if "c \<in> set (replicate k ''..'' @ ps)" for c
    proof -
      have "c = ''..'' \<or> properComp c" using that cs(2) unfolding list_all_iff by (metis Un_iff in_set_replicate set_append)
      then show ?thesis by (auto simp: properComp_def)
    qed
    have "joinWith ''/'' (replicate k ''..'' @ ps) = [] \<or> hd (joinWith ''/'' (replicate k ''..'' @ ps)) \<noteq> CHR ''/''"
    proof (cases "replicate k ''..'' @ ps")
      case (Cons c r)
      with comp [of c] obtain x xs where "c = x # xs" "x \<noteq> CHR ''/''" by (cases c) auto
      then show ?thesis unfolding Cons by (cases r) auto
    qed simp
    then have "\<not> isAbs (clean d)"
      using rel by (auto simp: clean_def Let_def cs(1) isAbs_def prefix_def)
    with a show False by simp
  qed
qed simp

lemma storeConfined_tombstone: "storeConfined root st \<Longrightarrow> storeConfined root (tombstone jobID now st)"
  by (auto simp: storeConfined_def tombstone_def split: option.splits)

lemma storeConfined_timers [simp]: "storeConfined root (st\<lparr>st_timers := ts\<rparr>) = storeConfined root st"
  by (simp add: storeConfined_def)

lemma storeConfined_timer: "storeConfined root st \<Longrightarrow> fireTimer k now st = Some st' \<Longrightarrow> storeConfined root st'"
  by (auto simp: fireTimer_def intro!: storeConfined_tombstone split: if_splits)

lemma storeConfined_others:
  assumes "storeConfined root st"
  shows "storeConfined root (touch jobID now st)" "storeConfined root (closeSession jobID now st)"
    "storeConfined root (reap now st)"
  using assms by (auto simp: storeConfined_def store_ops split: option.splits if_splits)

lemma storeConfined_register:
  assumes "storeConfined root st"
  shows "storeConfined root (snd (handleRegisterSession digest root jobID d minted now st))"
  using assms cleanAbs_clean [of d]
  by (auto simp: storeConfined_def handleRegisterSession_def register_def Let_def isAbs_clean_iff split: option.splits)

text \<open>The names a PUT in flight may write or remove.\<close>

fun putPaths :: "putpc \<Rightarrow> string list" where
  "putPaths (PutOpen tmp final) = [tmp, final]"
| "putPaths (PutCopy tmp final ino off) = [tmp, final]"
| "putPaths (PutRename tmp final ino) = [tmp, final]"
| "putPaths (PutCleanup tmp reply) = [tmp]"
| "putPaths _ = []"

definition pathsUnder :: "string \<Rightarrow> putpc \<Rightarrow> bool" where
  "pathsUnder root pc \<longleftrightarrow> (\<forall>x \<in> set (putPaths pc). isUnder root x)"

text \<open>What the file system may have become, from its initial state.\<close>

definition fsConfined :: "fsys \<Rightarrow> string \<Rightarrow> fsys \<Rightarrow> bool" where
  "fsConfined fs0 root fs \<longleftrightarrow> f_dirs fs \<subseteq> f_dirs fs0 \<and>
     (\<forall>p i. \<not> isUnder root p \<longrightarrow> f_names fs p = Some i \<longrightarrow> f_names fs0 p = Some i)"

definition confined :: "fsys \<Rightarrow> string \<Rightarrow> masterd \<Rightarrow> bool" where
  "confined fs0 root m \<longleftrightarrow> storeConfined root (m_store m) \<and> fsConfined fs0 root (m_fs m) \<and>
     (\<forall>p \<in> set (m_puts m). pathsUnder root (p_pc p))"

lemma fsConfined_ops:
  assumes "fsConfined fs0 root fs"
  shows "openTrunc p fs = Inr (i, fs') \<Longrightarrow> isUnder root p \<Longrightarrow> fsConfined fs0 root fs'"
    "fsConfined fs0 root (writeAt i off bs fs)"
    "renameFile p q fs = Inr fs' \<Longrightarrow> isUnder root p \<Longrightarrow> isUnder root q \<Longrightarrow> fsConfined fs0 root fs'"
    "fsConfined fs0 root (removeFile p fs)" "fsConfined fs0 root (removeTree d fs)"
  using assms
  by (auto simp: fsConfined_def openTrunc_def writeAt_def renameFile_def removeFile_def removeTree_def Let_def
      split: if_splits option.splits)

lemma putAdmit_under:
  assumes "putAdmit digest st jobID auth rel = Inr (tmp, final)" "storeConfined root st" "cleanAbs root"
  shows "isUnder root tmp \<and> isUnder root final \<and> tmp = final @ tmpSuffix"
proof -
  obtain sess c where s: "st_sessions st jobID = Some sess" "safeRelPath rel = Some c"
      "final = joinPath [ss_targetDir sess, c]" "tmp = final @ tmpSuffix"
    using assms(1)
    by (auto simp: putAdmit_def lookup_def Let_def split: sessionState.splits option.splits if_splits)
  then have t: "cleanAbs (ss_targetDir sess)" "isUnder root (ss_targetDir sess)"
    using assms(2) by (auto simp: storeConfined_def)
  obtain ps where ps: "properComps ps" "ps \<noteq> []" "c = joinWith ''/'' ps"
    using clean_idem_rel [OF s(2)] by blast
  have "isUnder (ss_targetDir sess) final" "cleanAbs final"
    using isUnder_joinPath [OF t(1) ps(1,2)] s(3) ps(3) by simp_all
  then have "isUnder root final" using isUnder_trans [OF assms(3) t(1)] t(2) by blast
  with s(4) isUnder_append show ?thesis by blast
qed

lemma confined_setPc:
  assumes "confined fs0 root m" "pathsUnder root pc" "fsConfined fs0 root fs" "storeConfined root st"
  shows "confined fs0 root (setPc i pc (m\<lparr>m_fs := fs\<rparr>))" "confined fs0 root (setPc i pc (m\<lparr>m_store := st\<rparr>))"
    "confined fs0 root (setPc i pc m)"
  using assms
  by (auto simp: confined_def setPc_def dest!: set_update_subset_insert [THEN subsetD])

lemma putStep_confined:
  assumes "confined fs0 root m" "putStep digest i now m = Some m'" "i < length (m_puts m)" "cleanAbs root"
  shows "confined fs0 root m'"
proof -
  let ?p = "m_puts m ! i"
  have inv: "storeConfined root (m_store m)" "fsConfined fs0 root (m_fs m)" "pathsUnder root (p_pc ?p)"
    using assms(1,3) by (auto simp: confined_def)
  note rules = confined_setPc [OF assms(1)]
  show ?thesis
  proof (cases "p_pc ?p")
    case PutStart
    with assms(2) inv putAdmit_under [OF _ inv(1) assms(4)] show ?thesis
      by (auto simp: putStep_def Let_def pathsUnder_def intro!: rules split: sum.splits)
  next
    case (PutOpen tmp final)
    with assms(2) inv fsConfined_ops(1) [OF inv(2)] show ?thesis
      by (auto simp: putStep_def Let_def pathsUnder_def intro!: rules split: sum.splits errno.splits)
  next
    case (PutCopy tmp final ino off)
    with assms(2) inv show ?thesis
      by (auto simp: putStep_def Let_def pathsUnder_def intro!: rules split: if_splits)
  next
    case (PutRename tmp final ino)
    show ?thesis
    proof (cases "renameFile tmp final (m_fs m)")
      case (Inl e)
      with assms(2) PutRename inv show ?thesis
        by (auto simp: putStep_def Let_def pathsUnder_def intro!: rules split: errno.splits)
    next
      case (Inr fs')
      then have "fsConfined fs0 root fs'"
        using fsConfined_ops(3) [OF inv(2)] inv(3) PutRename by (auto simp: pathsUnder_def)
      with assms(1,2) PutRename Inr show ?thesis
        by (auto simp: putStep_def Let_def confined_def pathsUnder_def dest!: set_update_subset_insert [THEN subsetD])
    qed
  next
    case (PutCleanup tmp reply)
    with assms(2) inv fsConfined_ops(4) [OF inv(2)] show ?thesis
      by (auto simp: putStep_def Let_def pathsUnder_def intro!: rules)
  next
    case PutTouch
    with assms(2) inv storeConfined_others show ?thesis
      by (auto simp: putStep_def Let_def pathsUnder_def intro!: rules)
  next
    case PutDirGone
    with assms(2) inv storeConfined_tombstone show ?thesis
      by (auto simp: putStep_def Let_def pathsUnder_def intro!: rules)
  qed (use assms in \<open>auto simp: putStep_def Let_def\<close>)
qed

lemma mstep_confined:
  assumes "cleanAbs root" "confined fs0 root m" "mstep digest root a m = Some m'"
  shows "confined fs0 root m'"
proof (cases a)
  case (MStep i now)
  with assms putStep_confined show ?thesis by (auto split: if_splits)
next
  case (MWrite i n)
  with assms have i: "i < length (m_puts m)" "putWrite i n m = Some m'" by (auto split: if_splits)
  with assms(2) have inv: "pathsUnder root (p_pc (m_puts m ! i))" "storeConfined root (m_store m)"
    "fsConfined fs0 root (writeAt ino off bs (m_fs m))" for ino off bs
    using fsConfined_ops(2) by (auto simp: confined_def)
  obtain tmp final ino off where pc: "p_pc (m_puts m ! i) = PutCopy tmp final ino off"
    using i(2) by (auto simp: putWrite_def Let_def split: putpc.splits)
  have "pathsUnder root (PutCopy tmp final ino off')" for off'
    using inv(1) pc by (simp add: pathsUnder_def)
  from confined_setPc(1) [OF assms(2) this inv(3) inv(2)] show ?thesis
    using i(2) pc by (auto simp: putWrite_def Let_def)
next
  case (MFail i)
  with assms have i: "i < length (m_puts m)" "putFail i m = Some m'" by (auto split: if_splits)
  with assms(2) have inv: "pathsUnder root (p_pc (m_puts m ! i))" "storeConfined root (m_store m)"
    "fsConfined fs0 root (m_fs m)" by (auto simp: confined_def)
  note rule = confined_setPc(3) [OF assms(2) _ inv(3) inv(2)]
  show ?thesis
    using i(2) inv(1) by (auto simp: putFail_def pathsUnder_def intro!: rule split: putpc.splits)
next
  case (MTimer k now)
  with assms(3) obtain st where "fireTimer k now (m_store m) = Some st" "m' = m\<lparr>m_store := st\<rparr>" by auto
  with assms(2) storeConfined_timer [of root "m_store m" k now st] show ?thesis by (simp add: confined_def)
next
  case (MRegister jobID d minted now)
  with assms storeConfined_register show ?thesis by (auto simp: confined_def)
next
  case (MDelete jobID now)
  with assms storeConfined_others show ?thesis by (auto simp: confined_def handleDeleteSession_def)
next
  case (MReap now)
  with assms storeConfined_others show ?thesis by (auto simp: confined_def)
next
  case (MRemoveTree d)
  with assms fsConfined_ops(5) show ?thesis by (auto simp: confined_def)
next
  case (MArrive jobID auth rel body)
  with assms show ?thesis by (auto simp: confined_def pathsUnder_def)
qed

lemma confined_init: "confined fs root (initMasterd ttl fs)"
  by (simp add: confined_def initMasterd_def storeConfined_def newSessionStore_def fsConfined_def)

interpretation confinement: invariant_of "mstep digest root"
    "\<lambda>m. cleanAbs root \<and> (\<exists>ttl. m = initMasterd ttl fs0)" "\<lambda>m. cleanAbs root \<and> confined fs0 root m"
  for digest root fs0
proof
  show "cleanAbs root \<and> (\<exists>ttl. m = initMasterd ttl fs0) \<Longrightarrow> cleanAbs root \<and> confined fs0 root m" for m
    using confined_init by blast
  show "cleanAbs root \<and> confined fs0 root m \<Longrightarrow> mstep digest root a m = Some m' \<Longrightarrow> cleanAbs root \<and> confined fs0 root m'"
    for m a m' using mstep_confined by blast
qed

text \<open>C7: Whatever requests come in whatever order, masterd creates, replaces or removes files strictly
  below the transcode root only, and never creates a directory (it cannot resurrect a
  session directory that PMS removed): a name outside the root still points to the file it
  pointed to at the start, if it is there at all.\<close>

theorem put_confined:
  assumes "cleanAbs root" "reachable (mstep digest root) (initMasterd ttl fs0) m"
  shows "f_dirs (m_fs m) \<subseteq> f_dirs fs0 \<and>
    (\<forall>p i. \<not> isUnder root p \<longrightarrow> f_names (m_fs m) p = Some i \<longrightarrow> f_names fs0 p = Some i)"
proof -
  have "confined fs0 root m" using confinement.inv_reachable [OF _ assms(2)] assms(1) by blast
  then show ?thesis by (simp add: confined_def fsConfined_def)
qed

text \<open>A master with one session and one file outside the transcode root.\<close>

definition demoFs :: fsys where
  "demoFs = \<lparr>f_dirs = {''/'', ''/t'', ''/t/s''}, f_names = [''/etc'' \<mapsto> 0], f_data = (\<lambda>_. []), f_next = 1\<rparr>"

lemma dir_demo [simp]: "GoPath.dir ''/t/s/a.ts.prt-tmp'' = ''/t/s''" "GoPath.dir ''/t/s/a.ts'' = ''/t/s''"
  by code_simp+

lemma putAdmit_demo:
  "putAdmit digest (register ''j'' ''/t/s'' (digest ''k'') 0 st) ''j'' ''Bearer k'' ''a.ts'' =
     Inr (''/t/s/a.ts.prt-tmp'', ''/t/s/a.ts'')"
proof -
  have "safeRelPath ''a.ts'' = Some ''a.ts''" "joinPath [''/t/s'', ''a.ts''] = ''/t/s/a.ts''"
    "isUnder ''/t/s'' ''/t/s/a.ts''" "cutPrefix ''Bearer k'' ''Bearer '' = Some ''k''"
    "''/t/s/a.ts'' @ tmpSuffix = ''/t/s/a.ts.prt-tmp''"
    by code_simp+
  then show ?thesis
    by (simp add: putAdmit_def lookup_def register_def tokenMatches_def Let_def del: append_Cons append_Nil)
qed

lemma register_demo:
  "handleRegisterSession digest ''/t'' ''j'' ''/t/s'' (Some ''k'') 0 st =
     (Reply 200 [], register ''j'' ''/t/s'' (digest ''k'') 0 st)"
proof -
  have "GoPath.clean ''/t/s'' = ''/t/s''" "isAbs ''/t/s''" "isUnder ''/t'' ''/t/s''" by code_simp+
  then show ?thesis by (simp add: handleRegisterSession_def)
qed

definition demoPut :: "maction list" where
  "demoPut = [MRegister ''j'' ''/t/s'' (Some ''k'') 0, MArrive ''j'' ''Bearer k'' ''a.ts'' ''xy'', MStep 0 1,
     MStep 0 1, MWrite 0 1, MWrite 0 5, MStep 0 1, MStep 0 1, MStep 0 1]"

lemmas put_defs = putStep_def putWrite_def setPc_def openTrunc_def renameFile_def writeAt_def removeFile_def Let_def

lemma run_demo:
  "\<exists>m. run_actions (mstep digest ''/t'') demoPut (initMasterd ttl demoFs) = Some m \<and>
     map p_pc (m_puts m) = [PutDone (Reply 200 [])] \<and> f_names (m_fs m) ''/t/s/a.ts'' = Some 1 \<and>
     f_data (m_fs m) 1 = ''xy'' \<and> f_names (m_fs m) ''/t/s/a.ts.prt-tmp'' = None \<and> f_names (m_fs m) ''/etc'' = Some 0 \<and>
     map p_stored (m_puts m) = [Some ''xy'']"
  by (simp add: demoPut_def initMasterd_def register_demo putAdmit_demo put_defs demoFs_def)

lemma put_confined_witness:
  "\<exists>m. run_actions (mstep id ''/t'') demoPut (initMasterd (60 * second) demoFs) = Some m \<and>
     f_dirs (m_fs m) \<subseteq> {''/'', ''/t'', ''/t/s''} \<and> (f_names (m_fs m) ''/etc'' = Some 0)"
proof -
  obtain m where m: "run_actions (mstep id ''/t'') demoPut (initMasterd (60 * second) demoFs) = Some m"
      "f_names (m_fs m) ''/etc'' = Some 0" using run_demo by blast
  have "cleanAbs ''/t''" by code_simp
  from put_confined [OF this run_actions_reachable [OF m(1)]] m show ?thesis by (simp add: demoFs_def)
qed

end
