(* ===== verification/PutAck.thy ===== *)
theory PutAck
  imports PutConfined
begin

text \<open>
  The acknowledgement of segment uploads (\<^verbatim>\<open>handlePutFile\<close>, \<^verbatim>\<open>putAfterDirRemoved\<close> of
  \<^verbatim>\<open>internal/masterd/sessions.go\<close>): late pushes are refused without effect, a 200 means the
  body is stored when uploads do not overlap on a name, and what goes wrong when they do.
\<close>

section \<open>Late pushes\<close>

lemma handleRegister_state:
  "jobID \<noteq> jobID' \<Longrightarrow> stateOf (snd (handleRegisterSession digest root jobID' d minted now st)) jobID = stateOf st jobID"
  by (auto simp: handleRegisterSession_def stateOf_register Let_def split: option.splits)

fun registersId :: "string \<Rightarrow> maction \<Rightarrow> bool" where
  "registersId jobID (MRegister jobID' d minted now) = (jobID = jobID')"
| "registersId jobID _ = False"

lemma setPc_store [simp]: "m_store (setPc i pc m) = m_store m" "m_fs (setPc i pc m) = m_fs m"
  by (simp_all add: setPc_def)

lemma not_live_timer: "stateOf st jobID \<noteq> sessionLive \<Longrightarrow> fireTimer k now st = Some st' \<Longrightarrow> stateOf st' jobID \<noteq> sessionLive"
  by (auto simp: fireTimer_def stateOf_tombstone split: if_splits)

lemma not_live_reap: "stateOf st jobID \<noteq> sessionLive \<Longrightarrow> stateOf (reap now st) jobID \<noteq> sessionLive"
  using stateOf_reap [of st jobID now] by (auto elim: sessionLife_falseE)

lemma mstep_not_live:
  assumes "mstep digest root a m = Some m'" "stateOf (m_store m) jobID \<noteq> sessionLive" "\<not> registersId jobID a"
  shows "stateOf (m_store m') jobID \<noteq> sessionLive"
proof (cases a)
  case (MStep i now)
  with assms have "putStep digest i now m = Some m'" by (auto split: if_splits)
  then have "m_store m' = m_store m \<or> (\<exists>id. m_store m' = touch id now (m_store m)) \<or>
      (\<exists>id. m_store m' = tombstone id now (m_store m))"
    by (auto simp: putStep_def Let_def split: putpc.splits sum.splits errno.splits if_splits)
  with assms(2) show ?thesis by (auto simp: stateOf_tombstone)
next
  case (MWrite i n)
  with assms show ?thesis by (auto simp: putWrite_def Let_def split: if_splits putpc.splits)
next
  case (MFail i)
  with assms show ?thesis by (auto simp: putFail_def split: if_splits putpc.splits)
next
  case (MTimer k now)
  with assms not_live_timer show ?thesis by auto
next
  case (MReap now)
  with assms not_live_reap show ?thesis by auto
next
  case (MRegister jobID' d minted now)
  with assms handleRegister_state show ?thesis by auto
qed (use assms in \<open>auto simp: handleDeleteSession_def\<close>)

lemma mrun_not_live:
  assumes "run_actions (mstep digest root) as m = Some m'" "stateOf (m_store m) jobID \<noteq> sessionLive"
    and "\<forall>a \<in> set as. \<not> registersId jobID a"
  shows "stateOf (m_store m') jobID \<noteq> sessionLive"
  using assms
proof (induction as arbitrary: m)
  case (Cons a as)
  then obtain u where u: "mstep digest root a m = Some u" "run_actions (mstep digest root) as u = Some m'"
    by (auto split: option.splits)
  from mstep_not_live [OF u(1) Cons.prems(2)] Cons.prems(3) Cons.IH [OF u(2)] show ?case by simp
qed simp

lemma putAdmit_not_live: "stateOf st jobID \<noteq> sessionLive \<Longrightarrow> putAdmit digest st jobID auth rel = Inl GONE"
  by (auto simp: putAdmit_def stateOf_def split: prod.splits sessionState.splits option.splits)

text \<open>Once a session is closed, expired or unknown, and until it is registered again, every PUT for
  it is answered 410 at its first move, whatever its token and path, without touching a
  file or the session table: a late push cannot resurrect a cleaned-up session directory.\<close>

theorem late_push_gone:
  assumes "stateOf (m_store m) jobID \<noteq> sessionLive"
    and "run_actions (mstep digest root) as m = Some m'" "\<forall>a \<in> set as. \<not> registersId jobID a"
    and "i < length (m_puts m')" "p_id (m_puts m' ! i) = jobID" "p_pc (m_puts m' ! i) = PutStart"
  shows "mstep digest root (MStep i now) m' = Some (setPc i (PutDone (Reply 410 ''GONE'')) m')"
  using putAdmit_not_live [OF mrun_not_live [OF assms(2,1,3)]] assms(4-6)
  by (simp add: putStep_def Let_def GONE_def)

definition demoLate :: "maction list" where
  "demoLate = [MArrive ''j'' ''Bearer k'' ''a.ts'' ''xy'']"

lemma late_push_gone_witness:
  "\<exists>m m'. run_actions (mstep id ''/t'')
       [MRegister ''j'' ''/t/s'' (Some ''k'') 0, MDelete ''j'' 5, MTimer 0 (2 * second + 5)]
       (initMasterd (60 * second) demoFs) = Some m \<and>
     run_actions (mstep id ''/t'') demoLate m = Some m' \<and>
     mstep id ''/t'' (MStep 0 9) m' = Some (setPc 0 (PutDone (Reply 410 ''GONE'')) m')"
proof -
  let ?as = "[MRegister ''j'' ''/t/s'' (Some ''k'') 0, MDelete ''j'' 5, MTimer 0 (2 * second + 5)]"
  have "\<exists>m m'. run_actions (mstep id ''/t'') ?as (initMasterd (60 * second) demoFs) = Some m \<and>
      run_actions (mstep id ''/t'') demoLate m = Some m' \<and> stateOf (m_store m) ''j'' \<noteq> sessionLive \<and>
      0 < length (m_puts m') \<and> p_id (m_puts m' ! 0) = ''j'' \<and> p_pc (m_puts m' ! 0) = PutStart"
    by (simp add: initMasterd_def register_demo handleDeleteSession_def fireTimer_def closeSession_def
        register_def tombstone_def newSessionStore_def stateOf_cases demoLate_def)
  then obtain m m' where m: "run_actions (mstep id ''/t'') ?as (initMasterd (60 * second) demoFs) = Some m"
      "run_actions (mstep id ''/t'') demoLate m = Some m'" "stateOf (m_store m) ''j'' \<noteq> sessionLive"
      "0 < length (m_puts m')" "p_id (m_puts m' ! 0) = ''j''" "p_pc (m_puts m' ! 0) = PutStart"
    by blast
  have "\<forall>a \<in> set demoLate. \<not> registersId ''j'' a" by (simp add: demoLate_def)
  from late_push_gone [OF m(3) m(2) this m(4-6)] m(1,2) show ?thesis by blast
qed

section \<open>Uploads that overlap on one name\<close>

definition demoOverlap :: "maction list" where
  "demoOverlap = [MRegister ''j'' ''/t/s'' (Some ''k'') 0, MArrive ''j'' ''Bearer k'' ''a.ts'' ''x'', MArrive ''j'' ''Bearer k'' ''a.ts'' ''x'',
     MStep 0 1, MStep 1 1, MStep 0 1, MStep 1 1, MWrite 0 1, MWrite 1 1, MStep 0 1, MStep 1 1,
     MStep 0 1, MStep 1 1, MStep 0 1, MStep 1 1, MStep 1 1]"


section \<open>Uploads that do not overlap on a name\<close>

text \<open>The names a PUT uses while it has a temporary file, and the inode it writes.\<close>

fun claims :: "putpc \<Rightarrow> string list" where
  "claims (PutCopy tmp final ino off) = [tmp, final]"
| "claims (PutRename tmp final ino) = [tmp, final]"
| "claims (PutCleanup tmp reply) = [tmp]"
| "claims _ = []"

fun inoOf :: "putpc \<Rightarrow> nat option" where
  "inoOf (PutCopy tmp final ino off) = Some ino"
| "inoOf (PutRename tmp final ino) = Some ino"
| "inoOf _ = None"

definition apart :: "putpc \<Rightarrow> putpc \<Rightarrow> bool" where
  "apart pc pc' \<longleftrightarrow> set (claims pc) \<inter> set (claims pc') = {} \<and> (inoOf pc = None \<or> inoOf pc \<noteq> inoOf pc')"

text \<open>
  The environment the exclusive system allows: a PUT opens its temporary file only while
  no other PUT in flight uses one of its two names.
\<close>

definition mayStep :: "maction \<Rightarrow> masterd \<Rightarrow> bool" where
  "mayStep a m = (case a of
     MStep i now \<Rightarrow>
       (case p_pc (m_puts m ! i) of
          PutOpen tmp final \<Rightarrow>
            list_all (\<lambda>j. j = i \<or> set (claims (p_pc (m_puts m ! j))) \<inter> {tmp, final} = {}) [0..<length (m_puts m)]
        | _ \<Rightarrow> True)
   | _ \<Rightarrow> True)"

definition xstep :: "(string \<Rightarrow> string) \<Rightarrow> string \<Rightarrow> maction \<Rightarrow> masterd \<Rightarrow> masterd option" where
  "xstep digest root a m = (if mayStep a m then mstep digest root a m else None)"

definition fsOk :: "fsys \<Rightarrow> bool" where
  "fsOk fs \<longleftrightarrow> (\<forall>p q i. f_names fs p = Some i \<longrightarrow> f_names fs q = Some i \<longrightarrow> p = q) \<and>
     (\<forall>p i. f_names fs p = Some i \<longrightarrow> i < f_next fs)"

definition holds :: "fsys \<Rightarrow> string \<Rightarrow> string \<Rightarrow> nat \<Rightarrow> string \<Rightarrow> bool" where
  "holds fs tmp final ino content \<longleftrightarrow> tmp \<noteq> final \<and> ino < f_next fs \<and> f_data fs ino = content \<and>
     (\<forall>q. f_names fs q = Some ino \<longrightarrow> q = tmp) \<and> (f_names fs tmp = None \<or> f_names fs tmp = Some ino)"

fun pcOk :: "fsys \<Rightarrow> string \<Rightarrow> string option \<Rightarrow> putpc \<Rightarrow> bool" where
  "pcOk fs body stored (PutOpen tmp final) = (tmp \<noteq> final)"
| "pcOk fs body stored (PutCopy tmp final ino off) = (off \<le> length body \<and> holds fs tmp final ino (take off body))"
| "pcOk fs body stored (PutRename tmp final ino) = holds fs tmp final ino body"
| "pcOk fs body stored (PutCleanup tmp reply) = (reply_status reply \<noteq> 200)"
| "pcOk fs body stored PutTouch = (stored = Some body)"
| "pcOk fs body stored (PutDone reply) = (reply_status reply = 200 \<longrightarrow> stored = Some body)"
| "pcOk fs body stored _ = True"

definition putOk :: "fsys \<Rightarrow> put \<Rightarrow> bool" where
  "putOk fs p = pcOk fs (p_body p) (p_stored p) (p_pc p)"

definition ackInv :: "masterd \<Rightarrow> bool" where
  "ackInv m \<longleftrightarrow> fsOk (m_fs m) \<and> (\<forall>i < length (m_puts m). putOk (m_fs m) (m_puts m ! i)) \<and>
     (\<forall>i < length (m_puts m). \<forall>j < length (m_puts m). i \<noteq> j \<longrightarrow>
        apart (p_pc (m_puts m ! i)) (p_pc (m_puts m ! j)))"

lemma apart_sym: "apart pc pc' \<longleftrightarrow> apart pc' pc"
  by (auto simp: apart_def)

lemma apart_none: "claims pc = [] \<Longrightarrow> inoOf pc = None \<Longrightarrow> apart pc pc'"
  by (simp add: apart_def)

text \<open>One PUT moves, the file system changes: what has to be shown.\<close>

lemma ackInv_update:
  assumes "ackInv m" "i < length (m_puts m)" "fsOk fs" "putOk fs p"
    and "\<And>j. j < length (m_puts m) \<Longrightarrow> j \<noteq> i \<Longrightarrow> putOk (m_fs m) (m_puts m ! j) \<Longrightarrow> putOk fs (m_puts m ! j)"
    and "\<And>j. j < length (m_puts m) \<Longrightarrow> j \<noteq> i \<Longrightarrow> apart (p_pc p) (p_pc (m_puts m ! j))"
    and "m_fs m' = fs" "m_puts m' = (m_puts m)[i := p]"
  shows "ackInv m'"
  unfolding ackInv_def assms(7,8)
proof (intro conjI allI impI)
  show "fsOk fs" by fact
next
  fix j assume "j < length ((m_puts m)[i := p])"
  then show "putOk fs ((m_puts m)[i := p] ! j)"
    using assms(1,2,4,5) by (cases "j = i") (auto simp: ackInv_def)
next
  fix j k assume "j < length ((m_puts m)[i := p])" "k < length ((m_puts m)[i := p])" "j \<noteq> k"
  then show "apart (p_pc ((m_puts m)[i := p] ! j)) (p_pc ((m_puts m)[i := p] ! k))"
    using assms(1,2,6) apart_sym by (cases "j = i"; cases "k = i") (auto simp: ackInv_def)
qed

text \<open>A PUT that does not touch the file system, or loses its claims.\<close>

lemma ackInv_idle:
  assumes "ackInv m" "i < length (m_puts m)" "pcOk (m_fs m) (p_body (m_puts m ! i)) (p_stored (m_puts m ! i)) pc"
    and "set (claims pc) \<subseteq> set (claims (p_pc (m_puts m ! i)))" "inoOf pc \<in> {None, inoOf (p_pc (m_puts m ! i))}"
    and "m_fs m' = m_fs m" "m_puts m' = m_puts m"
  shows "ackInv (setPc i pc m')"
proof (rule ackInv_update [OF assms(1,2), where fs = "m_fs m" and p = "(m_puts m ! i)\<lparr>p_pc := pc\<rparr>"])
  show "fsOk (m_fs m)" using assms(1) by (simp add: ackInv_def)
  show "putOk (m_fs m) ((m_puts m ! i)\<lparr>p_pc := pc\<rparr>)" using assms(3) by (simp add: putOk_def)
  show "apart (p_pc ((m_puts m ! i)\<lparr>p_pc := pc\<rparr>)) (p_pc (m_puts m ! j))"
    if "j < length (m_puts m)" "j \<noteq> i" for j
  proof -
    have "apart (p_pc (m_puts m ! i)) (p_pc (m_puts m ! j))"
      using assms(1,2) that by (simp add: ackInv_def)
    with assms(4,5) show ?thesis by (auto simp: apart_def)
  qed
qed (use assms(6,7) in \<open>simp_all add: setPc_def\<close>)

text \<open>What the other PUTs keep when one of them changes the file system.\<close>

definition touchesOnly :: "string set \<Rightarrow> nat option \<Rightarrow> fsys \<Rightarrow> fsys \<Rightarrow> bool" where
  "touchesOnly names ino fs fs' \<longleftrightarrow> f_next fs \<le> f_next fs' \<and>
     (\<forall>q. q \<notin> names \<longrightarrow> f_names fs' q = f_names fs q \<or> f_names fs' q = None) \<and>
     (\<forall>q \<in> names. f_names fs' q = f_names fs q \<or> f_names fs' q = None \<or> f_names fs' q = ino) \<and>
     (\<forall>k < f_next fs. ino \<noteq> Some k \<longrightarrow> f_data fs' k = f_data fs k)"

lemma holds_other:
  assumes "holds fs tmp final k content" "touchesOnly names ino fs fs'" "tmp \<notin> names" "ino \<noteq> Some k"
  shows "holds fs' tmp final k content"
  unfolding holds_def
proof (intro conjI allI impI)
  show "tmp \<noteq> final" "k < f_next fs'" "f_data fs' k = content"
    using assms by (auto simp: holds_def touchesOnly_def)
  show "q = tmp" if "f_names fs' q = Some k" for q
    using that assms unfolding holds_def touchesOnly_def by (metis option.distinct(1))
  show "f_names fs' tmp = None \<or> f_names fs' tmp = Some k"
    using assms unfolding holds_def touchesOnly_def by metis
qed

lemma putOk_other:
  assumes "putOk fs p" "touchesOnly names ino fs fs'" "set (claims (p_pc p)) \<inter> names = {}"
    and "ino = None \<or> inoOf (p_pc p) \<noteq> ino"
  shows "putOk fs' p"
proof (cases "p_pc p")
  case (PutCopy tmp final k off)
  with assms holds_other [OF _ assms(2)] show ?thesis by (auto simp: putOk_def)
next
  case (PutRename tmp final k)
  with assms holds_other [OF _ assms(2)] show ?thesis by (auto simp: putOk_def)
qed (use assms in \<open>auto simp: putOk_def\<close>)

lemma others_apart:
  assumes "ackInv m" "i < length (m_puts m)" "j < length (m_puts m)" "j \<noteq> i"
  shows "set (claims (p_pc (m_puts m ! j))) \<inter> set (claims (p_pc (m_puts m ! i))) = {}"
    "inoOf (p_pc (m_puts m ! i)) = None \<or> inoOf (p_pc (m_puts m ! j)) \<noteq> inoOf (p_pc (m_puts m ! i))"
proof -
  have "apart (p_pc (m_puts m ! i)) (p_pc (m_puts m ! j))"
    using assms(1-3) assms(4) [symmetric] by (simp add: ackInv_def)
  then show "set (claims (p_pc (m_puts m ! j))) \<inter> set (claims (p_pc (m_puts m ! i))) = {}"
    "inoOf (p_pc (m_puts m ! i)) = None \<or> inoOf (p_pc (m_puts m ! j)) \<noteq> inoOf (p_pc (m_puts m ! i))"
    by (auto simp: apart_def)
qed

lemma ack_tree: "ackInv m \<Longrightarrow> ackInv (m\<lparr>m_fs := removeTree d (m_fs m)\<rparr>)"
proof -
  assume inv: "ackInv m"
  have "touchesOnly {} None (m_fs m) (removeTree d (m_fs m))"
    by (simp add: touchesOnly_def removeTree_def)
  then have "putOk (m_fs m) p \<Longrightarrow> putOk (removeTree d (m_fs m)) p" for p
    using putOk_other by blast
  moreover have "fsOk (removeTree d (m_fs m))"
    using inv by (auto simp: ackInv_def fsOk_def removeTree_def)
  ultimately show ?thesis using inv by (simp add: ackInv_def)
qed

lemma ack_remove:
  assumes "ackInv m" "i < length (m_puts m)" "p_pc (m_puts m ! i) = PutCleanup tmp reply"
    and "pc = (if reply = GONE then PutDirGone else PutDone reply)"
  shows "ackInv (setPc i pc (m\<lparr>m_fs := removeFile tmp (m_fs m)\<rparr>))"
proof (rule ackInv_update [OF assms(1,2), where fs = "removeFile tmp (m_fs m)" and p = "(m_puts m ! i)\<lparr>p_pc := pc\<rparr>"])
  have t: "touchesOnly {tmp} None (m_fs m) (removeFile tmp (m_fs m))"
    by (simp add: touchesOnly_def removeFile_def)
  show "fsOk (removeFile tmp (m_fs m))"
    using assms(1) by (auto simp: ackInv_def fsOk_def removeFile_def)
  have "putOk (m_fs m) (m_puts m ! i)" using assms(1,2) by (simp add: ackInv_def)
  with assms(3,4) show "putOk (removeFile tmp (m_fs m)) ((m_puts m ! i)\<lparr>p_pc := pc\<rparr>)"
    by (simp add: putOk_def)
  show "putOk (removeFile tmp (m_fs m)) (m_puts m ! j)"
    if "j < length (m_puts m)" "j \<noteq> i" "putOk (m_fs m) (m_puts m ! j)" for j
    using putOk_other [OF that(3) t] others_apart(1) [OF assms(1,2) that(1,2)] assms(3) by simp
  show "apart (p_pc ((m_puts m ! i)\<lparr>p_pc := pc\<rparr>)) (p_pc (m_puts m ! j))" for j
    using assms(4) by (simp add: apart_def)
qed (simp_all add: setPc_def)

lemma ack_write:
  assumes "ackInv m" "i < length (m_puts m)" "p_pc (m_puts m ! i) = PutCopy tmp final ino off"
    and "bs = take n (drop off (p_body (m_puts m ! i)))"
  shows "ackInv (setPc i (PutCopy tmp final ino (off + length bs)) (m\<lparr>m_fs := writeAt ino off bs (m_fs m)\<rparr>))"
proof (rule ackInv_update [OF assms(1,2), where fs = "writeAt ino off bs (m_fs m)"
      and p = "(m_puts m ! i)\<lparr>p_pc := PutCopy tmp final ino (off + length bs)\<rparr>"])
  let ?body = "p_body (m_puts m ! i)"
  have t: "touchesOnly {} (Some ino) (m_fs m) (writeAt ino off bs (m_fs m))"
    by (simp add: touchesOnly_def writeAt_def Let_def)
  show "fsOk (writeAt ino off bs (m_fs m))"
    using assms(1) by (auto simp: ackInv_def fsOk_def writeAt_def Let_def)
  have "putOk (m_fs m) (m_puts m ! i)" using assms(1,2) by (simp add: ackInv_def)
  then have off: "off \<le> length ?body" "holds (m_fs m) tmp final ino (take off ?body)"
    using assms(3) by (simp_all add: putOk_def)
  then have "f_data (writeAt ino off bs (m_fs m)) ino = take (off + length bs) ?body"
    using assms(4) by (simp add: holds_def writeAt_def Let_def take_add min_def)
  with off assms(4) show "putOk (writeAt ino off bs (m_fs m)) ((m_puts m ! i)\<lparr>p_pc := PutCopy tmp final ino (off + length bs)\<rparr>)"
    by (simp add: putOk_def holds_def writeAt_def Let_def)
  show "putOk (writeAt ino off bs (m_fs m)) (m_puts m ! j)"
    if "j < length (m_puts m)" "j \<noteq> i" "putOk (m_fs m) (m_puts m ! j)" for j
    using putOk_other [OF that(3) t] others_apart(2) [OF assms(1,2) that(1,2)] assms(3) by simp
  show "apart (p_pc ((m_puts m ! i)\<lparr>p_pc := PutCopy tmp final ino (off + length bs)\<rparr>)) (p_pc (m_puts m ! j))"
    if "j < length (m_puts m)" "j \<noteq> i" for j
    using others_apart [OF assms(1,2) that] assms(3) by (auto simp: apart_def)
qed (simp_all add: setPc_def)

lemma openTrunc_facts:
  assumes "openTrunc tmp fs = Inr (ino, fs')" "fsOk fs"
  shows "touchesOnly {tmp} (Some ino) fs fs'" "fsOk fs'" "f_data fs' ino = []" "ino < f_next fs'"
    "f_names fs' tmp = Some ino" "\<forall>q. f_names fs' q = Some ino \<longrightarrow> q = tmp"
    "f_names fs tmp = Some ino \<or> ino = f_next fs"
proof -
  consider (old) "f_names fs tmp = Some ino" "fs' = fs\<lparr>f_data := (f_data fs)(ino := [])\<rparr>"
    | (new) "f_names fs tmp = None" "ino = f_next fs"
        "fs' = fs\<lparr>f_names := (f_names fs)(tmp \<mapsto> ino), f_data := (f_data fs)(ino := []), f_next := Suc ino\<rparr>"
    using assms(1) by (auto simp: openTrunc_def Let_def split: if_splits option.splits)
  then have "touchesOnly {tmp} (Some ino) fs fs' \<and> fsOk fs' \<and> f_data fs' ino = [] \<and> ino < f_next fs' \<and>
    f_names fs' tmp = Some ino \<and> (\<forall>q. f_names fs' q = Some ino \<longrightarrow> q = tmp) \<and>
    (f_names fs tmp = Some ino \<or> ino = f_next fs)"
  proof cases
    case old
    with assms(2) show ?thesis by (auto simp: touchesOnly_def fsOk_def)
  next
    case new
    have "\<forall>q. f_names fs q \<noteq> Some (f_next fs)" using assms(2) by (auto simp: fsOk_def)
    with new assms(2) show ?thesis by (auto simp: touchesOnly_def fsOk_def less_Suc_eq)
  qed
  then show "touchesOnly {tmp} (Some ino) fs fs'" "fsOk fs'" "f_data fs' ino = []" "ino < f_next fs'"
    "f_names fs' tmp = Some ino" "\<forall>q. f_names fs' q = Some ino \<longrightarrow> q = tmp"
    "f_names fs tmp = Some ino \<or> ino = f_next fs" by blast+
qed

lemma putOk_ino:
  assumes "putOk fs p" "inoOf (p_pc p) = Some k"
  shows "k < f_next fs \<and> (\<forall>q. f_names fs q = Some k \<longrightarrow> q \<in> set (claims (p_pc p)))"
  using assms by (cases "p_pc p") (auto simp: putOk_def holds_def)

lemma ack_open:
  assumes "ackInv m" "i < length (m_puts m)" "p_pc (m_puts m ! i) = PutOpen tmp final"
    and "openTrunc tmp (m_fs m) = Inr (ino, fs')"
    and "\<And>j. j < length (m_puts m) \<Longrightarrow> j \<noteq> i \<Longrightarrow> set (claims (p_pc (m_puts m ! j))) \<inter> {tmp, final} = {}"
  shows "ackInv (setPc i (PutCopy tmp final ino 0) (m\<lparr>m_fs := fs'\<rparr>))"
proof (rule ackInv_update [OF assms(1,2), where fs = fs' and p = "(m_puts m ! i)\<lparr>p_pc := PutCopy tmp final ino 0\<rparr>"])
  have ok: "fsOk (m_fs m)" "putOk (m_fs m) (m_puts m ! i)" using assms(1,2) by (simp_all add: ackInv_def)
  note f = openTrunc_facts [OF assms(4) ok(1)]
  have ino: "inoOf (p_pc (m_puts m ! j)) \<noteq> Some ino"
    if "j < length (m_puts m)" "j \<noteq> i" for j
  proof
    assume a: "inoOf (p_pc (m_puts m ! j)) = Some ino"
    have "putOk (m_fs m) (m_puts m ! j)" using assms(1) that(1) by (simp add: ackInv_def)
    from putOk_ino [OF this a] f(7) assms(5) [OF that] show False by auto
  qed
  show "fsOk fs'" by (rule f(2))
  show "putOk fs' ((m_puts m ! i)\<lparr>p_pc := PutCopy tmp final ino 0\<rparr>)"
  proof -
    have "tmp \<noteq> final" using ok(2) assms(3) by (simp add: putOk_def)
    then have "holds fs' tmp final ino []" unfolding holds_def using f(3-6) by blast
    then show ?thesis by (simp add: putOk_def)
  qed
  show "putOk fs' (m_puts m ! j)"
    if "j < length (m_puts m)" "j \<noteq> i" "putOk (m_fs m) (m_puts m ! j)" for j
    using putOk_other [OF that(3) f(1)] assms(5) [OF that(1,2)] ino [OF that(1,2)] by auto
  show "apart (p_pc ((m_puts m ! i)\<lparr>p_pc := PutCopy tmp final ino 0\<rparr>)) (p_pc (m_puts m ! j))"
    if "j < length (m_puts m)" "j \<noteq> i" for j
    using assms(5) [OF that] ino [OF that] by (auto simp: apart_def)
qed (simp_all add: setPc_def)

lemma ack_rename:
  assumes "ackInv m" "i < length (m_puts m)" "p_pc (m_puts m ! i) = PutRename tmp final ino"
    and "renameFile tmp final (m_fs m) = Inr fs'"
  shows "ackInv (m\<lparr>m_fs := fs', m_puts := (m_puts m)[i := (m_puts m ! i)\<lparr>p_pc := PutTouch,
      p_stored := map_option (f_data fs') (f_names fs' final)\<rparr>]\<rparr>)"
proof (rule ackInv_update [OF assms(1,2), where fs = fs' and p = "(m_puts m ! i)\<lparr>p_pc := PutTouch,
      p_stored := map_option (f_data fs') (f_names fs' final)\<rparr>"])
  have put: "fsOk (m_fs m)" "putOk (m_fs m) (m_puts m ! i)" using assms(1,2) by (simp_all add: ackInv_def)
  then have ok: "fsOk (m_fs m)" "holds (m_fs m) tmp final ino (p_body (m_puts m ! i))"
    using assms(3) by (simp_all add: putOk_def)
  then have "f_names (m_fs m) tmp = None \<or> f_names (m_fs m) tmp = Some ino" unfolding holds_def by blast
  then have fs': "f_names (m_fs m) tmp = Some ino" "fs' = (m_fs m)\<lparr>f_names := (f_names (m_fs m))(tmp := None, final := Some ino)\<rparr>"
    using assms(4) by (auto simp: renameFile_def split: option.splits if_splits)
  have t: "touchesOnly {tmp, final} (Some ino) (m_fs m) fs'"
    unfolding fs'(2) by (simp add: touchesOnly_def)
  have names: "f_names fs' q = Some k \<Longrightarrow> k = ino \<and> q = final \<or> k \<noteq> ino \<and> f_names (m_fs m) q = Some k" for q k
  proof -
    assume a: "f_names fs' q = Some k"
    then consider "q = final" "k = ino" | "q \<noteq> tmp" "f_names (m_fs m) q = Some k"
      unfolding fs'(2) by (auto split: if_splits)
    then show ?thesis using ok(2) unfolding holds_def by cases blast+
  qed
  have "f_next fs' = f_next (m_fs m)" unfolding fs'(2) by simp
  with ok names show "fsOk fs'" unfolding fsOk_def holds_def by metis
  show "putOk fs' ((m_puts m ! i)\<lparr>p_pc := PutTouch, p_stored := map_option (f_data fs') (f_names fs' final)\<rparr>)"
  proof -
    have "f_data (m_fs m) ino = p_body (m_puts m ! i)" using ok(2) unfolding holds_def by blast
    then show ?thesis unfolding fs'(2) by (simp add: putOk_def)
  qed
  show "putOk fs' (m_puts m ! j)"
    if "j < length (m_puts m)" "j \<noteq> i" "putOk (m_fs m) (m_puts m ! j)" for j
    using putOk_other [OF that(3) t] others_apart [OF assms(1,2) that(1,2)] assms(3) by simp
qed (simp_all add: apart_def)

lemma putAdmit_reply: "putAdmit digest st jobID auth rel = Inl reply \<Longrightarrow> reply_status reply \<noteq> 200"
  by (auto simp: putAdmit_def GONE_def Let_def split: prod.splits sessionState.splits option.splits if_splits)

lemma putAdmit_names: "putAdmit digest st jobID auth rel = Inr (tmp, final) \<Longrightarrow> tmp \<noteq> final"
  by (auto simp: putAdmit_def tmpSuffix_def Let_def split: prod.splits sessionState.splits option.splits if_splits)

lemma GONE_status [simp]: "reply_status GONE = 410"
  by (simp add: GONE_def)

lemma ackInv_store [simp]: "ackInv (m\<lparr>m_store := st\<rparr>) = ackInv m"
  by (simp add: ackInv_def)

lemma setPc_store_swap: "setPc i pc (m\<lparr>m_store := st\<rparr>) = (setPc i pc m)\<lparr>m_store := st\<rparr>"
  by (simp add: setPc_def)

lemma ackInv_status:
  assumes "ackInv m" "i < length (m_puts m)" "claims pc = []" "inoOf pc = None"
    and "pcOk (m_fs m) (p_body (m_puts m ! i)) (p_stored (m_puts m ! i)) pc"
  shows "ackInv (setPc i pc m)"
  using ackInv_idle [OF assms(1,2,5)] assms(3,4) by simp

lemma putStep_ackInv:
  assumes "ackInv m" "i < length (m_puts m)" "putStep digest i now m = Some m'" "mayStep (MStep i now) m"
  shows "ackInv m'"
proof -
  let ?p = "m_puts m ! i"
  have ok: "putOk (m_fs m) ?p" using assms(1,2) by (simp add: ackInv_def)
  note status = ackInv_status [OF assms(1,2)] and idle = ackInv_idle [OF assms(1,2)]
  show ?thesis
  proof (cases "p_pc ?p")
    case PutStart
    with assms(3) putAdmit_reply putAdmit_names show ?thesis
      by (auto simp: putStep_def Let_def intro!: status split: sum.splits)
  next
    case (PutOpen tmp final)
    show ?thesis
    proof (cases "openTrunc tmp (m_fs m)")
      case (Inl e)
      with assms(3) PutOpen show ?thesis
        by (auto simp: putStep_def Let_def intro!: status split: errno.splits)
    next
      case (Inr r)
      then obtain ino fs' where r: "openTrunc tmp (m_fs m) = Inr (ino, fs')" by (metis surj_pair)
      have "set (claims (p_pc (m_puts m ! j))) \<inter> {tmp, final} = {}"
        if "j < length (m_puts m)" "j \<noteq> i" for j
        using assms(4) PutOpen that by (auto simp: mayStep_def list_all_iff)
      from ack_open [OF assms(1,2) PutOpen r this] assms(3) PutOpen r show ?thesis
        by (simp add: putStep_def Let_def)
    qed
  next
    case (PutCopy tmp final ino off)
    then have m': "off = length (p_body ?p)" "m' = setPc i (PutRename tmp final ino) m"
      using assms(3) by (auto simp: putStep_def Let_def split: if_splits)
    show ?thesis unfolding m'(2)
      by (rule idle) (use ok PutCopy m'(1) in \<open>auto simp: putOk_def\<close>)
  next
    case (PutRename tmp final ino)
    show ?thesis
    proof (cases "renameFile tmp final (m_fs m)")
      case (Inl e)
      then obtain reply where m': "m' = setPc i (PutCleanup tmp reply) m" "reply_status reply \<noteq> 200"
        using assms(3) PutRename by (cases e) (auto simp: putStep_def Let_def)
      show ?thesis unfolding m'(1)
        by (rule idle) (use PutRename m'(2) in auto)
    next
      case (Inr fs')
      with ack_rename [OF assms(1,2) PutRename Inr] assms(3) PutRename show ?thesis
        by (simp add: putStep_def Let_def)
    qed
  next
    case (PutCleanup tmp reply)
    from ack_remove [OF assms(1,2) PutCleanup refl] assms(3) PutCleanup show ?thesis
      by (simp add: putStep_def Let_def)
  next
    case PutTouch
    with assms(3) ok show ?thesis
      by (auto simp: putStep_def Let_def setPc_store_swap putOk_def intro!: status)
  next
    case PutDirGone
    with assms(3) show ?thesis
      by (auto simp: putStep_def Let_def setPc_store_swap intro!: status)
  next
    case (PutDone reply)
    with assms(3) show ?thesis by (simp add: putStep_def Let_def)
  qed
qed

lemma xstep_ackInv:
  assumes "ackInv m" "xstep digest root a m = Some m'"
  shows "ackInv m'"
proof -
  have step: "mayStep a m" "mstep digest root a m = Some m'"
    using assms(2) by (auto simp: xstep_def split: if_splits)
  show ?thesis
  proof (cases a)
    case (MStep i now)
    with step assms(1) putStep_ackInv show ?thesis by (auto split: if_splits)
  next
    case (MWrite i n)
    with step have i: "i < length (m_puts m)" "putWrite i n m = Some m'" by (auto split: if_splits)
    then obtain tmp final ino off where pc: "p_pc (m_puts m ! i) = PutCopy tmp final ino off"
      by (auto simp: putWrite_def Let_def split: putpc.splits)
    from ack_write [OF assms(1) i(1) pc refl, of n] i(2) pc show ?thesis by (simp add: putWrite_def Let_def)
  next
    case (MFail i)
    with step have i: "i < length (m_puts m)" "putFail i m = Some m'" by (auto split: if_splits)
    note idle = ackInv_idle [OF assms(1) i(1)]
    show ?thesis using i(2) by (auto simp: putFail_def intro!: idle split: putpc.splits)
  next
    case (MArrive jobID auth rel body)
    let ?p = "\<lparr>p_id = jobID, p_auth = auth, p_rel = rel, p_body = body, p_pc = PutStart, p_stored = None\<rparr>"
    have nth: "j < Suc (length (m_puts m)) \<Longrightarrow> (m_puts m @ [?p]) ! j = (if j < length (m_puts m) then m_puts m ! j else ?p)" for j
      by (auto simp: nth_append less_Suc_eq)
    have none: "apart PutStart pc" "apart pc PutStart" for pc
      by (cases "inoOf pc"; simp add: apart_def)+
    show ?thesis
      using step(2) MArrive assms(1) none
      by (auto simp: ackInv_def nth putOk_def)
  next
    case (MRemoveTree d)
    with step(2) ack_tree [OF assms(1)] show ?thesis by auto
  qed (use step(2) assms(1) in \<open>auto simp: handleDeleteSession_def\<close>)
qed

interpretation acks: invariant_of "xstep digest root" "\<lambda>m. \<exists>ttl fs. fsOk fs \<and> m = initMasterd ttl fs" ackInv
  for digest root
proof
  show "\<exists>ttl fs. fsOk fs \<and> m = initMasterd ttl fs \<Longrightarrow> ackInv m" for m
    by (auto simp: ackInv_def initMasterd_def)
  show "ackInv m \<Longrightarrow> xstep digest root a m = Some m' \<Longrightarrow> ackInv m'" for m a m'
    by (rule xstep_ackInv)
qed

text \<open>C6: The acknowledgement boundary: if no two uploads in flight share a name, then a PUT answered
  200 had, at its rename, exactly its body under its final name, however it interleaved
  with other uploads, failures, registrations, reaps and directory removals.\<close>

theorem put_ack_stored:
  assumes "fsOk fs0" "reachable (xstep digest root) (initMasterd ttl fs0) m"
    and "i < length (m_puts m)" "p_pc (m_puts m ! i) = PutDone (Reply 200 code)"
  shows "p_stored (m_puts m ! i) = Some (p_body (m_puts m ! i))"
proof -
  have "ackInv m" by (rule acks.inv_reachable [OF _ assms(2)]) (use assms(1) in blast)
  then have "putOk (m_fs m) (m_puts m ! i)" using assms(3) by (simp add: ackInv_def)
  with assms(4) show ?thesis by (simp add: putOk_def)
qed

definition demoTwo :: "maction list" where
  "demoTwo = [MRegister ''j'' ''/t/s'' (Some ''k'') 0, MArrive ''j'' ''Bearer k'' ''a.ts'' ''xy'',
     MArrive ''j'' ''Bearer k'' ''a.ts'' ''z'', MStep 0 1, MStep 1 1,
     MStep 0 1, MWrite 0 1, MWrite 0 5, MStep 0 1, MStep 0 1, MStep 0 1, MStep 1 1, MWrite 1 1, MStep 1 1, MStep 1 1, MStep 1 1]"

lemma put_ack_stored_witness:
  "\<exists>m. run_actions (xstep id ''/t'') demoTwo (initMasterd (60 * second) demoFs) = Some m \<and>
     length (m_puts m) = 2 \<and> p_stored (m_puts m ! 1) = Some (p_body (m_puts m ! 1))"
proof -
  have "\<exists>m. run_actions (xstep digest ''/t'') demoTwo (initMasterd (60 * second) demoFs) = Some m \<and>
     length (m_puts m) = 2 \<and> p_pc (m_puts m ! 1) = PutDone (Reply 200 [])" for digest
    by (simp add: demoTwo_def xstep_def mayStep_def upt_rec initMasterd_def register_demo
        putAdmit_demo put_defs demoFs_def)
  then obtain m where m: "run_actions (xstep id ''/t'') demoTwo (initMasterd (60 * second) demoFs) = Some m"
     "length (m_puts m) = 2" "p_pc (m_puts m ! 1) = PutDone (Reply 200 [])" by blast
  have fs: "fsOk demoFs" by (simp add: fsOk_def demoFs_def)
  have "1 < length (m_puts m)" using m(2) by simp
  from put_ack_stored [OF fs run_actions_reachable [OF m(1)] this m(3)] m show ?thesis by blast
qed

end
