(* ===== verification/MediaFiles.thy ===== *)
theory MediaFiles
  imports Authtok GoPath
begin

text \<open>
  \<^verbatim>\<open>internal/masterd/files.go\<close>: the media file server and the codec cache.  The read-only
  file system is a parameter: \<open>stat\<close> (following links) and \<open>readDir\<close> (sorted names), as
  the operating system answers them; SHA-256 is the parameter \<open>digest\<close>.
\<close>

record fileInfo =
  fi_isDir :: bool
  fi_regular :: bool
  fi_size :: int
  fi_modTime :: int
  fi_content :: string
  fi_readable :: bool   \<comment> \<open>\<^verbatim>\<open>os.Open\<close> and reading succeed\<close>

type_synonym statFn = "string \<Rightarrow> fileInfo option"
type_synonym readDirFn = "string \<Rightarrow> string list option"

section \<open>The media server\<close>

text \<open>An answer: an error, or the file that \<^verbatim>\<open>http.ServeContent\<close> serves.\<close>

datatype fileReply = FileError HttpReply | ServeFile string fileInfo

definition allowedPath :: "string \<Rightarrow> string list \<Rightarrow> string \<Rightarrow> bool" where
  "allowedPath transcodeRoot mediaRoots p \<longleftrightarrow>
     atOrUnder transcodeRoot p \<or> (\<exists>root \<in> set mediaRoots. atOrUnder root p)"

definition handleMedia ::
  "(string \<Rightarrow> string \<Rightarrow> string) \<Rightarrow> string \<Rightarrow> string \<Rightarrow> string list \<Rightarrow> statFn \<Rightarrow> int \<Rightarrow> request \<Rightarrow> fileReply" where
  "handleMedia mac token transcodeRoot mediaRoots stat now r =
     (if VerifySignedQuery mac token now r \<noteq> SigOk then FileError (Reply 403 ''FORBIDDEN'')
      else let p = valuesGet ''path'' (parseQueryLax (rq_query r)) in
        if p = [] \<or> \<not> isAbs p then FileError (Reply 400 ''BAD_REQUEST'')
        else let c = clean p in
          if \<not> allowedPath transcodeRoot mediaRoots c then FileError (Reply 403 ''FORBIDDEN'')
          else case stat c of
              None \<Rightarrow> FileError (Reply 404 ''NOT_FOUND'')
            | Some fi \<Rightarrow> if \<not> fi_readable fi \<or> fi_isDir fi then FileError (Reply 404 ''NOT_FOUND'') else ServeFile c fi)"

section \<open>The codec cache\<close>

record codecHash =
  ch_size :: int
  ch_modTime :: int
  ch_sum :: string

type_synonym hashes = "string \<Rightarrow> codecHash option"

definition safeName :: "string \<Rightarrow> bool" where
  "safeName name \<longleftrightarrow> name \<noteq> [] \<and> name \<noteq> ''.'' \<and> name \<noteq> ''..'' \<and>
     \<not> containsAny name [CHR ''/'', CHR 0x5C, CHR 0x00]"

definition isDirAt :: "statFn \<Rightarrow> string \<Rightarrow> bool" where
  "isDirAt stat p \<longleftrightarrow> (case stat p of Some fi \<Rightarrow> fi_isDir fi | None \<Rightarrow> False)"

text \<open>The newest non-EAE subdirectory, earliest in directory order among equals.\<close>

fun newestDir :: "statFn \<Rightarrow> string \<Rightarrow> string list \<Rightarrow> (string \<times> int) option \<Rightarrow> (string \<times> int) option" where
  "newestDir stat cdir [] best = best"
| "newestDir stat cdir (e # es) best =
     newestDir stat cdir es
       (if hasPrefix e ''EasyAudioEncoder'' then best
        else let full = joinPath [cdir, e] in
          (case stat full of
             None \<Rightarrow> best
           | Some fi \<Rightarrow>
               if \<not> fi_isDir fi then best
               else (case best of
                       None \<Rightarrow> Some (full, fi_modTime fi)
                     | Some (b, t) \<Rightarrow> if fi_modTime fi > t then Some (full, fi_modTime fi) else best)))"

datatype dirError = DirNotExist | DirOther

text \<open>\<^verbatim>\<open>resolveDir\<close>; an unreadable codecs dir is reported as such (\<open>readDir\<close> gives the error).\<close>

definition resolveDir ::
  "statFn \<Rightarrow> (string \<Rightarrow> dirError + string list) \<Rightarrow> string \<Rightarrow> string \<Rightarrow> dirError + string" where
  "resolveDir stat rd cdir build =
     (let exact = joinPath [cdir, build] in
      if isDirAt stat exact then Inr exact
      else case rd cdir of
          Inl e \<Rightarrow> Inl e
        | Inr entries \<Rightarrow>
            (case newestDir stat cdir entries None of
               None \<Rightarrow> Inl DirNotExist
             | Some (b, t) \<Rightarrow> Inr b))"

text \<open>
  One entry of the scan: skipped, its manifest line with the updated hash table, or the
  error of hashing it.
\<close>

datatype scanned = ScanSkip | ScanError | ScanLine CodecFile

definition scanEntry ::
  "(string \<Rightarrow> string) \<Rightarrow> statFn \<Rightarrow> string \<Rightarrow> string \<Rightarrow> hashes \<Rightarrow> scanned \<times> hashes" where
  "scanEntry digest stat d name hs =
     (let full = joinPath [d, name] in
      case stat full of
        None \<Rightarrow> (ScanSkip, hs)
      | Some fi \<Rightarrow>
          if \<not> fi_regular fi then (ScanSkip, hs)
          else
            let line = (\<lambda>sum. ScanLine \<lparr>cf_Name = name, cf_Size = fi_size fi, cf_SHA256 = sum\<rparr>);
                h = (case hs full of
                   None \<Rightarrow> None
                 | Some h \<Rightarrow> if ch_size h \<noteq> fi_size fi \<or> ch_modTime h \<noteq> fi_modTime fi then None else Some h)
            in (case h of
                  Some h' \<Rightarrow> (line (ch_sum h'), hs)
                | None \<Rightarrow>
                    if \<not> fi_readable fi then (ScanError, hs)
                    else (line (digest (fi_content fi)),
                          hs(full \<mapsto> \<lparr>ch_size = fi_size fi, ch_modTime = fi_modTime fi, ch_sum = digest (fi_content fi)\<rparr>))))"

fun scanAll ::
  "(string \<Rightarrow> string) \<Rightarrow> statFn \<Rightarrow> string \<Rightarrow> string list \<Rightarrow> hashes \<Rightarrow> (dirError + CodecFile list) \<times> hashes" where
  "scanAll digest stat d [] hs = (Inr [], hs)"
| "scanAll digest stat d (n # ns) hs =
     (case scanEntry digest stat d n hs of
        (ScanError, hs1) \<Rightarrow> (Inl DirOther, hs1)
      | (ScanSkip, hs1) \<Rightarrow> scanAll digest stat d ns hs1
      | (ScanLine x, hs1) \<Rightarrow>
          (case scanAll digest stat d ns hs1 of
             (Inl e, hs2) \<Rightarrow> (Inl e, hs2)
           | (Inr fs, hs2) \<Rightarrow> (Inr (x # fs), hs2)))"

definition manifest ::
  "(string \<Rightarrow> string) \<Rightarrow> statFn \<Rightarrow> (string \<Rightarrow> dirError + string list) \<Rightarrow> string \<Rightarrow> string \<Rightarrow> hashes \<Rightarrow>
     (dirError + CodecsManifest) \<times> hashes" where
  "manifest digest stat rd cdir build hs =
     (case resolveDir stat rd cdir build of
        Inl e \<Rightarrow> (Inl e, hs)
      | Inr d \<Rightarrow>
          (case rd d of
             Inl e \<Rightarrow> (Inl e, hs)
           | Inr entries \<Rightarrow>
               (case scanAll digest stat d entries hs of
                  (Inl e, hs') \<Rightarrow> (Inl e, hs')
                | (Inr fs, hs') \<Rightarrow> (Inr \<lparr>cm_Build = build, cm_Files = fs\<rparr>, hs'))))"

definition handleCodecsManifest ::
  "(string \<Rightarrow> string) \<Rightarrow> statFn \<Rightarrow> (string \<Rightarrow> dirError + string list) \<Rightarrow> string \<Rightarrow> string \<Rightarrow> hashes \<Rightarrow>
     (HttpReply + CodecsManifest) \<times> hashes" where
  "handleCodecsManifest digest stat rd cdir build hs =
     (if \<not> safeName build then (Inl (Reply 400 ''BAD_REQUEST''), hs)
      else case manifest digest stat rd cdir build hs of
          (Inl DirNotExist, hs') \<Rightarrow> (Inl (Reply 404 ''NOT_FOUND''), hs')
        | (Inl DirOther, hs') \<Rightarrow> (Inl (Reply 500 ''INTERNAL''), hs')
        | (Inr m, hs') \<Rightarrow> (Inr m, hs'))"

definition handleCodecsFile ::
  "statFn \<Rightarrow> (string \<Rightarrow> dirError + string list) \<Rightarrow> string \<Rightarrow> string \<Rightarrow> string \<Rightarrow> fileReply" where
  "handleCodecsFile stat rd cdir build name =
     (if \<not> safeName build \<or> \<not> safeName name then FileError (Reply 400 ''BAD_REQUEST'')
      else case resolveDir stat rd cdir build of
          Inl e \<Rightarrow> FileError (Reply 404 ''NOT_FOUND'')
        | Inr d \<Rightarrow>
            let full = joinPath [d, name] in
            (case stat full of
               None \<Rightarrow> FileError (Reply 404 ''NOT_FOUND'')
             | Some fi \<Rightarrow>
                 if \<not> fi_readable fi \<or> \<not> fi_regular fi then FileError (Reply 404 ''NOT_FOUND'') else ServeFile full fi))"

section \<open>Facts\<close>

text \<open>Whatever is served lies at or below an allowed root, was signed for, and is no directory.\<close>

lemma handleMedia_serves:
  assumes "handleMedia mac token root roots stat now r = ServeFile p fi"
  shows "VerifySignedQuery mac token now r = SigOk \<and> p = clean (valuesGet ''path'' (parseQueryLax (rq_query r))) \<and>
    isAbs (valuesGet ''path'' (parseQueryLax (rq_query r))) \<and> allowedPath root roots p \<and>
    stat p = Some fi \<and> \<not> fi_isDir fi"
  using assms unfolding handleMedia_def Let_def by (simp split: if_splits option.splits)

text \<open>
  The components of the served path extend those of a root: no dot-dot component or common
  name prefix gets a request out of the roots.
\<close>

definition belowComps :: "string \<Rightarrow> string \<Rightarrow> bool" where
  "belowComps root p \<longleftrightarrow> (\<exists>rs ps. properComps rs \<and> properComps ps \<and> root = absPath rs \<and> p = absPath ps \<and> prefix rs ps)"

text \<open>C16: The media server serves a file only if the request carries a valid unexpired signature
  over its path parameter, and the file's path is below one of the configured roots component
  by component: dot-dot components and sibling directories whose name merely starts like a
  root do not get through, and directories are never served.\<close>

theorem media_confined:
  assumes "handleMedia mac token root roots stat now r = ServeFile p fi"
    and "cleanAbs root" "\<forall>q \<in> set roots. cleanAbs q"
  shows "VerifySignedQuery mac token now r = SigOk \<and> stat p = Some fi \<and> \<not> fi_isDir fi \<and>
    (\<exists>q \<in> insert root (set roots). belowComps q p)"
proof -
  note s = handleMedia_serves [OF assms(1)]
  then obtain q where q: "q \<in> insert root (set roots)" "atOrUnder q p" by (auto simp: allowedPath_def)
  then have "cleanAbs q" using assms(2,3) by auto
  then obtain rs where rs: "properComps rs" "q = absPath rs" by (auto simp: cleanAbs_iff)
  obtain ps where ps: "properComps ps" "p = absPath ps" using s clean_abs_shape by blast
  from q(2) have "prefix rs ps" using atOrUnder_absPath [OF rs(1) ps(1)] rs(2) ps(2) by simp
  with rs ps have "belowComps q p" by (auto simp: belowComps_def)
  with s q(1) show ?thesis by blast
qed

definition demoStat :: statFn where
  "demoStat p = (if p = ''/m/a'' then Some \<lparr>fi_isDir = False, fi_regular = True, fi_size = 2, fi_modTime = 1, fi_content = ''ab'', fi_readable = True\<rparr> else None)"

definition demoRequest :: request where
  "demoRequest = \<lparr>rq_path = ''/v1/media'',
     rq_query = ''exp=9&path=%2Fm%2Fx%2F..%2Fa&sig='' @ hexEncode (plainMac ''k'' ''/v1/media?path=%2Fm%2Fx%2F..%2Fa|9'')\<rparr>"

lemma media_confined_witness:
  "\<exists>p fi. handleMedia plainMac ''k'' ''/t'' [''/m''] demoStat 5 demoRequest = ServeFile p fi \<and> belowComps ''/m'' p"
proof -
  have run: "handleMedia plainMac ''k'' ''/t'' [''/m''] demoStat 5 demoRequest =
      ServeFile ''/m/a'' \<lparr>fi_isDir = False, fi_regular = True, fi_size = 2, fi_modTime = 1, fi_content = ''ab'', fi_readable = True\<rparr>"
    by code_simp
  have roots: "cleanAbs ''/t''" "\<forall>q \<in> set [''/m'']. cleanAbs q" by code_simp+
  have "\<not> belowComps ''/t'' ''/m/a''"
  proof
    assume "belowComps ''/t'' ''/m/a''"
    then obtain rs ps where "properComps rs" "properComps ps" "''/t'' = absPath rs" "''/m/a'' = absPath ps" "prefix rs ps"
      unfolding belowComps_def by blast
    then have "atOrUnder ''/t'' ''/m/a''" using atOrUnder_absPath by metis
    then show False by (simp add: atOrUnder_def isUnder_def)
  qed
  with media_confined [OF run roots] run show ?thesis by auto
qed

section \<open>The manifest\<close>

text \<open>The memoized sums that would be reused are right for the files as they are.\<close>

definition hashesOk :: "(string \<Rightarrow> string) \<Rightarrow> statFn \<Rightarrow> hashes \<Rightarrow> bool" where
  "hashesOk digest stat hs \<longleftrightarrow> (\<forall>p h fi. hs p = Some h \<longrightarrow> stat p = Some fi \<longrightarrow>
     ch_size h = fi_size fi \<longrightarrow> ch_modTime h = fi_modTime fi \<longrightarrow> ch_sum h = digest (fi_content fi))"

definition codecLine :: "(string \<Rightarrow> string) \<Rightarrow> statFn \<Rightarrow> string \<Rightarrow> string \<Rightarrow> CodecFile option" where
  "codecLine digest stat d name =
     (case stat (joinPath [d, name]) of
        None \<Rightarrow> None
      | Some fi \<Rightarrow>
          if fi_regular fi then Some \<lparr>cf_Name = name, cf_Size = fi_size fi, cf_SHA256 = digest (fi_content fi)\<rparr> else None)"

fun lineOf :: "scanned \<Rightarrow> CodecFile option" where
  "lineOf (ScanLine x) = Some x"
| "lineOf _ = None"

lemma scanEntry_line:
  assumes "hashesOk digest stat hs" "scanEntry digest stat d name hs = (f, hs')" "f \<noteq> ScanError"
  shows "lineOf f = codecLine digest stat d name \<and> hashesOk digest stat hs'"
  using assms
  by (auto simp: scanEntry_def codecLine_def hashesOk_def Let_def split: option.splits if_splits)

lemma scanAll_lines:
  "hashesOk digest stat hs \<Longrightarrow> scanAll digest stat d ns hs = (Inr fs, hs') \<Longrightarrow>
     fs = List.map_filter (codecLine digest stat d) ns \<and> hashesOk digest stat hs'"
proof (induction ns arbitrary: hs fs hs')
  case Nil
  then show ?case by (simp add: map_filter_def)
next
  case (Cons n ns)
  obtain f hs1 where e: "scanEntry digest stat d n hs = (f, hs1)" by (metis surj_pair)
  with Cons.prems(2) have f: "f \<noteq> ScanError" by auto
  from scanEntry_line [OF Cons.prems(1) e f] have l: "lineOf f = codecLine digest stat d n" "hashesOk digest stat hs1" by auto
  show ?case
  proof (cases f)
    case ScanSkip
    with Cons.prems(2) e have "scanAll digest stat d ns hs1 = (Inr fs, hs')" by simp
    from Cons.IH [OF l(2) this] l(1) ScanSkip show ?thesis by (simp add: map_filter_def)
  next
    case (ScanLine x)
    with Cons.prems(2) e obtain fs2 where r: "scanAll digest stat d ns hs1 = (Inr fs2, hs')" "fs = x # fs2"
      by (auto split: prod.splits sum.splits)
    from l(1) ScanLine have "codecLine digest stat d n = Some x" by simp
    with Cons.IH [OF l(2) r(1)] r(2) show ?thesis by (simp add: map_filter_def)
  qed (use f in simp)
qed

text \<open>The codec manifest is exact: it lists, in directory order, exactly the regular files of the
  resolved directory with their current sizes and digests, although sums are memoized, as
  long as the memo is right for files whose size and modification time did not change; and
  the memo it leaves behind is right again.\<close>

theorem manifest_exact:
  assumes "hashesOk digest stat hs" "manifest digest stat rd cdir build hs = (Inr m, hs')"
  shows "\<exists>d entries. resolveDir stat rd cdir build = Inr d \<and> rd d = Inr entries \<and> cm_Build m = build \<and>
    cm_Files m = List.map_filter (codecLine digest stat d) entries \<and> hashesOk digest stat hs'"
proof -
  obtain d entries where d: "resolveDir stat rd cdir build = Inr d" "rd d = Inr entries"
    using assms(2) by (auto simp: manifest_def split: sum.splits)
  with assms(2) obtain fs where s: "scanAll digest stat d entries hs = (Inr fs, hs')"
      "m = \<lparr>cm_Build = build, cm_Files = fs\<rparr>"
    by (auto simp: manifest_def split: prod.splits sum.splits)
  with scanAll_lines [OF assms(1) s(1)] d show ?thesis by auto
qed

definition demoCodecs :: statFn where
  "demoCodecs p =
     (if p = ''/c/b'' then Some \<lparr>fi_isDir = True, fi_regular = False, fi_size = 0, fi_modTime = 1, fi_content = [], fi_readable = True\<rparr>
      else if p = ''/c/b/x.so'' then Some \<lparr>fi_isDir = False, fi_regular = True, fi_size = 2, fi_modTime = 1, fi_content = ''ab'', fi_readable = True\<rparr>
      else None)"

lemma manifest_exact_witness:
  "\<exists>m hs'. manifest id demoCodecs (\<lambda>p. if p = ''/c/b'' then Inr [''x.so'', ''y''] else Inl DirOther) ''/c'' ''b'' (\<lambda>_. None) = (Inr m, hs') \<and>
     cm_Files m = [\<lparr>cf_Name = ''x.so'', cf_Size = 2, cf_SHA256 = ''ab''\<rparr>]"
proof -
  let ?rd = "\<lambda>p. if p = ''/c/b'' then Inr [''x.so'', ''y''] else Inl DirOther"
  have paths: "joinPath [''/c'', ''b''] = ''/c/b''" "joinPath [''/c/b'', ''x.so''] = ''/c/b/x.so''" "joinPath [''/c/b'', ''y''] = ''/c/b/y''"
    by code_simp+
  have dir: "resolveDir demoCodecs ?rd ''/c'' ''b'' = Inr ''/c/b''"
    by (simp add: resolveDir_def paths isDirAt_def demoCodecs_def)
  have "\<exists>m hs'. manifest id demoCodecs ?rd ''/c'' ''b'' (\<lambda>_. None) = (Inr m, hs')"
    by (simp add: manifest_def dir scanEntry_def paths demoCodecs_def)
  then obtain m hs' where run: "manifest id demoCodecs ?rd ''/c'' ''b'' (\<lambda>_. None) = (Inr m, hs')" by blast
  have "hashesOk id demoCodecs (\<lambda>_. None)" by (simp add: hashesOk_def)
  from manifest_exact [OF this run] dir obtain
    "cm_Files m = List.map_filter (codecLine id demoCodecs ''/c/b'') [''x.so'', ''y'']" by auto
  then have "cm_Files m = [\<lparr>cf_Name = ''x.so'', cf_Size = 2, cf_SHA256 = ''ab''\<rparr>]"
    by (simp add: map_filter_def codecLine_def paths demoCodecs_def)
  with run show ?thesis by blast
qed

end
