(* ===== verification/Workers.thy ===== *)
theory Workers
  imports Protocol
begin

text \<open>
  \<^verbatim>\<open>internal/masterd/workers.go\<close> and \<^verbatim>\<open>relay.go\<close>: the cache of worker health, its prober, and
  what the relay to PMS rewrites.  A probe's HTTP exchange is a parameter: the status and
  the decoded body, or a transport error.
\<close>

section \<open>The cache\<close>

definition newWorkerCache :: "string list \<Rightarrow> WorkerStatus list" where
  "newWorkerCache urls = map (\<lambda>u. \<lparr>ws_URL = u, ws_Healthy = False, ws_Health = zeroHealth\<rparr>) urls"

definition setWorker :: "nat \<Rightarrow> WorkerStatus \<Rightarrow> WorkerStatus list \<Rightarrow> WorkerStatus list" where
  "setWorker i st c = c[i := st]"

text \<open>The answer to a probe; the body is \<open>None\<close> if it is no health record.\<close>

datatype probeReply = ProbeFailed | ProbeAnswer int "Health option"

definition probeURL :: "string \<Rightarrow> string" where
  "probeURL base = trimSuffix base ''/'' @ ''/v1/health''"

definition probeWorker :: "(string \<Rightarrow> probeReply) \<Rightarrow> string \<Rightarrow> WorkerStatus" where
  "probeWorker get base =
     (let st = \<lparr>ws_URL = base, ws_Healthy = False, ws_Health = zeroHealth\<rparr> in
      case get (probeURL base) of
        ProbeFailed \<Rightarrow> st
      | ProbeAnswer status body \<Rightarrow>
          if status \<noteq> 200 then st
          else (case body of None \<Rightarrow> st | Some h \<Rightarrow> st\<lparr>ws_Healthy := True, ws_Health := h\<rparr>))"

text \<open>\<^verbatim>\<open>probeAll\<close>: one probe per worker in parallel; \<open>order\<close> is the order they complete in.\<close>

definition probeAll :: "(string \<Rightarrow> probeReply) \<Rightarrow> string list \<Rightarrow> nat list \<Rightarrow> WorkerStatus list \<Rightarrow> WorkerStatus list" where
  "probeAll get workers order c = fold (\<lambda>i. setWorker i (probeWorker get (workers ! i))) order c"

text \<open>\<^verbatim>\<open>snapshot\<close> and \<^verbatim>\<open>handleWorkers\<close>.\<close>

definition handleWorkers :: "WorkerStatus list \<Rightarrow> WorkerStatus list" where
  "handleWorkers c = c"

text \<open>Go divides durations towards zero; an interval is positive.\<close>

definition probeTimeout :: "int \<Rightarrow> int" where
  "probeTimeout interval =
     (let t = interval div 2; t1 = (if t > 5 * second then 5 * second else t)
      in if t1 < second then second else t1)"

lemma length_probeAll [simp]: "length (probeAll get workers order c) = length c"
proof -
  have "length (fold (\<lambda>i. setWorker i (probeWorker get (workers ! i))) order c) = length c"
    by (induction order arbitrary: c) (simp_all add: setWorker_def)
  then show ?thesis by (simp add: probeAll_def)
qed

lemma probeAll_nth:
  "i < length c \<Longrightarrow> probeAll get workers order c ! i =
     (if i \<in> set order then probeWorker get (workers ! i) else c ! i)"
  unfolding probeAll_def
proof (induction order arbitrary: c)
  case (Cons j order)
  then show ?case by (simp add: setWorker_def nth_list_update)
qed simp

text \<open>Whatever order the parallel probes finish in, after a round the cache is the list of the
  probe results in the order of the configured workers; a worker is shown healthy only if
  it answered 200 with a health record.\<close>

theorem probe_round:
  assumes "length c = length workers" "set order = {..<length workers}"
  shows "handleWorkers (probeAll get workers order c) = map (probeWorker get) workers \<and>
    (\<forall>w \<in> set (probeAll get workers order c). ws_Healthy w \<longrightarrow>
       get (probeURL (ws_URL w)) = ProbeAnswer 200 (Some (ws_Health w)))"
proof -
  have all: "probeAll get workers order c = map (probeWorker get) workers"
    using assms by (intro nth_equalityI) (simp_all add: probeAll_nth)
  have "ws_Healthy (probeWorker get b) \<Longrightarrow>
      get (probeURL (ws_URL (probeWorker get b))) = ProbeAnswer 200 (Some (ws_Health (probeWorker get b)))" for b
    by (auto simp: probeWorker_def Let_def split: probeReply.splits option.splits if_splits)
  with all show ?thesis by (auto simp: handleWorkers_def)
qed

lemma probe_round_witness:
  "handleWorkers (probeAll (\<lambda>u. ProbeAnswer 200 (Some zeroHealth)) [''a'', ''b''] [1, 0] (newWorkerCache [''a'', ''b''])) =
     map (probeWorker (\<lambda>u. ProbeAnswer 200 (Some zeroHealth))) [''a'', ''b'']"
proof -
  have "length (newWorkerCache [''a'', ''b'']) = length [''a'', ''b'']" by (simp add: newWorkerCache_def)
  moreover have "set [1, 0] = {..<length [''a'', ''b'']}" by auto
  ultimately show ?thesis using probe_round by blast
qed

text \<open>
  The bound the comment of \<^verbatim>\<open>probeTimeout\<close> states holds from two seconds on; below, the probe
  may take the whole interval.
\<close>

lemma probeTimeout_bounds:
  "probeTimeout interval \<ge> second" "probeTimeout interval \<le> 5 * second"
  "interval \<ge> 2 * second \<Longrightarrow> probeTimeout interval \<le> interval div 2"
  "probeTimeout second = second"
  by (auto simp: probeTimeout_def Let_def second_def millisecond_def)

section \<open>The relay\<close>

record outRequest =
  or_path :: string
  or_query :: string
  or_headers :: "(string \<times> string) list"

text \<open>
  The \<^verbatim>\<open>Rewrite\<close> of the reverse proxy: the id segment goes, path and query stay, our bearer
  token is not forwarded.  Header names are canonical, as \<^verbatim>\<open>net/http\<close> has them.
\<close>

definition relayRewrite :: "string \<Rightarrow> string \<Rightarrow> (string \<times> string) list \<Rightarrow> outRequest" where
  "relayRewrite rest rawQuery headers =
     \<lparr>or_path = ''/'' @ rest, or_query = rawQuery,
      or_headers = filter (\<lambda>kv. fst kv \<noteq> ''Authorization'') headers\<rparr>"

end
