(* ===== verification/Prober.thy ===== *)
theory Prober
  imports Workers Transition
begin

text \<open>
  The background prober of masterd with its readers (\<^verbatim>\<open>runProber\<close>, \<^verbatim>\<open>probeAll\<close>, \<^verbatim>\<open>snapshot\<close> in
  \<^verbatim>\<open>internal/masterd/workers.go\<close>): a round starts one probe per worker, each probe stores its result
  under the lock when it is done, and the next round waits for all of them.  A reader may come
  between any two of these steps.  What it sees is shown to be the configured workers in order,
  healthy only with a health record that this very worker sent.
\<close>

section \<open>The system\<close>

record prober =
  pb_cache :: "WorkerStatus list"
  pb_flight :: "nat set"              \<comment> \<open>probes of the round that are not done\<close>
  pb_answers :: "(nat \<times> Health) set"  \<comment> \<open>trace: health records received\<close>

datatype paction =
    ProbeRound                 \<comment> \<open>the first round, or a tick\<close>
  | ProbeDone nat probeReply   \<comment> \<open>a probe stores its result\<close>

definition startProber :: "string list \<Rightarrow> prober" where
  "startProber urls = \<lparr>pb_cache = newWorkerCache urls, pb_flight = {}, pb_answers = {}\<rparr>"

definition healthOf :: "probeReply \<Rightarrow> Health option" where
  "healthOf r = (case r of ProbeAnswer status body \<Rightarrow> if status = 200 then body else None | ProbeFailed \<Rightarrow> None)"

fun pstep :: "string list \<Rightarrow> paction \<Rightarrow> prober \<Rightarrow> prober option" where
  "pstep urls ProbeRound p =
     (if pb_flight p = {} then Some (p\<lparr>pb_flight := {..<length urls}\<rparr>) else None)"
| "pstep urls (ProbeDone i r) p =
     (if i \<in> pb_flight p
      then Some (p\<lparr>pb_cache := setWorker i (probeWorker (\<lambda>u. r) (urls ! i)) (pb_cache p),
                   pb_flight := pb_flight p - {i},
                   pb_answers := Pair i ` set_option (healthOf r) \<union> pb_answers p\<rparr>)
      else None)"

definition snapshot :: "prober \<Rightarrow> WorkerStatus list" where
  "snapshot p = pb_cache p"

section \<open>What a reader sees\<close>

lemma probeWorker_url [simp]: "ws_URL (probeWorker get u) = u"
  by (simp add: probeWorker_def Let_def split: probeReply.splits option.splits)

lemma probeWorker_healthy:
  "ws_Healthy (probeWorker get u) \<longleftrightarrow> healthOf (get (probeURL u)) \<noteq> None"
  "healthOf (get (probeURL u)) = Some h \<Longrightarrow> ws_Health (probeWorker get u) = h"
  by (auto simp: probeWorker_def healthOf_def Let_def split: probeReply.splits option.splits if_splits)

definition proberInv :: "string list \<Rightarrow> prober \<Rightarrow> bool" where
  "proberInv urls p \<longleftrightarrow> pb_flight p \<subseteq> {..<length urls} \<and> map ws_URL (pb_cache p) = urls \<and>
     (\<forall>i < length urls. ws_Healthy (pb_cache p ! i) \<longrightarrow> (i, ws_Health (pb_cache p ! i)) \<in> pb_answers p)"

lemma proberInv_start: "proberInv urls (startProber urls)"
  by (simp add: proberInv_def startProber_def newWorkerCache_def comp_def)

lemma pstep_inv:
  assumes "proberInv urls p" "pstep urls a p = Some q"
  shows "proberInv urls q"
proof (cases a)
  case ProbeRound
  with assms show ?thesis by (auto simp: proberInv_def split: if_splits)
next
  case (ProbeDone i r)
  let ?st = "probeWorker (\<lambda>u. r) (urls ! i)"
  have i: "i < length urls" and q: "q = p\<lparr>pb_cache := setWorker i ?st (pb_cache p), pb_flight := pb_flight p - {i},
      pb_answers := Pair i ` set_option (healthOf r) \<union> pb_answers p\<rparr>"
    using assms ProbeDone by (auto simp: proberInv_def split: if_splits)
  have len: "length (pb_cache p) = length urls" using assms(1) by (metis length_map proberInv_def)
  have "map ws_URL (setWorker i ?st (pb_cache p)) = urls"
    using assms(1) i by (simp add: setWorker_def map_update proberInv_def)
  moreover have "ws_Healthy ?st \<Longrightarrow> ws_Health ?st \<in> set_option (healthOf r)"
    using probeWorker_healthy [of "\<lambda>u. r" "urls ! i"] by fastforce
  ultimately show ?thesis
    using assms(1) i len by (auto simp: proberInv_def q setWorker_def nth_list_update)
qed

interpretation prober: invariant_of "pstep urls" "\<lambda>p. p = startProber urls" "proberInv urls"
  for urls
  by unfold_locales (auto intro: proberInv_start pstep_inv)

text \<open>
  At any moment, the middle of a round included, a reader gets one entry per configured worker in
  the configured order, and a healthy entry carries a health record that worker answered with.
\<close>

lemma snapshot_answers:
  assumes "reachable (pstep urls) (startProber urls) p" "i < length urls"
  shows "length (snapshot p) = length urls \<and> ws_URL (snapshot p ! i) = urls ! i \<and>
    (ws_Healthy (snapshot p ! i) \<longrightarrow> (i, ws_Health (snapshot p ! i)) \<in> pb_answers p)"
proof -
  have inv: "proberInv urls p" by (rule prober.inv_reachable [OF refl assms(1)])
  then have "length (pb_cache p) = length urls" by (metis length_map proberInv_def)
  with inv assms(2) show ?thesis unfolding proberInv_def snapshot_def by (metis nth_map)
qed

section \<open>A round\<close>

lemma probeWorker_reply: "probeWorker (\<lambda>u. get (probeURL b)) b = probeWorker get b"
  by (simp add: probeWorker_def)

text \<open>Probes that are done in any order, with nothing lost, make the round of \<^verbatim>\<open>probeAll\<close>.\<close>

lemma probes_run:
  assumes "distinct order" "set order \<subseteq> pb_flight p"
  shows "\<exists>q. run_actions (pstep urls) (map (\<lambda>i. ProbeDone i (get (probeURL (urls ! i)))) order) p = Some q \<and>
    pb_cache q = probeAll get urls order (pb_cache p) \<and> pb_flight q = pb_flight p - set order"
  using assms
proof (induction order arbitrary: p)
  case Nil
  then show ?case by (simp add: probeAll_def)
next
  case (Cons i order)
  let ?r = "get (probeURL (urls ! i))"
  obtain p' where p': "pstep urls (ProbeDone i ?r) p = Some p'" using Cons.prems(2) by simp
  then have c: "pb_cache p' = setWorker i (probeWorker get (urls ! i)) (pb_cache p)" "pb_flight p' = pb_flight p - {i}"
    using Cons.prems(2) by (auto simp: probeWorker_reply)
  have "distinct order" "set order \<subseteq> pb_flight p'" using Cons.prems c(2) by auto
  from Cons.IH [OF this] obtain q where
    q: "run_actions (pstep urls) (map (\<lambda>i. ProbeDone i (get (probeURL (urls ! i)))) order) p' = Some q"
      "pb_cache q = probeAll get urls order (pb_cache p')" "pb_flight q = pb_flight p' - set order" by blast
  have "run_actions (pstep urls) (map (\<lambda>i. ProbeDone i (get (probeURL (urls ! i)))) (i # order)) p = Some q"
    using p' q(1) by simp
  moreover have "pb_cache q = probeAll get urls (i # order) (pb_cache p)" using q(2) c(1) by (simp add: probeAll_def)
  moreover have "pb_flight q = pb_flight p - set (i # order)" using q(3) c(2) by auto
  ultimately show ?case by blast
qed

lemma round_run:
  assumes "pb_flight p = {}" "distinct order" "set order = {..<length urls}"
  shows "\<exists>q. run_actions (pstep urls) (ProbeRound # map (\<lambda>i. ProbeDone i (get (probeURL (urls ! i)))) order) p = Some q \<and>
    pb_cache q = probeAll get urls order (pb_cache p) \<and> pb_flight q = {}"
  using probes_run [OF assms(2), of "p\<lparr>pb_flight := {..<length urls}\<rparr>"] assms(1,3) by auto

end
