(* ===== verification/Rewrite.thy ===== *)
theory Rewrite
  imports Authtok GoPath
begin

text \<open>
  \<^verbatim>\<open>internal/shim/rewrite.go\<close>: the argv rewrite of a dispatched job.  The rewriter's two
  maps are association lists (media in the order of their indices, the dedupe table newest
  first) threaded through the calls; the MAC of the URL signature is a parameter.
\<close>

definition PlaceholderPlexDir :: string where "PlaceholderPlexDir = ''{{PLEXDIR}}''"

record rewriter =
  rw_sessionDir :: string
  rw_plexDir :: string
  rw_advertise :: string
  rw_token :: string
  rw_expiry :: int
  rw_media :: "(string \<times> MediaRef) list"
  rw_byPath :: "(string \<times> string) list"

definition newRewriter :: "string \<Rightarrow> string \<Rightarrow> string \<Rightarrow> string \<Rightarrow> int \<Rightarrow> rewriter" where
  "newRewriter sessionDir plexDir advertiseURL token expiry =
     \<lparr>rw_sessionDir = clean sessionDir, rw_plexDir = clean plexDir,
      rw_advertise = trimRight advertiseURL ''/'', rw_token = token, rw_expiry = expiry,
      rw_media = [], rw_byPath = []\<rparr>"

section \<open>Media references\<close>

definition absIn :: "rewriter \<Rightarrow> string \<Rightarrow> string" where
  "absIn rw p = clean (if isAbs p then p else joinPath [rw_sessionDir rw, p])"

definition underSessionDir :: "rewriter \<Rightarrow> string \<Rightarrow> bool" where
  "underSessionDir rw a \<longleftrightarrow> a = rw_sessionDir rw \<or> hasPrefix a (rw_sessionDir rw @ ''/'')"

definition signedMediaURL :: "(string \<Rightarrow> string \<Rightarrow> string) \<Rightarrow> rewriter \<Rightarrow> string \<Rightarrow> string" where
  "signedMediaURL mac rw a =
     rw_advertise rw @ SignURL mac (rw_token rw) (''/v1/media?path='' @ QueryEscape a) (rw_expiry rw)"

fun modeName :: "MediaMode \<Rightarrow> string" where
  "modeName MediaModeStream = ''stream''"
| "modeName MediaModeSpool = ''spool''"
| "modeName (MediaModeOther s) = s"

definition mediaKey :: "MediaMode \<Rightarrow> string \<Rightarrow> string" where
  "mediaKey mode a = modeName mode @ [CHR 0x00] @ a"

definition addMedia :: "(string \<Rightarrow> string \<Rightarrow> string) \<Rightarrow> string \<Rightarrow> MediaMode \<Rightarrow> rewriter \<Rightarrow> string \<times> rewriter" where
  "addMedia mac a mode rw =
     (case map_of (rw_byPath rw) (mediaKey mode a) of
        Some ph \<Rightarrow> (ph, rw)
      | None \<Rightarrow>
          let n = length (rw_media rw); ph = MediaPlaceholder n in
          (ph, rw\<lparr>rw_media := rw_media rw @ [(decimal n, \<lparr>mr_URL = signedMediaURL mac rw a, mr_Mode = mode\<rparr>)],
                  rw_byPath := (mediaKey mode a, ph) # rw_byPath rw\<rparr>))"

section \<open>Filter strings\<close>

fun cutFilterValue :: "string \<Rightarrow> string \<times> string" where
  "cutFilterValue [] = ([], [])"
| "cutFilterValue (c # cs) =
     (if c = CHR 0x5C then
        (case cs of [] \<Rightarrow> ([c], []) | d # ds \<Rightarrow> (let (v, r) = cutFilterValue ds in (c # d # v, r)))
      else if c \<in> set '':,;[]'' then ([], c # cs)
      else (let (v, r) = cutFilterValue cs in (c # v, r)))"

fun unescapeFilter :: "string \<Rightarrow> string" where
  "unescapeFilter [] = []"
| "unescapeFilter (c # cs) =
     (if c = CHR 0x5C then (case cs of [] \<Rightarrow> [c] | d # ds \<Rightarrow> d # unescapeFilter ds)
      else c # unescapeFilter cs)"

definition spoolRef :: "(string \<Rightarrow> string \<Rightarrow> string) \<Rightarrow> string \<Rightarrow> rewriter \<Rightarrow> string \<times> rewriter" where
  "spoolRef mac v rw = addMedia mac (absIn rw (unescapeFilter v)) MediaModeSpool rw"

text \<open>One option of a \<^verbatim>\<open>subtitles=\<close> list.\<close>

definition rewriteOpt :: "(string \<Rightarrow> string \<Rightarrow> string) \<Rightarrow> bool \<Rightarrow> string \<Rightarrow> rewriter \<Rightarrow> string \<times> rewriter" where
  "rewriteOpt mac first val rw =
     (case cut val ''='' of (k, v, hasEq) \<Rightarrow>
        if hasEq \<and> (k = ''filename'' \<or> k = ''f'' \<or> k = ''fontsdir'')
        then (let (ph, rw') = spoolRef mac v rw in (k @ ''='' @ ph, rw'))
        else if \<not> hasEq \<and> first \<and> val \<noteq> [] then spoolRef mac val rw
        else (val, rw))"

lemma cutFilterValue_split: "cutFilterValue s = (v, r) \<Longrightarrow> s = v @ r"
proof (induction s arbitrary: v r rule: cutFilterValue.induct)
  case 1
  then show ?case by simp
next
  case (2 c cs)
  then show ?case by (auto split: if_splits list.splits prod.splits)
qed

lemma cutFilterValue_length: "cutFilterValue s = (v, r) \<Longrightarrow> length r \<le> length s"
  using cutFilterValue_split by fastforce

text \<open>The inner loop of \<^verbatim>\<open>rewriteSubtitlesOpts\<close>: options separated by colons.\<close>

function rewriteOpts ::
  "(string \<Rightarrow> string \<Rightarrow> string) \<Rightarrow> bool \<Rightarrow> string \<Rightarrow> rewriter \<Rightarrow> string \<times> string \<times> rewriter" where
  "rewriteOpts mac first s rw =
     (case cutFilterValue s of (val, rest) \<Rightarrow>
        (case rewriteOpt mac first val rw of (out, rw1) \<Rightarrow>
           (case rest of
              c # r \<Rightarrow>
                if c = CHR '':'' then
                  (case rewriteOpts mac False r rw1 of (out2, rest2, rw2) \<Rightarrow> (out @ '':'' @ out2, rest2, rw2))
                else (out, rest, rw1)
            | [] \<Rightarrow> (out, [], rw1))))"
  by auto
termination
  by (relation "measure (\<lambda>(mac, first, s, rw). length s)") (auto dest!: cutFilterValue_length [OF sym])

declare rewriteOpts.simps [simp del]

lemma rewriteOpts_length: "rewriteOpts mac first s rw = (out, rest, rw') \<Longrightarrow> length rest \<le> length s"
proof (induction mac first s rw arbitrary: out rest rw' rule: rewriteOpts.induct)
  case (1 mac first s rw)
  obtain val r where c: "cutFilterValue s = (val, r)" by (metis surj_pair)
  obtain o1 rw1 where o: "rewriteOpt mac first val rw = (o1, rw1)" by (metis surj_pair)
  have len: "length r \<le> length s" using cutFilterValue_length [OF c] .
  show ?case
  proof (cases r)
    case Nil
    with 1(2) c o show ?thesis by (subst (asm) rewriteOpts.simps) simp
  next
    case (Cons d ds)
    show ?thesis
    proof (cases "d = CHR '':''")
      case True
      obtain o2 rest2 rw2 where rec: "rewriteOpts mac False ds rw1 = (o2, rest2, rw2)" by (metis prod_cases3)
      have "rest = rest2" using 1(2) c o Cons True rec by (subst (asm) rewriteOpts.simps) simp
      moreover have "length rest2 \<le> length ds"
        using 1(1) [OF c [symmetric] o [symmetric] Cons True rec] .
      ultimately show ?thesis using len Cons by simp
    next
      case False
      with 1(2) c o Cons len show ?thesis by (subst (asm) rewriteOpts.simps) simp
    qed
  qed
qed

text \<open>The outer loop, over the occurrences of \<^verbatim>\<open>subtitles=\<close>.\<close>

function rewriteSubtitlesOpts :: "(string \<Rightarrow> string \<Rightarrow> string) \<Rightarrow> string \<Rightarrow> rewriter \<Rightarrow> string \<times> rewriter" where
  "rewriteSubtitlesOpts mac s rw =
     (case index s ''subtitles='' of
        None \<Rightarrow> (s, rw)
      | Some i \<Rightarrow>
          (case rewriteOpts mac True (drop (i + length ''subtitles='') s) rw of (out, rest, rw1) \<Rightarrow>
             (case rewriteSubtitlesOpts mac rest rw1 of (out2, rw2) \<Rightarrow>
                (take (i + length ''subtitles='') s @ out @ out2, rw2))))"
  by auto
termination
  by (relation "measure (\<lambda>(mac, s, rw). length s)")
     (auto dest!: rewriteOpts_length [OF sym] index_le_length)

declare rewriteSubtitlesOpts.simps [simp del]

definition rewriteValue :: "(string \<Rightarrow> string \<Rightarrow> string) \<Rightarrow> string \<Rightarrow> rewriter \<Rightarrow> string \<times> rewriter" where
  "rewriteValue mac val rw =
     (if val = [] \<or> hasPrefix val ''{{MEDIA'' then (val, rw) else spoolRef mac val rw)"

text \<open>\<^verbatim>\<open>rewriteKeyValues\<close>; its only key is not empty (the guard makes the recursion end).\<close>

function rewriteKeyValues ::
  "(string \<Rightarrow> string \<Rightarrow> string) \<Rightarrow> string \<Rightarrow> string \<Rightarrow> rewriter \<Rightarrow> string \<times> rewriter" where
  "rewriteKeyValues mac s key rw =
     (case index s key of
        None \<Rightarrow> (s, rw)
      | Some i \<Rightarrow>
          if key = [] then (s, rw)
          else (case cutFilterValue (drop (i + length key) s) of (val, rest) \<Rightarrow>
             (case rewriteValue mac val rw of (out, rw1) \<Rightarrow>
                (case rewriteKeyValues mac rest key rw1 of (out2, rw2) \<Rightarrow>
                   (take (i + length key) s @ out @ out2, rw2)))))"
  by auto
termination
proof (relation "measure (\<lambda>(mac, s, key, rw). length s)", simp, goal_cases)
  case (1 mac s key rw i val rest)
  then have "length rest \<le> length (drop (i + length key) s)" using cutFilterValue_length by metis
  moreover have "i + length key \<le> length s" using index_le_length 1(1) by blast
  ultimately show ?case using 1(2) by (cases key) auto
qed

declare rewriteKeyValues.simps [simp del]

definition rewriteFilterRefs :: "(string \<Rightarrow> string \<Rightarrow> string) \<Rightarrow> string \<Rightarrow> rewriter \<Rightarrow> string \<times> rewriter" where
  "rewriteFilterRefs mac s rw =
     (if \<not> contains s ''subtitles='' \<and> \<not> contains s ''fontsdir='' then (s, rw)
      else (case rewriteSubtitlesOpts mac s rw of (s1, rw1) \<Rightarrow> rewriteKeyValues mac s1 ''fontsdir='' rw1))"

section \<open>Tokens and the whole argv\<close>

definition remapPrefix :: "string \<Rightarrow> string \<Rightarrow> string \<Rightarrow> string option" where
  "remapPrefix root ph a = (if hasPrefix a (root @ ''/'') then Some (ph @ drop (length root) a) else None)"

definition rewriteToken :: "(string \<Rightarrow> string \<Rightarrow> string) \<Rightarrow> string \<Rightarrow> rewriter \<Rightarrow> string \<times> rewriter" where
  "rewriteToken mac tok rw =
     (case rewriteFilterRefs mac (replaceAll tok PMSURLPrefix PlaceholderPMS) rw of (a, rw1) \<Rightarrow>
        (case remapPrefix (rw_sessionDir rw1) PlaceholderOutDir a of
           Some b \<Rightarrow> (b, rw1)
         | None \<Rightarrow>
             (case remapPrefix (rw_plexDir rw1) PlaceholderPlexDir a of
                Some b \<Rightarrow> (b, rw1)
              | None \<Rightarrow> (a, rw1))))"

definition rewriteInput :: "(string \<Rightarrow> string \<Rightarrow> string) \<Rightarrow> string \<Rightarrow> rewriter \<Rightarrow> string \<times> rewriter" where
  "rewriteInput mac v rw =
     (if contains v PMSURLPrefix then (replaceAll v PMSURLPrefix PlaceholderPMS, rw)
      else if contains v ''://'' then (v, rw)
      else let a = absIn rw v in
        addMedia mac a (if underSessionDir rw a then MediaModeSpool else MediaModeStream) rw)"

fun rewriteArgs :: "(string \<Rightarrow> string \<Rightarrow> string) \<Rightarrow> string list \<Rightarrow> rewriter \<Rightarrow> string list \<times> rewriter" where
  "rewriteArgs mac [] rw = ([], rw)"
| "rewriteArgs mac [a] rw = (case rewriteToken mac a rw of (b, rw1) \<Rightarrow> ([b], rw1))"
| "rewriteArgs mac (a # v # rest) rw =
     (if a = ''-i'' then
        (case rewriteInput mac v rw of (b, rw1) \<Rightarrow>
          (case rewriteArgs mac rest rw1 of (out, rw2) \<Rightarrow> (a # b # out, rw2)))
      else
        (case rewriteToken mac a rw of (b, rw1) \<Rightarrow>
          (case rewriteArgs mac (v # rest) rw1 of (out, rw2) \<Rightarrow> (b # out, rw2))))"

end
