(* ===== verification/RewriteMedia.thy ===== *)
theory RewriteMedia
  imports Rewrite
begin

text \<open>
  What the argv rewrite does to the media inputs: the invariant of the rewriter's two
  tables, kept by every function of \<^verbatim>\<open>internal/shim/rewrite.go\<close>, the entries of the inputs, and
  the request a signed media URL turns into at masterd.
\<close>

section \<open>The media table\<close>

text \<open>
  The media map has the keys 0, 1, 2, ... in order; the dedupe table has one entry per
  media entry, each giving the placeholder of the entry with that mode and path.
\<close>

definition entryOk :: "(string \<Rightarrow> string \<Rightarrow> string) \<Rightarrow> rewriter \<Rightarrow> string \<times> string \<Rightarrow> bool" where
  "entryOk mac rw e \<longleftrightarrow> (\<exists>i < length (rw_media rw). \<exists>mode a. mode \<in> {MediaModeStream, MediaModeSpool} \<and>
     e = (mediaKey mode a, MediaPlaceholder i) \<and>
     rw_media rw ! i = (decimal i, \<lparr>mr_URL = signedMediaURL mac rw a, mr_Mode = mode\<rparr>))"

definition rwOk :: "(string \<Rightarrow> string \<Rightarrow> string) \<Rightarrow> rewriter \<Rightarrow> bool" where
  "rwOk mac rw \<longleftrightarrow> length (rw_byPath rw) = length (rw_media rw) \<and>
     distinct (map fst (rw_byPath rw)) \<and> (\<forall>e \<in> set (rw_byPath rw). entryOk mac rw e) \<and>
     (\<forall>i < length (rw_media rw). fst (rw_media rw ! i) = decimal i) \<and>
     map snd (rw_byPath rw) = rev (map MediaPlaceholder [0..<length (rw_media rw)])"

text \<open>The rewriter only grows its tables.\<close>

definition rwExt :: "rewriter \<Rightarrow> rewriter \<Rightarrow> bool" where
  "rwExt rw rw' \<longleftrightarrow> rw_sessionDir rw' = rw_sessionDir rw \<and> rw_plexDir rw' = rw_plexDir rw \<and>
     rw_advertise rw' = rw_advertise rw \<and> rw_token rw' = rw_token rw \<and> rw_expiry rw' = rw_expiry rw \<and>
     prefix (rw_media rw) (rw_media rw') \<and> suffix (rw_byPath rw) (rw_byPath rw')"

definition rwStep :: "(string \<Rightarrow> string \<Rightarrow> string) \<Rightarrow> rewriter \<Rightarrow> rewriter \<Rightarrow> bool" where
  "rwStep mac rw rw' \<longleftrightarrow> (rwOk mac rw \<longrightarrow> rwOk mac rw') \<and> rwExt rw rw'"

lemma rwExt_refl [simp]: "rwExt rw rw"
  by (simp add: rwExt_def)

lemma rwExt_trans: "rwExt a b \<Longrightarrow> rwExt b c \<Longrightarrow> rwExt a c"
  by (auto simp: rwExt_def intro: prefix_order.order_trans suffix_order.order_trans)

lemma rwStep_refl [simp]: "rwStep mac rw rw"
  by (simp add: rwStep_def)

lemma rwStep_trans: "rwStep mac a b \<Longrightarrow> rwStep mac b c \<Longrightarrow> rwStep mac a c"
  by (auto simp: rwStep_def intro: rwExt_trans)

lemma signedMediaURL_ext: "rwExt rw rw' \<Longrightarrow> signedMediaURL mac rw' a = signedMediaURL mac rw a"
  by (simp add: rwExt_def signedMediaURL_def)

lemma entryOk_ext: "entryOk mac rw e \<Longrightarrow> rwExt rw rw' \<Longrightarrow> entryOk mac rw' e"
proof -
  assume e: "entryOk mac rw e" and ext: "rwExt rw rw'"
  then obtain i mode a where i: "i < length (rw_media rw)" "mode \<in> {MediaModeStream, MediaModeSpool}" "e = (mediaKey mode a, MediaPlaceholder i)"
      "rw_media rw ! i = (decimal i, \<lparr>mr_URL = signedMediaURL mac rw a, mr_Mode = mode\<rparr>)"
    unfolding entryOk_def by blast
  obtain more where "rw_media rw' = rw_media rw @ more" using ext by (auto simp: rwExt_def prefix_def)
  with i show ?thesis
    unfolding entryOk_def signedMediaURL_ext [OF ext]
    by (intro exI [of _ i] conjI exI [of _ mode] exI [of _ a]) (simp_all add: nth_append)
qed

lemma addMedia_step:
  assumes "addMedia mac a mode rw = (ph, rw')" "mode \<in> {MediaModeStream, MediaModeSpool}"
  shows "rwStep mac rw rw'"
proof (cases "map_of (rw_byPath rw) (mediaKey mode a)")
  case (Some p)
  with assms(1) show ?thesis by (simp add: addMedia_def)
next
  case None
  note add = assms(1)
  let ?n = "length (rw_media rw)"
  let ?new = "(decimal ?n, \<lparr>mr_URL = signedMediaURL mac rw a, mr_Mode = mode\<rparr>)"
  have rw': "rw' = rw\<lparr>rw_media := rw_media rw @ [?new], rw_byPath := (mediaKey mode a, MediaPlaceholder ?n) # rw_byPath rw\<rparr>"
    using add None by (auto simp: addMedia_def Let_def)
  have ext: "rwExt rw rw'" unfolding rw' by (simp add: rwExt_def suffix_ConsI)
  have "rwOk mac rw'" if ok: "rwOk mac rw"
  proof -
    have "entryOk mac rw' (mediaKey mode a, MediaPlaceholder ?n)"
      unfolding entryOk_def signedMediaURL_ext [OF ext] using assms(2)
      by (intro exI [of _ ?n] conjI exI [of _ mode] exI [of _ a]) (simp_all add: rw')
    moreover have "\<forall>e \<in> set (rw_byPath rw). entryOk mac rw' e"
      using ok entryOk_ext [OF _ ext] by (simp add: rwOk_def)
    moreover have "mediaKey mode a \<notin> fst ` set (rw_byPath rw)"
      using None by (simp add: map_of_eq_None_iff)
    moreover have "\<forall>i < Suc ?n. fst ((rw_media rw @ [?new]) ! i) = decimal i"
      using ok by (auto simp: rwOk_def nth_append less_Suc_eq)
    ultimately show ?thesis using ok by (simp add: rwOk_def rw')
  qed
  with ext show ?thesis by (simp add: rwStep_def)
qed

lemma spoolRef_step: "spoolRef mac v rw = (ph, rw') \<Longrightarrow> rwStep mac rw rw'"
  unfolding spoolRef_def by (erule addMedia_step) simp

lemma rewriteOpt_step: "rewriteOpt mac first val rw = (out, rw') \<Longrightarrow> rwStep mac rw rw'"
  by (auto simp: rewriteOpt_def dest: spoolRef_step split: prod.splits if_splits)

lemma rewriteOpts_step: "rewriteOpts mac first s rw = (out, rest, rw') \<Longrightarrow> rwStep mac rw rw'"
proof (induction mac first s rw arbitrary: out rest rw' rule: rewriteOpts.induct)
  case (1 mac first s rw)
  obtain val r where c: "cutFilterValue s = (val, r)" by (metis surj_pair)
  obtain o1 rw1 where o: "rewriteOpt mac first val rw = (o1, rw1)" by (metis surj_pair)
  note s1 = rewriteOpt_step [OF o]
  show ?case
  proof (cases "\<exists>ds. r = CHR '':'' # ds")
    case True
    then obtain ds where r: "r = CHR '':'' # ds" by blast
    obtain o2 rest2 rw2 where rec: "rewriteOpts mac False ds rw1 = (o2, rest2, rw2)" by (metis prod_cases3)
    have "rw' = rw2" using 1(2) c o r rec by (subst (asm) rewriteOpts.simps) simp
    moreover have "rwStep mac rw1 rw2" using 1(1) [OF c [symmetric] o [symmetric] r refl rec] .
    ultimately show ?thesis using s1 rwStep_trans by metis
  next
    case False
    then have "rw' = rw1" using 1(2) c o by (subst (asm) rewriteOpts.simps) (auto split: list.splits if_splits)
    with s1 show ?thesis by simp
  qed
qed

lemma rewriteSubtitlesOpts_step: "rewriteSubtitlesOpts mac s rw = (out, rw') \<Longrightarrow> rwStep mac rw rw'"
proof (induction mac s rw arbitrary: out rw' rule: rewriteSubtitlesOpts.induct)
  case (1 mac s rw)
  show ?case
  proof (cases "index s ''subtitles=''")
    case None
    with 1(2) show ?thesis by (subst (asm) rewriteSubtitlesOpts.simps) simp
  next
    case (Some i)
    obtain o1 rest rw1 where o: "rewriteOpts mac True (drop (i + length ''subtitles='') s) rw = (o1, rest, rw1)"
      by (metis prod_cases3)
    obtain o2 rw2 where rec: "rewriteSubtitlesOpts mac rest rw1 = (o2, rw2)" by (metis surj_pair)
    have "rw' = rw2" using 1(2) Some o rec by (subst (asm) rewriteSubtitlesOpts.simps) simp
    moreover have "rwStep mac rw1 rw2" using 1(1) [OF Some o [symmetric] refl rec] .
    ultimately show ?thesis using rewriteOpts_step [OF o] rwStep_trans by metis
  qed
qed

lemma rewriteValue_step: "rewriteValue mac val rw = (out, rw') \<Longrightarrow> rwStep mac rw rw'"
  by (auto simp: rewriteValue_def dest: spoolRef_step split: if_splits)

lemma rewriteKeyValues_step: "rewriteKeyValues mac s key rw = (out, rw') \<Longrightarrow> rwStep mac rw rw'"
proof (induction mac s key rw arbitrary: out rw' rule: rewriteKeyValues.induct)
  case (1 mac s key rw)
  show ?case
  proof (cases "index s key = None \<or> key = []")
    case True
    with 1(2) show ?thesis by (subst (asm) rewriteKeyValues.simps) (auto split: option.splits)
  next
    case False
    then obtain i where i: "index s key = Some i" "key \<noteq> []" by auto
    obtain val rest where c: "cutFilterValue (drop (i + length key) s) = (val, rest)" by (metis surj_pair)
    obtain o1 rw1 where o: "rewriteValue mac val rw = (o1, rw1)" by (metis surj_pair)
    obtain o2 rw2 where rec: "rewriteKeyValues mac rest key rw1 = (o2, rw2)" by (metis surj_pair)
    have "rw' = rw2" using 1(2) i c o rec by (subst (asm) rewriteKeyValues.simps) simp
    moreover have "rwStep mac rw1 rw2" using 1(1) [OF i(1,2) c [symmetric] o [symmetric] rec] .
    ultimately show ?thesis using rewriteValue_step [OF o] rwStep_trans by metis
  qed
qed

lemma rewriteFilterRefs_step: "rewriteFilterRefs mac s rw = (out, rw') \<Longrightarrow> rwStep mac rw rw'"
  unfolding rewriteFilterRefs_def
  by (auto dest!: rewriteSubtitlesOpts_step rewriteKeyValues_step intro: rwStep_trans split: if_splits prod.splits)

lemma rewriteToken_step: "rewriteToken mac tok rw = (out, rw') \<Longrightarrow> rwStep mac rw rw'"
proof -
  assume "rewriteToken mac tok rw = (out, rw')"
  moreover obtain a rw1 where "rewriteFilterRefs mac (replaceAll tok PMSURLPrefix PlaceholderPMS) rw = (a, rw1)"
    by (metis surj_pair)
  ultimately show ?thesis
    using rewriteFilterRefs_step by (auto simp: rewriteToken_def split: option.splits)
qed

lemma rewriteInput_step: "rewriteInput mac v rw = (out, rw') \<Longrightarrow> rwStep mac rw rw'"
  by (auto simp: rewriteInput_def Let_def intro: addMedia_step split: if_splits)

lemma rewriteArgs_step: "rewriteArgs mac args rw = (out, rw') \<Longrightarrow> rwStep mac rw rw' \<and> length out = length args"
proof (induction mac args rw arbitrary: out rw' rule: rewriteArgs.induct)
  case (1 mac rw)
  then show ?case by simp
next
  case (2 mac a rw)
  then show ?case by (auto dest: rewriteToken_step split: prod.splits)
next
  case (3 mac a v rest rw)
  show ?case
  proof (cases "a = ''-i''")
    case True
    obtain b rw1 where b: "rewriteInput mac v rw = (b, rw1)" by (metis surj_pair)
    obtain o2 rw2 where rec: "rewriteArgs mac rest rw1 = (o2, rw2)" by (metis surj_pair)
    have "rw' = rw2" "out = a # b # o2" using 3(3) True b rec by simp_all
    moreover have "rwStep mac rw1 rw2 \<and> length o2 = length rest" using 3(1) [OF True b [symmetric] rec] .
    ultimately show ?thesis using rewriteInput_step [OF b] rwStep_trans by auto
  next
    case False
    obtain b rw1 where b: "rewriteToken mac a rw = (b, rw1)" by (metis surj_pair)
    obtain o2 rw2 where rec: "rewriteArgs mac (v # rest) rw1 = (o2, rw2)" by (metis surj_pair)
    have "rw' = rw2" "out = b # o2" using 3(3) False b rec by simp_all
    moreover have "rwStep mac rw1 rw2 \<and> length o2 = length (v # rest)" using 3(2) [OF False b [symmetric] rec] .
    ultimately show ?thesis using rewriteToken_step [OF b] rwStep_trans by auto
  qed
qed

section \<open>Inputs\<close>

text \<open>The values of \<^verbatim>\<open>-i\<close> that name files, with what the rewrite made of them.\<close>

definition fileInput :: "string \<Rightarrow> bool" where
  "fileInput v \<longleftrightarrow> \<not> contains v PMSURLPrefix \<and> \<not> contains v ''://''"

fun inputPairs :: "string list \<Rightarrow> string list \<Rightarrow> (string \<times> string) list" where
  "inputPairs (a # v # rest) (a' # b # out) =
     (if a = ''-i'' then (v, b) # inputPairs rest out else inputPairs (v # rest) (b # out))"
| "inputPairs _ _ = []"

definition inputMode :: "rewriter \<Rightarrow> string \<Rightarrow> MediaMode" where
  "inputMode rw a = (if underSessionDir rw a then MediaModeSpool else MediaModeStream)"

lemma mediaKey_inj:
  assumes "m \<in> {MediaModeStream, MediaModeSpool}" "m' \<in> {MediaModeStream, MediaModeSpool}"
  shows "mediaKey m a = mediaKey m' a' \<longleftrightarrow> m = m' \<and> a = a'"
  using assms by (auto simp: mediaKey_def)

lemma addMedia_entry: "addMedia mac a mode rw = (ph, rw') \<Longrightarrow> (mediaKey mode a, ph) \<in> set (rw_byPath rw')"
  by (auto simp: addMedia_def Let_def map_of_SomeD split: option.splits)

lemma absIn_ext: "rwExt rw rw' \<Longrightarrow> absIn rw' v = absIn rw v \<and> underSessionDir rw' a = underSessionDir rw a"
  by (simp add: rwExt_def absIn_def underSessionDir_def)

lemma rewriteArgs_inputs:
  "rewriteArgs mac args rw = (out, rw') \<Longrightarrow> (v, b) \<in> set (inputPairs args out) \<Longrightarrow> fileInput v \<Longrightarrow>
     (mediaKey (inputMode rw (absIn rw v)) (absIn rw v), b) \<in> set (rw_byPath rw')"
proof (induction mac args rw arbitrary: out rw' rule: rewriteArgs.induct)
  case (1 mac rw)
  then show ?case by simp
next
  case (2 mac a rw)
  then show ?case by (auto split: prod.splits)
next
  case (3 mac a w rest rw)
  show ?case
  proof (cases "a = ''-i''")
    case True
    obtain c rw1 where c: "rewriteInput mac w rw = (c, rw1)" by (metis surj_pair)
    obtain o2 rw2 where rec: "rewriteArgs mac rest rw1 = (o2, rw2)" by (metis surj_pair)
    have eq: "rw' = rw2" "out = a # c # o2" using 3(3) True c rec by simp_all
    have ext: "rwExt rw rw1" "rwExt rw1 rw2"
      using rewriteInput_step [OF c] rewriteArgs_step [OF rec] by (simp_all add: rwStep_def)
    from 3(4) eq True consider (here) "v = w" "b = c" | (there) "(v, b) \<in> set (inputPairs rest o2)" by auto
    then show ?thesis
    proof cases
      case here
      then have "addMedia mac (absIn rw v) (inputMode rw (absIn rw v)) rw = (b, rw1)"
        using c 3(5) by (simp add: rewriteInput_def fileInput_def inputMode_def Let_def)
      from addMedia_entry [OF this] ext(2) eq(1) show ?thesis
        by (auto simp: rwExt_def dest: set_mono_suffix)
    next
      case there
      from 3(1) [OF True c [symmetric] rec there 3(5)] absIn_ext [OF ext(1)] eq(1) show ?thesis
        by (simp add: inputMode_def)
    qed
  next
    case False
    obtain c rw1 where c: "rewriteToken mac a rw = (c, rw1)" by (metis surj_pair)
    obtain o2 rw2 where rec: "rewriteArgs mac (w # rest) rw1 = (o2, rw2)" by (metis surj_pair)
    have eq: "rw' = rw2" "out = c # o2" using 3(3) False c rec by simp_all
    have ext: "rwExt rw rw1" using rewriteToken_step [OF c] by (simp add: rwStep_def)
    have len: "length o2 = length (w # rest)" using rewriteArgs_step [OF rec] by blast
    then obtain d o3 where o2: "o2 = d # o3" by (cases o2) auto
    have "(v, b) \<in> set (inputPairs (w # rest) o2)" using 3(4) eq(2) False o2 by simp
    from 3(2) [OF False c [symmetric] rec this 3(5)] absIn_ext [OF ext] eq(1) show ?thesis
      by (simp add: inputMode_def)
  qed
qed

lemma rwOk_new [simp]: "rwOk mac (newRewriter sd pd adv tok e)"
  by (simp add: rwOk_def newRewriter_def)

lemma rwOk_entry:
  assumes "rwOk mac rw" "(mediaKey mode a, ph) \<in> set (rw_byPath rw)" "mode \<in> {MediaModeStream, MediaModeSpool}"
  shows "\<exists>i < length (rw_media rw). ph = MediaPlaceholder i \<and>
     rw_media rw ! i = (decimal i, \<lparr>mr_URL = signedMediaURL mac rw a, mr_Mode = mode\<rparr>)"
proof -
  obtain i mode' a' where i: "i < length (rw_media rw)" "mode' \<in> {MediaModeStream, MediaModeSpool}"
      "(mediaKey mode a, ph) = (mediaKey mode' a', MediaPlaceholder i)"
      "rw_media rw ! i = (decimal i, \<lparr>mr_URL = signedMediaURL mac rw a', mr_Mode = mode'\<rparr>)"
    using assms(1,2) unfolding rwOk_def entryOk_def by blast
  then have "mode = mode' \<and> a = a'" using mediaKey_inj [OF assms(3) i(2)] by simp
  with i show ?thesis by auto
qed

lemma MediaPlaceholder_inj: "MediaPlaceholder i = MediaPlaceholder j \<longleftrightarrow> i = j"
  by (simp add: MediaPlaceholder_def decimal_inj)

lemma rwOk_media:
  assumes "rwOk mac rw" "i < length (rw_media rw)"
  shows "\<exists>mode \<in> {MediaModeStream, MediaModeSpool}. \<exists>a.
    rw_media rw ! i = (decimal i, \<lparr>mr_URL = signedMediaURL mac rw a, mr_Mode = mode\<rparr>)"
proof -
  have "MediaPlaceholder i \<in> set (map snd (rw_byPath rw))" using assms by (simp add: rwOk_def)
  then obtain p where e: "p \<in> set (rw_byPath rw)" "snd p = MediaPlaceholder i" by auto
  then have "entryOk mac rw p" using assms(1) by (simp add: rwOk_def)
  then show ?thesis using e(2) MediaPlaceholder_inj unfolding entryOk_def by auto
qed

lemma rwOk_placeholders: "rwOk mac rw \<Longrightarrow> distinct (map snd (rw_byPath rw))"
proof -
  assume "rwOk mac rw"
  then have "map snd (rw_byPath rw) = rev (map MediaPlaceholder [0..<length (rw_media rw)])" by (simp add: rwOk_def)
  moreover have "inj_on MediaPlaceholder A" for A by (simp add: inj_on_def MediaPlaceholder_inj)
  ultimately show ?thesis by (simp add: distinct_map)
qed



section \<open>The request of a media URL\<close>

lemma QueryEscape_path: "QueryEscape ''path'' = ''path''"
  by code_simp

lemma signedMediaURL_request:
  assumes "inInt64 (rw_expiry rw)" "\<And>m. mac (rw_token rw) m \<noteq> []"
  shows "\<exists>t r. signedMediaURL mac rw a = rw_advertise rw @ t \<and> parseTarget t = Some r \<and>
    rq_path r = ''/v1/media'' \<and> valuesGet ''path'' (parseQueryLax (rq_query r)) = a \<and>
    VerifySignedQuery mac (rw_token rw) now r = (if now > rw_expiry rw then SigExpired else SigOk)"
proof -
  let ?q = "''path='' @ QueryEscape a"
  have cutEq: "cut (''/v1/media?path='' @ QueryEscape a) ''?'' = (''/v1/media'', ?q, True)"
  proof -
    have "CHR ''?'' \<notin> set ''/v1/media''" by simp
    from cut_char_append [OF this, of ?q] show ?thesis by simp
  qed
  have enc: "?q = valuesEncode [(''path'', a)]"
    by (simp add: valuesEncode_def encodePair_def QueryEscape_path)
  then have parse: "ParseQuery ?q = Some [(''path'', a)]"
    using ParseQuery_encode [of "[(''path'', a)]"] by simp
  have no: "CHR ''%'' \<notin> set ''/v1/media''" by simp
  obtain r where r: "parseTarget (SignURL mac (rw_token rw) (''/v1/media?path='' @ QueryEscape a) (rw_expiry rw)) = Some r"
      "rq_path r = ''/v1/media''"
      "\<forall>k q. k \<noteq> ''exp'' \<longrightarrow> k \<noteq> ''sig'' \<longrightarrow> ParseQuery ?q = Some q \<longrightarrow> valuesGet k (parseQueryLax (rq_query r)) = valuesGet k q"
      "VerifySignedQuery mac (rw_token rw) now r = (if now > rw_expiry rw then SigExpired else SigOk)"
    using SignURL_request [where mac = mac and secret = "rw_token rw", OF cutEq no assms] by blast
  have "valuesGet ''path'' (parseQueryLax (rq_query r)) = a"
    using r(3) parse by (simp add: valuesGet_def)
  with r(1,2,4) show ?thesis unfolding signedMediaURL_def by blast
qed

end
