(* ===== verification/ShimJob.thy ===== *)
theory ShimJob
  imports RewriteMedia "HOL-Library.AList"
begin

text \<open>
  \<^verbatim>\<open>internal/shim/shim.go\<close>: the parts of a job request the shim derives from its own process
  and from masterd's answers: the worker (\<open>pickWorker\<close>), the build string (\<open>plexBuild\<close>), the
  environment (\<open>jobEnv\<close>) and the job id.

  The environment is \<^verbatim>\<open>os.Environ\<close>'s list of \<open>KEY=value\<close> strings.  The loop of \<open>plexBuild\<close>
  climbs the directories of a path and need not end for every string, so it is a partial
  function; \<open>plexBuild_total\<close> shows that it ends on the paths the shim calls it with.
\<close>

definition pickWorker :: "WorkerStatus list \<Rightarrow> string" where
  "pickWorker ws =
     (case find (\<lambda>w. ws_Healthy w \<and> h_ActiveJobs (ws_Health w) < h_MaxJobs (ws_Health w)) ws of
        None \<Rightarrow> [] | Some w \<Rightarrow> ws_URL w)"

definition getenv :: "string list \<Rightarrow> string \<Rightarrow> string" where
  "getenv environ k =
     (case find (\<lambda>kv. hasPrefix kv (k @ ''='')) environ of
        None \<Rightarrow> [] | Some kv \<Rightarrow> drop (length k + 1) kv)"

section \<open>The build string\<close>

definition buildMarker :: string where "buildMarker = ''plexmediaserver-''"

partial_function (option) climb :: "string \<Rightarrow> string option option" where
  [code]: "climb p =
     (if p = ''/'' \<or> p = ''.'' then Some None
      else case index (base p) buildMarker of
          Some i \<Rightarrow> Some (Some (drop (i + length buildMarker) (base p)))
        | None \<Rightarrow> climb (dir p))"

definition plexBuild :: "string list \<Rightarrow> string \<Rightarrow> string option" where
  "plexBuild environ plexDir =
     (let v = getenv environ ''PLEX_MEDIA_SERVER_INFO_VERSION'' in
      if v \<noteq> [] then Some v
      else case climb plexDir of
          None \<Rightarrow> None
        | Some (Some b) \<Rightarrow> Some b
        | Some None \<Rightarrow>
            let libs = getenv environ ''FFMPEG_EXTERNAL_LIBS'' in
            Some (if libs \<noteq> [] then base (clean libs) else []))"

section \<open>The environment of a job\<close>

definition reservedEnv :: "string list" where
  "reservedEnv = [''FFMPEG_EXTERNAL_LIBS'', ''EAE_ROOT'', ''LD_LIBRARY_PATH'', ''HOME'']"

definition envStep :: "string \<Rightarrow> (string \<times> string) list \<Rightarrow> (string \<times> string) list" where
  "envStep kv env =
     (case cut kv ''='' of
        (k, v, ok) \<Rightarrow> if \<not> ok \<or> k \<in> set reservedEnv \<or> hasPrefix k ''LIBVA_'' then env else AList.update k v env)"

definition jobEnv :: "string list \<Rightarrow> (string \<times> string) list" where
  "jobEnv environ = fold envStep environ []"

text \<open>\<^verbatim>\<open>randomJobID\<close> on the bytes read; \<open>None\<close> when the random source fails.\<close>

definition randomJobID :: "string option \<Rightarrow> string option" where
  "randomJobID buf = map_option hexEncode buf"

text \<open>\<^verbatim>\<open>absArgv0\<close>; \<open>None\<close> when the working directory is not known.\<close>

definition absArgv0 :: "string \<Rightarrow> string option \<Rightarrow> string option" where
  "absArgv0 p cwd =
     (if isAbs p then Some (clean p) else map_option (\<lambda>c. joinPath [c, p]) cwd)"

definition origTranscoderPath :: "string \<Rightarrow> string option \<Rightarrow> string option" where
  "origTranscoderPath p cwd = map_option (\<lambda>q. q @ ''.orig'') (absArgv0 p cwd)"

section \<open>Tokens without white space\<close>

lemma spaceSeqs_ends: "\<forall>w \<in> set spaceSeqs. w \<noteq> [] \<and> \<not> isAlnum (hd w) \<and> \<not> isAlnum (last w)"
  by (simp add: spaceSeqs_def byteChars_def isAlnum_def isDigit_def isUpper_def isLower_def)

lemma trimSeqs_alnum:
  assumes "\<forall>w \<in> set seqs. w \<noteq> [] \<and> \<not> isAlnum (hd w)" "s \<noteq> []" "isAlnum (hd s)"
  shows "trimSeqs seqs s = s"
proof -
  have "filter (\<lambda>w. prefix w s) seqs = []"
    using assms by (cases s) (auto simp: filter_empty_conv prefix_Cons)
  then show ?thesis by (subst trimSeqs.simps) (simp add: leadingSpace_def)
qed

text \<open>A text that starts and ends with a letter or digit is not trimmed.\<close>

lemma trimSpace_alnum:
  assumes "s \<noteq> []" "isAlnum (hd s)" "isAlnum (last s)"
  shows "trimSpace s = s"
  using assms spaceSeqs_ends by (simp add: trimSpace_def trimSeqs_alnum hd_rev)

section \<open>Workers\<close>

lemma pickWorker_spec:
  assumes "pickWorker ws = u" "u \<noteq> []"
  shows "\<exists>i < length ws. ws_URL (ws ! i) = u \<and> ws_Healthy (ws ! i) \<and>
    h_ActiveJobs (ws_Health (ws ! i)) < h_MaxJobs (ws_Health (ws ! i)) \<and>
    (\<forall>j < i. \<not> (ws_Healthy (ws ! j) \<and> h_ActiveJobs (ws_Health (ws ! j)) < h_MaxJobs (ws_Health (ws ! j))))"
proof -
  obtain w where "find (\<lambda>w. ws_Healthy w \<and> h_ActiveJobs (ws_Health w) < h_MaxJobs (ws_Health w)) ws = Some w" "ws_URL w = u"
    using assms by (auto simp: pickWorker_def split: option.splits)
  then show ?thesis by (auto simp: find_Some_iff)
qed

section \<open>The directories of a clean path\<close>

lemma base_absPath:
  assumes "properComps (cs @ [c])"
  shows "base (absPath (cs @ [c])) = c"
proof -
  have c: "c \<noteq> []" "CHR ''/'' \<notin> set c" using assms by (simp_all add: properComp_def)
  have sh: "absPath (cs @ [c]) = (if cs = [] then ''/'' else absPath cs @ ''/'') @ c"
    by (simp add: absPath_def joinWith_append)
  have "last (absPath (cs @ [c])) = last c" unfolding sh using c(1) by simp
  moreover have "last c \<noteq> CHR ''/''" using c by (metis last_in_set)
  ultimately have "trimRight (absPath (cs @ [c])) ''/'' = absPath (cs @ [c])"
    using c(1) unfolding trimRight_def sh by (cases c rule: rev_cases) auto
  moreover have "splitOn CHR ''/'' (absPath (cs @ [c])) = [] # cs @ [c]"
    using splitOn_absPath [OF assms] by simp
  ultimately show ?thesis by (simp add: base_def absPath_def)
qed

lemma dir_absPath:
  assumes "properComps (cs @ [c])"
  shows "dir (absPath (cs @ [c])) = absPath cs"
proof -
  have c: "CHR ''/'' \<notin> set c" using assms by (simp add: properComp_def)
  have "absPath (cs @ [c]) = (if cs = [] then [] else absPath cs) @ ''/'' @ c"
    by (simp add: absPath_def joinWith_append)
  moreover have "dropWhile (\<lambda>x. x \<noteq> CHR ''/'') (rev (a @ ''/'' @ c)) = CHR ''/'' # rev a" for a
    using c by (subst rev_append, simp, subst dropWhile_append2) auto
  ultimately have d: "dir (absPath (cs @ [c])) = clean ((if cs = [] then [] else absPath cs) @ ''/'')"
    unfolding dir_def by simp
  have "clean (absPath cs @ ''/'') = absPath cs" if "cs \<noteq> []"
  proof -
    have "splitOn CHR ''/'' (absPath cs @ ''/'') = [] # (cs @ [[]])"
      using splitOn_joinWith_append [of cs "CHR ''/''" "[]"] that assms
      by (simp add: absPath_def properComps_no_slash)
    moreover have "cleanComps True [] ([] # (cs @ [[]])) = cs"
      using assms by (simp add: cleanComps_append cleanComps_proper)
    ultimately show ?thesis by (simp add: clean_def isAbs_def absPath_def)
  qed
  with d show ?thesis by (cases "cs = []") (simp_all, code_simp)
qed

lemma climb_root: "climb (absPath []) = Some None"
  by (subst climb.simps) (simp add: absPath_def)

lemma climb_snoc:
  assumes "properComps (cs @ [c])"
  shows "climb (absPath (cs @ [c])) =
    (case index c buildMarker of Some i \<Rightarrow> Some (Some (drop (i + length buildMarker) c)) | None \<Rightarrow> climb (absPath cs))"
proof -
  have "absPath (cs @ [c]) \<noteq> ''/''" using absPath_root_iff [OF assms] by simp
  moreover have "absPath (cs @ [c]) \<noteq> ''.''" by (simp add: absPath_def)
  ultimately show ?thesis
    by (subst climb.simps) (simp add: base_absPath [OF assms] dir_absPath [OF assms] split: option.split)
qed

text \<open>The version of the deepest component that carries the marker.\<close>

fun deepestBuild :: "string list \<Rightarrow> string option" where
  "deepestBuild [] = None"
| "deepestBuild (c # cs) =
     (case deepestBuild cs of
        Some b \<Rightarrow> Some b
      | None \<Rightarrow> map_option (\<lambda>i. drop (i + length buildMarker) c) (index c buildMarker))"

lemma deepestBuild_snoc:
  "deepestBuild (cs @ [c]) =
     (case index c buildMarker of Some i \<Rightarrow> Some (drop (i + length buildMarker) c) | None \<Rightarrow> deepestBuild cs)"
  by (induction cs) (auto split: option.splits)

lemma climb_absPath: "properComps cs \<Longrightarrow> climb (absPath cs) = Some (deepestBuild cs)"
proof (induction cs rule: rev_induct)
  case Nil
  show ?case by (simp add: climb_root)
next
  case (snoc c cs)
  then have "climb (absPath cs) = Some (deepestBuild cs)" by simp
  with snoc.prems show ?case by (simp add: climb_snoc deepestBuild_snoc split: option.splits)
qed

lemma plexBuild_absPath:
  "properComps cs \<Longrightarrow> plexBuild environ (absPath cs) = Some
     (let v = getenv environ ''PLEX_MEDIA_SERVER_INFO_VERSION''; libs = getenv environ ''FFMPEG_EXTERNAL_LIBS'' in
      if v \<noteq> [] then v
      else case deepestBuild cs of Some b \<Rightarrow> b | None \<Rightarrow> if libs \<noteq> [] then base (clean libs) else [])"
  by (simp add: plexBuild_def climb_absPath Let_def split: option.splits)

lemma absArgv0_shape:
  assumes "absArgv0 p cwd = Some q" "\<And>c. cwd = Some c \<Longrightarrow> isAbs c"
  shows "\<exists>cs. properComps cs \<and> q = absPath cs"
proof (cases "isAbs p")
  case True
  with assms(1) show ?thesis using clean_abs_shape [OF True] by (auto simp: absArgv0_def)
next
  case False
  then obtain c where c: "cwd = Some c" "q = joinPath [c, p]" using assms(1) by (auto simp: absArgv0_def)
  with assms(2) have a: "isAbs c" by simp
  then have "c \<noteq> []" by (auto simp: isAbs_def)
  then have q: "q = clean (joinWith ''/'' [c, p])" using c(2) by (simp add: joinPath_def)
  have "isAbs (joinWith ''/'' [c, p])" using a by (auto simp: isAbs_def prefix_def)
  from clean_abs_shape [OF this] show ?thesis by (simp add: q)
qed

lemma dir_shape: "properComps cs \<Longrightarrow> \<exists>ds. properComps ds \<and> dir (absPath cs) = absPath ds"
proof (cases cs rule: rev_cases)
  case Nil
  have "dir (absPath []) = absPath []" by code_simp
  with Nil show ?thesis by (intro exI [of _ "[]"]) simp
next
  case (snoc ds c)
  assume "properComps cs"
  with snoc dir_absPath [of ds c] show ?thesis by auto
qed

section \<open>The environment of a job\<close>

definition droppedKey :: "string \<Rightarrow> bool" where
  "droppedKey k \<longleftrightarrow> k \<in> set reservedEnv \<or> hasPrefix k ''LIBVA_''"

lemma envStep_eq:
  "envStep kv env =
     (if CHR ''='' \<in> set kv \<and> \<not> droppedKey (fst (cut kv ''='')) then
        AList.update (fst (cut kv ''='')) (fst (snd (cut kv ''=''))) env
      else env)"
  by (auto simp: envStep_def droppedKey_def cut_char split: prod.splits)

lemma jobEnv_step_distinct: "distinct (map fst env) \<Longrightarrow> distinct (map fst (envStep kv env))"
  by (simp add: envStep_eq distinct_update)

text \<open>What the dispatched environment holds: the last binding of every key that is not dropped.\<close>

definition lastBinding :: "string list \<Rightarrow> string \<Rightarrow> string option" where
  "lastBinding environ k =
     map_option (\<lambda>kv. fst (snd (cut kv ''='')))
       (find (\<lambda>kv. CHR ''='' \<in> set kv \<and> fst (cut kv ''='') = k) (rev environ))"

lemma jobEnv_lookup:
  "map_of (jobEnv environ) k = (if droppedKey k then None else lastBinding environ k)"
proof (induction environ rule: rev_induct)
  case Nil
  show ?case by (simp add: jobEnv_def lastBinding_def)
next
  case (snoc kv environ)
  have "jobEnv (environ @ [kv]) = envStep kv (jobEnv environ)" by (simp add: jobEnv_def)
  with snoc.IH show ?case
    by (auto simp: envStep_eq lastBinding_def update_conv')
qed

lemma jobEnv_distinct: "distinct (map fst (jobEnv environ))"
proof (induction environ rule: rev_induct)
  case Nil
  show ?case by (simp add: jobEnv_def)
next
  case (snoc kv environ)
  then show ?case using jobEnv_step_distinct by (simp add: jobEnv_def)
qed

end
