(* ===== verification/Classify.thy ===== *)
theory Classify
  imports Protocol
begin

text \<open>
  \<^verbatim>\<open>internal/shim/classify.go\<close>: whether a job runs locally.
\<close>

text \<open>The regular expression \<^verbatim>\<open>%0\d+d\<close>, anchored at the start, and its search.\<close>

definition templateHere :: "string \<Rightarrow> bool" where
  "templateHere s =
     (case cutPrefix s ''%0'' of
        None \<Rightarrow> False
      | Some r \<Rightarrow> takeWhile isDigit r \<noteq> [] \<and> hasPrefix (dropWhile isDigit r) ''d'')"

fun segmentTemplateMatch :: "string \<Rightarrow> bool" where
  "segmentTemplateMatch [] = False"
| "segmentTemplateMatch (c # cs) = (templateHere (c # cs) \<or> segmentTemplateMatch cs)"

record flags =
  hasTemplate :: bool
  hasSegURL :: bool
  hasInput :: bool

definition isSegURL :: "string \<Rightarrow> bool" where
  "isSegURL a \<longleftrightarrow> contains (toLower a) ''/seglist'' \<or> contains (toLower a) ''/manifest''"

definition isLiveOrLoud :: "string \<Rightarrow> bool" where
  "isLiveOrLoud a \<longleftrightarrow> contains (toLower a) ''loudness'' \<or> contains (toLower a) ''livetv'' \<or>
     contains (toLower a) ''/dvr'' \<or> a = ''-re''"

definition isPipe :: "string \<Rightarrow> bool" where
  "isPipe v \<longleftrightarrow> v = ''-'' \<or> hasPrefix v ''pipe:''"

text \<open>The loop of \<^verbatim>\<open>classifyLocal\<close>: \<open>None\<close> is its \<^verbatim>\<open>return true\<close>.\<close>

fun classifyLoop :: "string list \<Rightarrow> flags \<Rightarrow> flags option" where
  "classifyLoop [] f = Some f"
| "classifyLoop (a # rest) f =
     (if isLiveOrLoud a then None
      else if a = ''-i'' \<and> (case rest of [] \<Rightarrow> True | v # _ \<Rightarrow> isPipe v) then None
      else classifyLoop rest
             (f\<lparr>hasInput := (hasInput f \<or> a = ''-i''),
                hasTemplate := (hasTemplate f \<or> segmentTemplateMatch a),
                hasSegURL := (hasSegURL f \<or> isSegURL a)\<rparr>))"

definition classifyLocal :: "string list \<Rightarrow> bool" where
  "classifyLocal args =
     (case classifyLoop args \<lparr>hasTemplate = False, hasSegURL = False, hasInput = False\<rparr> of
        None \<Rightarrow> True
      | Some f \<Rightarrow> \<not> hasInput f \<or> (\<not> hasTemplate f \<and> \<not> hasSegURL f))"

section \<open>The rule the package states\<close>

text \<open>An \<^verbatim>\<open>-i\<close> whose value is missing or a pipe.\<close>

definition badInput :: "string list \<Rightarrow> bool" where
  "badInput args \<longleftrightarrow> (\<exists>i < length args. args ! i = ''-i'' \<and> (Suc i < length args \<longrightarrow> isPipe (args ! Suc i)))"

definition mustRunLocal :: "string list \<Rightarrow> bool" where
  "mustRunLocal args \<longleftrightarrow> (\<exists>a \<in> set args. isLiveOrLoud a) \<or> badInput args \<or> ''-i'' \<notin> set args \<or>
     \<not> (\<exists>a \<in> set args. segmentTemplateMatch a \<or> isSegURL a)"

lemma badInput_Cons:
  "badInput (a # rest) \<longleftrightarrow> (a = ''-i'' \<and> (case rest of [] \<Rightarrow> True | v # _ \<Rightarrow> isPipe v)) \<or> badInput rest"
proof
  assume "badInput (a # rest)"
  then obtain i where i: "i < length (a # rest)" "(a # rest) ! i = ''-i''"
      "Suc i < length (a # rest) \<longrightarrow> isPipe ((a # rest) ! Suc i)" unfolding badInput_def by blast
  show "(a = ''-i'' \<and> (case rest of [] \<Rightarrow> True | v # _ \<Rightarrow> isPipe v)) \<or> badInput rest"
  proof (cases i)
    case 0
    with i show ?thesis by (cases rest) simp_all
  next
    case (Suc k)
    with i have "badInput rest" unfolding badInput_def by (intro exI [of _ k]) simp
    then show ?thesis ..
  qed
next
  assume "(a = ''-i'' \<and> (case rest of [] \<Rightarrow> True | v # _ \<Rightarrow> isPipe v)) \<or> badInput rest"
  then show "badInput (a # rest)"
  proof
    assume "a = ''-i'' \<and> (case rest of [] \<Rightarrow> True | v # _ \<Rightarrow> isPipe v)"
    then show ?thesis unfolding badInput_def by (intro exI [of _ 0]) (auto split: list.splits)
  next
    assume "badInput rest"
    then obtain k where "k < length rest" "rest ! k = ''-i''" "Suc k < length rest \<longrightarrow> isPipe (rest ! Suc k)"
      unfolding badInput_def by blast
    then show ?thesis unfolding badInput_def by (intro exI [of _ "Suc k"]) simp
  qed
qed

lemma classifyLoop_None: "classifyLoop args f = None \<longleftrightarrow> (\<exists>a \<in> set args. isLiveOrLoud a) \<or> badInput args"
proof (induction args arbitrary: f)
  case Nil
  show ?case by (simp add: badInput_def)
next
  case (Cons a rest)
  show ?case unfolding badInput_Cons classifyLoop.simps using Cons by simp blast
qed

lemma classifyLoop_Some:
  "classifyLoop args f = Some g \<Longrightarrow> hasInput g = (hasInput f \<or> ''-i'' \<in> set args) \<and>
     hasTemplate g = (hasTemplate f \<or> (\<exists>a \<in> set args. segmentTemplateMatch a)) \<and>
     hasSegURL g = (hasSegURL f \<or> (\<exists>a \<in> set args. isSegURL a))"
proof (induction args arbitrary: f)
  case Nil
  then show ?case by simp
next
  case (Cons a rest)
  then obtain "classifyLoop rest (f\<lparr>hasInput := (hasInput f \<or> a = ''-i''),
      hasTemplate := (hasTemplate f \<or> segmentTemplateMatch a), hasSegURL := (hasSegURL f \<or> isSegURL a)\<rparr>) = Some g"
    by (metis classifyLoop.simps(2) option.distinct(1))
  from Cons.IH [OF this] show ?case by auto
qed

text \<open>The classifier decides exactly the rule of the design: a job is local if some argument is a
  loudness, live TV or realtime mark, some \<^verbatim>\<open>-i\<close> has no value or a pipe, there is no
  input, or nothing in the argv looks like segmented output.  So a dispatched job has an
  input, every input has a reproducible value, and its output is segmented.\<close>

theorem classifyLocal_rule: "classifyLocal args \<longleftrightarrow> mustRunLocal args"
proof (cases "classifyLoop args \<lparr>hasTemplate = False, hasSegURL = False, hasInput = False\<rparr>")
  case None
  then have "(\<exists>a \<in> set args. isLiveOrLoud a) \<or> badInput args" using classifyLoop_None by blast
  then have "mustRunLocal args" unfolding mustRunLocal_def by blast
  then show ?thesis unfolding classifyLocal_def None by simp
next
  case (Some g)
  then have "\<not> ((\<exists>a \<in> set args. isLiveOrLoud a) \<or> badInput args)"
    using classifyLoop_None by (metis option.distinct(1))
  then show ?thesis
    using classifyLoop_Some [OF Some] Some unfolding classifyLocal_def mustRunLocal_def by auto
qed

end
