(* ===== verification/Config.thy ===== *)
theory Config
  imports Protocol GoPath
begin

text \<open>
  \<^verbatim>\<open>internal/config/config.go\<close>: the three JSON configs, their defaults and their
  validation.  The JSON decoder is the standard library's: a loader takes its outcome,
  the decoded record or an error (unreadable file, unknown field, trailing data).
\<close>

record ShimConfig =
  sc_MasterdURL :: string
  sc_SpawnBudgetMS :: int

record MasterdConfig =
  mc_Listen :: string
  mc_PMSURL :: string
  mc_AdvertiseURL :: string
  mc_TranscodeRoot :: string
  mc_MediaRoots :: "string list"
  mc_CodecsDir :: string
  mc_Workers :: "string list"
  mc_TokenFile :: string
  mc_SessionTTLSec :: int
  mc_ProbeIntervalSec :: int

record WorkerdConfig =
  wc_Listen :: string
  wc_ProxyListen :: string
  wc_MasterURL :: string
  wc_DataDir :: string
  wc_EAERoot :: string
  wc_MaxJobs :: int
  wc_TokenFile :: string
  wc_TranscoderPath :: string
  wc_PlexDir :: string
  wc_DriversDir :: string
  wc_PushParallel :: int
  wc_PushQueueCap :: int

definition orElse :: "'a \<Rightarrow> 'a \<Rightarrow> 'a \<Rightarrow> 'a" where
  "orElse zero d v = (if v = zero then d else v)"

abbreviation orStr :: "string \<Rightarrow> string \<Rightarrow> string" where "orStr \<equiv> orElse []"
abbreviation orInt :: "int \<Rightarrow> int \<Rightarrow> int" where "orInt \<equiv> orElse 0"

definition isHTTPURL :: "string \<Rightarrow> bool" where
  "isHTTPURL s \<longleftrightarrow> hasPrefix s ''http://'' \<or> hasPrefix s ''https://''"

text \<open>The error of a loader: decoding, or the list of the fields it rejects.\<close>

datatype configError = NotSet | DecodeError | Invalid "string list"

definition joinConfigErrs :: "string list \<Rightarrow> configError option" where
  "joinConfigErrs errs = (if errs = [] then None else Some (Invalid errs))"

definition LoadShim :: "string \<Rightarrow> ShimConfig option \<Rightarrow> configError + ShimConfig" where
  "LoadShim path decoded =
     (if path = [] then Inl NotSet
      else case decoded of
          None \<Rightarrow> Inl DecodeError
        | Some cfg \<Rightarrow>
            let c = cfg\<lparr>sc_MasterdURL := orStr ''http://127.0.0.1:32499'' (sc_MasterdURL cfg),
                        sc_SpawnBudgetMS := orInt 1500 (sc_SpawnBudgetMS cfg)\<rparr>
            in if sc_SpawnBudgetMS c < 0 then Inl (Invalid [''spawn_budget_ms'']) else Inr c)"

definition masterdDefaults :: "MasterdConfig \<Rightarrow> MasterdConfig" where
  "masterdDefaults cfg =
     cfg\<lparr>mc_Listen := orStr '':32499'' (mc_Listen cfg),
         mc_PMSURL := orStr ''http://127.0.0.1:32400'' (mc_PMSURL cfg),
         mc_SessionTTLSec := orInt 600 (mc_SessionTTLSec cfg),
         mc_ProbeIntervalSec := orInt 10 (mc_ProbeIntervalSec cfg)\<rparr>"

definition require :: "bool \<Rightarrow> string \<Rightarrow> string list" where
  "require ok field = (if ok then [] else [field])"

definition masterdErrors :: "MasterdConfig \<Rightarrow> string list" where
  "masterdErrors c =
     require (mc_AdvertiseURL c \<noteq> [] \<and> isHTTPURL (mc_AdvertiseURL c)) ''advertise_url'' @
     require (mc_TranscodeRoot c \<noteq> []) ''transcode_root'' @
     require (mc_MediaRoots c \<noteq> []) ''media_roots'' @
     require (mc_CodecsDir c \<noteq> []) ''codecs_dir'' @
     require (mc_Workers c \<noteq> []) ''workers'' @
     require (mc_TokenFile c \<noteq> []) ''token_file'' @
     require (\<not> mc_SessionTTLSec c < 0) ''session_ttl_sec'' @
     require (\<not> mc_ProbeIntervalSec c < 0) ''probe_interval_sec''"

definition LoadMasterd :: "MasterdConfig option \<Rightarrow> configError + MasterdConfig" where
  "LoadMasterd decoded =
     (case decoded of
        None \<Rightarrow> Inl DecodeError
      | Some cfg \<Rightarrow>
          let c = masterdDefaults cfg in
          (case joinConfigErrs (masterdErrors c) of Some e \<Rightarrow> Inl e | None \<Rightarrow> Inr c))"

definition workerdDefaults :: "WorkerdConfig \<Rightarrow> WorkerdConfig" where
  "workerdDefaults cfg =
     (let dd = orStr ''/var/lib/prt'' (wc_DataDir cfg) in
      cfg\<lparr>wc_Listen := orStr '':32500'' (wc_Listen cfg),
          wc_ProxyListen := orStr ''127.0.0.1:32401'' (wc_ProxyListen cfg),
          wc_DataDir := dd,
          wc_EAERoot := orStr ''/run/prt-eae/shared'' (wc_EAERoot cfg),
          wc_MaxJobs := orInt 3 (wc_MaxJobs cfg),
          wc_DriversDir := orStr (joinPath [dd, ''drivers'']) (wc_DriversDir cfg),
          wc_PushParallel := orInt 4 (wc_PushParallel cfg),
          wc_PushQueueCap := orInt 64 (wc_PushQueueCap cfg)\<rparr>)"

definition workerdErrors :: "WorkerdConfig \<Rightarrow> string list" where
  "workerdErrors c =
     require (wc_MasterURL c \<noteq> [] \<and> isHTTPURL (wc_MasterURL c)) ''master_url'' @
     require (wc_TokenFile c \<noteq> []) ''token_file'' @
     require (wc_TranscoderPath c \<noteq> []) ''transcoder_path'' @
     require (wc_PlexDir c \<noteq> []) ''plex_dir'' @
     require (\<not> wc_MaxJobs c < 0) ''max_jobs'' @
     require (\<not> wc_PushParallel c < 0) ''push_parallel'' @
     require (\<not> wc_PushQueueCap c < 0) ''push_queue_cap''"

definition LoadWorkerd :: "WorkerdConfig option \<Rightarrow> configError + WorkerdConfig" where
  "LoadWorkerd decoded =
     (case decoded of
        None \<Rightarrow> Inl DecodeError
      | Some cfg \<Rightarrow>
          let c = workerdDefaults cfg in
          (case joinConfigErrs (workerdErrors c) of Some e \<Rightarrow> Inl e | None \<Rightarrow> Inr c))"

section \<open>Facts\<close>

lemma require_Nil [simp]: "require ok f = [] \<longleftrightarrow> ok"
  by (simp add: require_def)

lemma orInt_pos: "orInt d v \<ge> 0 \<Longrightarrow> d > 0 \<Longrightarrow> orInt d v > 0"
  by (auto simp: orElse_def)

lemma orElse_idem: "d \<noteq> zero \<Longrightarrow> orElse zero d (orElse zero d' v) = (if d' = zero \<and> v = zero then d else orElse zero d' v)"
  by (simp add: orElse_def)

lemma orElse_nonzero [simp]: "d \<noteq> zero \<Longrightarrow> orElse zero d v \<noteq> zero"
  by (simp add: orElse_def)

lemma orElse_id: "v \<noteq> zero \<Longrightarrow> orElse zero d v = v"
  by (simp add: orElse_def)

lemma cleanComps_nonempty:
  "c \<in> set (cleanComps rooted st cs) \<Longrightarrow> (\<And>d. d \<in> set st \<Longrightarrow> d \<noteq> []) \<Longrightarrow> c \<noteq> []"
proof (induction rooted st cs rule: cleanComps.induct)
  case (1 rooted st)
  then show ?case by auto
next
  case (2 rooted st d cs)
  show ?case
  proof (cases "d = [] \<or> d = ''.''")
    case True
    with 2 show ?thesis by simp
  next
    case False
    have "d = ''..'' \<or> d \<noteq> ''..''" by simp
    with False 2 show ?thesis
      by (cases st) (auto split: if_splits)
  qed
qed

lemma clean_nonempty: "clean r \<noteq> []"
proof (cases "isAbs r \<or> r = []")
  case True
  then show ?thesis by (auto simp: clean_def Let_def)
next
  case False
  let ?cs = "cleanComps False [] (splitOn CHR ''/'' r)"
  show ?thesis
  proof (cases ?cs)
    case Nil
    with False show ?thesis by (simp add: clean_def Let_def)
  next
    case (Cons c r')
    then have "c \<noteq> []" using cleanComps_nonempty [of c False "[]" "splitOn CHR ''/'' r"] by simp
    then have "joinWith ''/'' (c # r') \<noteq> []" by (cases r') simp_all
    with False Cons show ?thesis by (simp add: clean_def Let_def)
  qed
qed

lemma joinPath_nonempty: "p \<noteq> [] \<Longrightarrow> joinPath [p, q] \<noteq> []"
proof -
  assume "p \<noteq> []"
  then have "joinPath [p, q] = clean (joinWith ''/'' [p, q])" by (simp add: joinPath_def)
  then show ?thesis using clean_nonempty by metis
qed

text \<open>A worker config that loads has its required fields, an HTTP master URL, and positive
  limits for jobs, upload parallelism and queue capacity (zero is replaced by a default),
  and loading it again changes nothing.\<close>

theorem LoadWorkerd_valid:
  assumes "LoadWorkerd (Some cfg) = Inr c"
  shows "wc_MaxJobs c > 0 \<and> wc_PushParallel c > 0 \<and> wc_PushQueueCap c > 0 \<and>
    isHTTPURL (wc_MasterURL c) \<and> wc_TokenFile c \<noteq> [] \<and> wc_TranscoderPath c \<noteq> [] \<and> wc_PlexDir c \<noteq> [] \<and>
    wc_DataDir c \<noteq> [] \<and> wc_DriversDir c \<noteq> [] \<and> LoadWorkerd (Some c) = Inr c"
proof -
  have c: "c = workerdDefaults cfg" "workerdErrors c = []"
    using assms by (auto simp: LoadWorkerd_def joinConfigErrs_def Let_def split: if_splits)
  let ?dd = "orStr ''/var/lib/prt'' (wc_DataDir cfg)"
  have f: "wc_MaxJobs c = orInt 3 (wc_MaxJobs cfg)" "wc_PushParallel c = orInt 4 (wc_PushParallel cfg)"
    "wc_PushQueueCap c = orInt 64 (wc_PushQueueCap cfg)" "wc_DataDir c = ?dd"
    "wc_DriversDir c = orStr (joinPath [?dd, ''drivers'']) (wc_DriversDir cfg)"
    "wc_Listen c = orStr '':32500'' (wc_Listen cfg)" "wc_ProxyListen c = orStr ''127.0.0.1:32401'' (wc_ProxyListen cfg)"
    "wc_EAERoot c = orStr ''/run/prt-eae/shared'' (wc_EAERoot cfg)"
    by (simp_all add: c(1) workerdDefaults_def Let_def)
  have "?dd \<noteq> []" by simp
  then have nz: "wc_MaxJobs c \<noteq> 0" "wc_PushParallel c \<noteq> 0" "wc_PushQueueCap c \<noteq> 0" "wc_DataDir c \<noteq> []"
    "wc_DriversDir c \<noteq> []" "wc_Listen c \<noteq> []" "wc_ProxyListen c \<noteq> []" "wc_EAERoot c \<noteq> []"
    unfolding f using joinPath_nonempty by simp_all
  have fields: "isHTTPURL (wc_MasterURL c)" "wc_TokenFile c \<noteq> []" "wc_TranscoderPath c \<noteq> []" "wc_PlexDir c \<noteq> []"
    "\<not> wc_MaxJobs c < 0" "\<not> wc_PushParallel c < 0" "\<not> wc_PushQueueCap c < 0"
    using c(2) by (simp_all add: workerdErrors_def)
  have "workerdDefaults c = c"
    using nz by (simp add: workerdDefaults_def orElse_id Let_def)
  then have "LoadWorkerd (Some c) = Inr c"
    using c(2) by (simp add: LoadWorkerd_def joinConfigErrs_def)
  with fields nz show ?thesis by simp
qed

definition demoWorkerd :: WorkerdConfig where
  "demoWorkerd = \<lparr>wc_Listen = [], wc_ProxyListen = [], wc_MasterURL = ''http://m:32499'', wc_DataDir = [],
     wc_EAERoot = [], wc_MaxJobs = 0, wc_TokenFile = ''/t'', wc_TranscoderPath = ''/x'', wc_PlexDir = ''/p'',
     wc_DriversDir = [], wc_PushParallel = 0, wc_PushQueueCap = 7\<rparr>"

lemma LoadWorkerd_valid_witness:
  "LoadWorkerd (Some demoWorkerd) = Inr (workerdDefaults demoWorkerd) \<and> wc_MaxJobs (workerdDefaults demoWorkerd) > 0"
proof -
  have "workerdErrors (workerdDefaults demoWorkerd) = []" by code_simp
  then have "LoadWorkerd (Some demoWorkerd) = Inr (workerdDefaults demoWorkerd)"
    by (simp add: LoadWorkerd_def joinConfigErrs_def)
  from LoadWorkerd_valid [OF this] this show ?thesis by blast
qed

end
