(* ===== verification/Shim.thy ===== *)
theory Shim
  imports ShimJob Classify Config
begin

text \<open>
  \<^verbatim>\<open>internal/shim/shim.go\<close>: the remote attempt and the event loop.

  Everything outside the process is in the record \<open>world\<close>: the configuration file as decoded,
  the token file, the environment, the random bytes, what masterd and the workers answer, and
  the inputs of the event loop in the order its \<^verbatim>\<open>select\<close> takes them.  A run gives the outcome
  and the list of the requests it made, in order; \<open>None\<close> means the shim is still waiting.
\<close>

section \<open>Requests and answers\<close>

text \<open>An answer to a request: none (transport error, timeout), or a status and the decoded body.\<close>

datatype 'a answer = NoAnswer | Answer int "'a option"

text \<open>\<^verbatim>\<open>doJSON\<close>: status, whether it returned an error, and the value decoded into \<^verbatim>\<open>out\<close>.\<close>

definition doJSON :: "bool \<Rightarrow> 'a answer \<Rightarrow> int \<times> bool \<times> 'a option" where
  "doJSON wantOut a =
     (case a of
        NoAnswer \<Rightarrow> (0, True, None)
      | Answer status body \<Rightarrow>
          if wantOut \<and> ok2xx status then (status, body = None, body) else (status, False, None))"

datatype action =
    Register string string
  | ListWorkers
  | Dispatch string JobRequest
  | OpenEvents string
  | Mirror string
  | CancelJob string
  | DeleteSession string

datatype outcome = FallBack | Handled int

datatype loopInput = LoopEvent Event | LoopReadError | LoopIdle | LoopSigterm

record world =
  w_confPath :: string
  w_conf :: "ShimConfig option"
  w_tokenFile :: "string option"
  w_cwd :: "string option"
  w_arg0 :: string
  w_random :: "string option"
  w_environ :: "string list"
  w_now :: int
  w_register :: "RegisterSessionResponse answer"
  w_workers :: "WorkerStatus list answer"
  w_dispatch :: "string \<Rightarrow> JobRequest \<Rightarrow> unit answer"
  w_events :: "string \<Rightarrow> int option"
  w_stream :: "string \<Rightarrow> loopInput list"
  w_execFails :: bool

definition exitSigterm :: int where "exitSigterm = 143"
definition mediaURLTTL :: int where "mediaURLTTL = 12 * 3600"

section \<open>The event loop\<close>

fun runEventLoop :: "string \<Rightarrow> string \<Rightarrow> bool \<Rightarrow> loopInput list \<Rightarrow> (outcome \<times> action list) option" where
  "runEventLoop jobURL session gotEvent [] = None"
| "runEventLoop jobURL session gotEvent (LoopEvent ev # rest) =
     (case ev of
        EventStderr line \<Rightarrow> map_option (apsnd ((#) (Mirror line))) (runEventLoop jobURL session True rest)
      | EventExit code \<Rightarrow> Some (Handled (case code of Some c \<Rightarrow> c | None \<Rightarrow> 1), [DeleteSession session])
      | _ \<Rightarrow> runEventLoop jobURL session True rest)"
| "runEventLoop jobURL session gotEvent (LoopReadError # rest) =
     Some (if gotEvent then (Handled ExitWorkerLost, [])
           else (FallBack, [CancelJob jobURL, DeleteSession session]))"
| "runEventLoop jobURL session gotEvent (LoopIdle # rest) =
     Some (if gotEvent then (Handled ExitWorkerLost, [])
           else (FallBack, [CancelJob jobURL, DeleteSession session]))"
| "runEventLoop jobURL session gotEvent (LoopSigterm # rest) =
     Some (Handled exitSigterm, [CancelJob jobURL])"

text \<open>\<^verbatim>\<open>openEvents\<close>: whether the stream is open; only 200 counts.\<close>

definition openEvents :: "int option \<Rightarrow> bool" where
  "openEvents resp \<longleftrightarrow> resp = Some 200"

section \<open>The remote attempt\<close>

text \<open>Step 3: the job request, from the answers of masterd and the shim's own process.\<close>

definition buildJobRequest ::
  "(string \<Rightarrow> string \<Rightarrow> string) \<Rightarrow> world \<Rightarrow> string \<Rightarrow> string \<Rightarrow> string \<Rightarrow> string \<Rightarrow> string list \<Rightarrow>
     RegisterSessionResponse \<Rightarrow> JobRequest option" where
  "buildJobRequest mac w token cwd argv0 jobID args reg =
     (let (argv, rw) = rewriteArgs mac args
            (newRewriter cwd (dir argv0) (rs_AdvertiseURL reg) token (w_now w + mediaURLTTL));
          adv = trimRight (rs_AdvertiseURL reg) ''/''
      in map_option (\<lambda>build.
           \<lparr>jr_JobID = jobID, jr_PlexBuild = build, jr_Argv = argv, jr_Media = rw_media rw,
            jr_Env = jobEnv (w_environ w),
            jr_Session = \<lparr>si_ID = base cwd, si_PushURL = adv @ ''/v1/sessions/'' @ jobID,
                          si_PushToken = rs_PushToken reg\<rparr>,
            jr_MasterPMS = adv @ ''/relay/'' @ jobID\<rparr>)
           (plexBuild (w_environ w) (dir argv0)))"

definition dispatchURL :: "string \<Rightarrow> string" where
  "dispatchURL workerURL = workerURL @ ''/v1/jobs''"

text \<open>Steps 4 and 5: dispatch the request, open the lifeline and follow it.\<close>

definition dispatchJob :: "world \<Rightarrow> string \<Rightarrow> string \<Rightarrow> JobRequest \<Rightarrow> (outcome \<times> action list) option" where
  "dispatchJob w session workerURL req =
     (let d = Dispatch (dispatchURL workerURL) req;
          (status, err, _) = doJSON False (w_dispatch w (dispatchURL workerURL) req)
      in if err \<or> \<not> ok2xx status then Some (FallBack, [d, DeleteSession session])
         else let jobURL = workerURL @ ''/v1/jobs/'' @ jr_JobID req; events = jobURL @ ''/events'' in
           if \<not> openEvents (w_events w events)
           then Some (FallBack, [d, OpenEvents events, CancelJob jobURL, DeleteSession session])
           else map_option (apsnd (\<lambda>acts. d # OpenEvents events # acts))
                  (runEventLoop jobURL session False (w_stream w events)))"

definition sessionURL :: "ShimConfig \<Rightarrow> string \<Rightarrow> string" where
  "sessionURL cfg jobID = trimRight (sc_MasterdURL cfg) ''/'' @ ''/v1/sessions/'' @ jobID"

definition tryRemote :: "(string \<Rightarrow> string \<Rightarrow> string) \<Rightarrow> world \<Rightarrow> string list \<Rightarrow> (outcome \<times> action list) option" where
  "tryRemote mac w args =
     (case LoadShim (w_confPath w) (w_conf w) of
        Inl _ \<Rightarrow> Some (FallBack, [])
      | Inr cfg \<Rightarrow>
      (case LoadToken (w_tokenFile w) of
        None \<Rightarrow> Some (FallBack, [])
      | Some token \<Rightarrow>
      (case w_cwd w of
        None \<Rightarrow> Some (FallBack, [])
      | Some cwd \<Rightarrow>
      (case absArgv0 (w_arg0 w) (w_cwd w) of
        None \<Rightarrow> Some (FallBack, [])
      | Some argv0 \<Rightarrow>
      (case randomJobID (w_random w) of
        None \<Rightarrow> Some (FallBack, [])
      | Some jobID \<Rightarrow>
        let session = sessionURL cfg jobID;
            register = Register jobID cwd;
            (status, err, reg) = doJSON True (w_register w)
        in if err \<or> \<not> ok2xx status then Some (FallBack, [register])
        else let (status2, err2, workers) = doJSON True (w_workers w) in
          if err2 \<or> \<not> ok2xx status2 then Some (FallBack, [register, ListWorkers, DeleteSession session])
          else let workerURL = pickWorker (the workers) in
            if workerURL = [] then Some (FallBack, [register, ListWorkers, DeleteSession session])
            else case buildJobRequest mac w token cwd argv0 jobID args (the reg) of
                None \<Rightarrow> None
              | Some req \<Rightarrow> map_option (apsnd (\<lambda>acts. register # ListWorkers # acts))
                              (dispatchJob w session workerURL req))))))"

section \<open>The process\<close>

text \<open>How the process ends: it becomes the local transcoder, or exits.\<close>

datatype shimEnd = ExecLocal string "string list" | ExitWith int

definition execLocal :: "world \<Rightarrow> string list \<Rightarrow> shimEnd" where
  "execLocal w args =
     (case origTranscoderPath (w_arg0 w) (w_cwd w) of
        None \<Rightarrow> ExitWith 1
      | Some orig \<Rightarrow> if w_execFails w then ExitWith 1 else ExecLocal orig (orig # args))"

definition Run :: "(string \<Rightarrow> string \<Rightarrow> string) \<Rightarrow> world \<Rightarrow> string list \<Rightarrow> (shimEnd \<times> action list) option" where
  "Run mac w args =
     (if classifyLocal args then Some (execLocal w args, [])
      else map_option (\<lambda>(o1, acts). (case o1 of Handled code \<Rightarrow> ExitWith code | FallBack \<Rightarrow> execLocal w args, acts))
             (tryRemote mac w args))"

section \<open>What the event loop does\<close>

text \<open>The inputs that end it, what one input mirrors, and the result of an ending input.\<close>

fun endsLoop :: "loopInput \<Rightarrow> bool" where
  "endsLoop (LoopEvent (EventExit c)) = True"
| "endsLoop (LoopEvent _) = False"
| "endsLoop _ = True"

fun mirrored :: "loopInput \<Rightarrow> action list" where
  "mirrored (LoopEvent (EventStderr line)) = [Mirror line]"
| "mirrored _ = []"

lemma runEventLoop_ends:
  assumes "\<forall>p \<in> set pre. \<not> endsLoop p" "endsLoop x"
  shows "runEventLoop jobURL session g (pre @ x # rest) =
    map_option (apsnd ((@) (concat (map mirrored pre)))) (runEventLoop jobURL session (g \<or> pre \<noteq> []) [x])"
  using assms(1)
proof (induction pre arbitrary: g)
  case Nil
  from assms(2) have "runEventLoop jobURL session g (x # rest) = runEventLoop jobURL session g [x]"
    by (cases x rule: endsLoop.cases) simp_all
  then show ?case by (simp add: apsnd_def map_prod_def option.map_ident id_def)
next
  case (Cons p pre)
  from Cons.prems obtain ev where p: "p = LoopEvent ev" "\<not> endsLoop p"
    by (cases p) auto
  from Cons.IH [of True] Cons.prems have "runEventLoop jobURL session True (pre @ x # rest) =
    map_option (apsnd ((@) (concat (map mirrored pre)))) (runEventLoop jobURL session True [x])" by simp
  with p show ?case
    by (cases ev; cases "runEventLoop jobURL session True [x]") (auto simp: apsnd_def map_prod_def)
qed

lemma runEventLoop_returns:
  assumes "runEventLoop jobURL session g ins = Some r"
  shows "\<exists>pre x rest. ins = pre @ x # rest \<and> (\<forall>p \<in> set pre. \<not> endsLoop p) \<and> endsLoop x"
  using assms
proof (induction ins arbitrary: g r)
  case (Cons y ys)
  show ?case
  proof (cases "endsLoop y")
    case True
    then show ?thesis by (intro exI [of _ "[]"] exI [of _ y] exI [of _ ys]) simp
  next
    case False
    then obtain ev where y: "y = LoopEvent ev" by (cases y) auto
    have "runEventLoop jobURL session True ys \<noteq> None"
      using Cons.prems False unfolding y by (cases ev) auto
    then obtain r' where "runEventLoop jobURL session True ys = Some r'" by blast
    from Cons.IH [OF this] obtain pre x rest where
      "ys = pre @ x # rest" "\<forall>p \<in> set pre. \<not> endsLoop p" "endsLoop x" by blast
    with False show ?thesis by (intro exI [of _ "y # pre"] exI [of _ x] exI [of _ rest]) simp
  qed
qed simp

lemma runEventLoop_total: "\<exists>x \<in> set ins. endsLoop x \<Longrightarrow> runEventLoop jobURL session g ins \<noteq> None"
proof -
  assume "\<exists>x \<in> set ins. endsLoop x"
  then obtain pre x rest where ins: "ins = pre @ x # rest" "endsLoop x" "\<forall>p \<in> set pre. \<not> endsLoop p"
    using split_list_first_prop [of ins endsLoop] by blast
  have "runEventLoop jobURL session g' [x] \<noteq> None" for g'
    using ins(2) by (cases x rule: endsLoop.cases) simp_all
  then show ?thesis unfolding ins(1) runEventLoop_ends [OF ins(3,2)] by simp
qed

text \<open>
  The result of a lifeline in one line: what came before the input that ends the loop was
  mirrored, and the ending input decides.
\<close>

lemma runEventLoop_result:
  assumes "runEventLoop jobURL session False ins = Some (o1, acts)"
  shows "\<exists>pre x rest. ins = pre @ x # rest \<and> (\<forall>p \<in> set pre. \<not> endsLoop p) \<and> endsLoop x \<and>
    (\<exists>last. acts = concat (map mirrored pre) @ last \<and> runEventLoop jobURL session (pre \<noteq> []) [x] = Some (o1, last))"
proof -
  from runEventLoop_returns [OF assms] obtain pre x rest where
    ins: "ins = pre @ x # rest" "\<forall>p \<in> set pre. \<not> endsLoop p" "endsLoop x" by blast
  from assms [unfolded ins(1) runEventLoop_ends [OF ins(2,3)]] obtain last where
    "runEventLoop jobURL session (pre \<noteq> []) [x] = Some (o1, last)" "acts = concat (map mirrored pre) @ last"
    by (auto simp: apsnd_def map_prod_def)
  with ins show ?thesis by blast
qed

lemma mirrored_Mirror: "a \<in> set (concat (map mirrored pre)) \<Longrightarrow> \<exists>line. a = Mirror line"
proof -
  have "a \<in> set (mirrored x) \<Longrightarrow> \<exists>line. a = Mirror line" for x by (cases x rule: mirrored.cases) auto
  then show "a \<in> set (concat (map mirrored pre)) \<Longrightarrow> \<exists>line. a = Mirror line" by auto
qed

lemma runEventLoop_fallback:
  assumes "runEventLoop jobURL session False ins = Some (FallBack, acts)"
  shows "acts = [CancelJob jobURL, DeleteSession session] \<and> hd ins \<in> {LoopReadError, LoopIdle}"
proof -
  from runEventLoop_result [OF assms] obtain pre x rest last where r: "ins = pre @ x # rest"
    "\<forall>p \<in> set pre. \<not> endsLoop p" "endsLoop x" "acts = concat (map mirrored pre) @ last"
    "runEventLoop jobURL session (pre \<noteq> []) [x] = Some (FallBack, last)" by blast
  from r(5,3) show ?thesis unfolding r(1,4)
    by (cases x rule: endsLoop.cases) (auto split: if_splits)
qed

section \<open>What the remote attempt does\<close>

text \<open>Dispatching: refused, no lifeline, or the lifeline's result after the two requests.\<close>

definition accepted :: "world \<Rightarrow> string \<Rightarrow> JobRequest \<Rightarrow> bool" where
  "accepted w u req \<longleftrightarrow> (\<exists>status body. w_dispatch w u req = Answer status body \<and> ok2xx status)"

lemma dispatchJob_cases:
  assumes "dispatchJob w session workerURL req = Some (o1, acts)"
  shows "(\<not> accepted w (dispatchURL workerURL) req \<and> o1 = FallBack \<and>
      acts = [Dispatch (dispatchURL workerURL) req, DeleteSession session]) \<or>
    (accepted w (dispatchURL workerURL) req \<and>
     (let jobURL = workerURL @ ''/v1/jobs/'' @ jr_JobID req; events = jobURL @ ''/events'' in
      (w_events w events \<noteq> Some 200 \<and> o1 = FallBack \<and>
       acts = [Dispatch (dispatchURL workerURL) req, OpenEvents events, CancelJob jobURL, DeleteSession session]) \<or>
      (\<exists>more. w_events w events = Some 200 \<and> acts = Dispatch (dispatchURL workerURL) req # OpenEvents events # more \<and>
         runEventLoop jobURL session False (w_stream w events) = Some (o1, more))))"
proof -
  have eq: "dispatchJob w session workerURL req =
     (let jobURL = workerURL @ ''/v1/jobs/'' @ jr_JobID req; events = jobURL @ ''/events'' in
      if \<not> accepted w (dispatchURL workerURL) req then Some (FallBack, [Dispatch (dispatchURL workerURL) req, DeleteSession session])
      else if w_events w events \<noteq> Some 200
      then Some (FallBack, [Dispatch (dispatchURL workerURL) req, OpenEvents events, CancelJob jobURL, DeleteSession session])
      else map_option (apsnd (\<lambda>acts. Dispatch (dispatchURL workerURL) req # OpenEvents events # acts))
             (runEventLoop jobURL session False (w_stream w events)))"
    by (cases "w_dispatch w (dispatchURL workerURL) req")
       (simp_all add: dispatchJob_def doJSON_def accepted_def openEvents_def Let_def)
  show ?thesis
  proof (cases "accepted w (dispatchURL workerURL) req")
    case False
    with assms show ?thesis unfolding eq Let_def by simp
  next
    case True
    with assms show ?thesis unfolding eq Let_def
      by (cases "w_events w (workerURL @ ''/v1/jobs/'' @ jr_JobID req @ ''/events'') = Some 200")
         (auto simp: apsnd_def map_prod_def)
  qed
qed

definition registered :: "world \<Rightarrow> RegisterSessionResponse \<Rightarrow> bool" where
  "registered w reg \<longleftrightarrow> (\<exists>status. w_register w = Answer status (Some reg) \<and> ok2xx status)"

definition listed :: "world \<Rightarrow> WorkerStatus list \<Rightarrow> bool" where
  "listed w ws \<longleftrightarrow> (\<exists>status. w_workers w = Answer status (Some ws) \<and> ok2xx status)"

text \<open>The URL of the session of a job, where the configuration loads.\<close>

definition sessionURLOf :: "world \<Rightarrow> string \<Rightarrow> string" where
  "sessionURLOf w jobID =
     (case LoadShim (w_confPath w) (w_conf w) of
        Inr cfg \<Rightarrow> sessionURL cfg jobID
      | Inl _ \<Rightarrow> [])"

lemma doJSON_True:
  "doJSON True a = (status, err, out) \<Longrightarrow>
     err \<or> \<not> ok2xx status \<or> (\<exists>b. out = Some b \<and> a = Answer status (Some b))"
  by (auto simp: doJSON_def split: answer.splits if_splits)

lemma doJSON_True_bad:
  "doJSON True a = (status, err, out) \<Longrightarrow> err \<or> \<not> ok2xx status \<Longrightarrow> a \<noteq> Answer st (Some b) \<or> \<not> ok2xx st"
  by (auto simp: doJSON_def split: answer.splits if_splits)

text \<open>
  The four ways the remote attempt can go: nothing was asked of anybody, the registration was
  refused, masterd had no worker, or a request was built and dispatched.
\<close>

lemma tryRemote_cases:
  assumes "tryRemote mac w args = Some (o1, acts)"
  shows "(o1 = FallBack \<and> acts = []) \<or>
    (\<exists>jobID cwd. w_cwd w = Some cwd \<and> randomJobID (w_random w) = Some jobID \<and>
       ((o1 = FallBack \<and> acts = [Register jobID cwd] \<and> (\<forall>reg. \<not> registered w reg)) \<or>
        (o1 = FallBack \<and> acts = [Register jobID cwd, ListWorkers, DeleteSession (sessionURLOf w jobID)]) \<or>
        (\<exists>token argv0 reg ws req more.
           LoadToken (w_tokenFile w) = Some token \<and> absArgv0 (w_arg0 w) (w_cwd w) = Some argv0 \<and>
           registered w reg \<and> listed w ws \<and> pickWorker ws \<noteq> [] \<and>
           buildJobRequest mac w token cwd argv0 jobID args reg = Some req \<and>
           acts = Register jobID cwd # ListWorkers # more \<and>
           dispatchJob w (sessionURLOf w jobID) (pickWorker ws) req = Some (o1, more))))"
proof (cases "(\<exists>e. LoadShim (w_confPath w) (w_conf w) = Inl e) \<or> LoadToken (w_tokenFile w) = None \<or>
    w_cwd w = None \<or> absArgv0 (w_arg0 w) (w_cwd w) = None \<or> randomJobID (w_random w) = None")
  case True
  then have "tryRemote mac w args = Some (FallBack, [])"
    by (auto simp: tryRemote_def split: option.splits sum.splits)
  with assms show ?thesis by simp
next
  case False
  then obtain cfg token cwd argv0 jobID where ok: "LoadShim (w_confPath w) (w_conf w) = Inr cfg"
      "LoadToken (w_tokenFile w) = Some token" "w_cwd w = Some cwd"
      "absArgv0 (w_arg0 w) (w_cwd w) = Some argv0" "randomJobID (w_random w) = Some jobID"
    by (cases "LoadShim (w_confPath w) (w_conf w)") auto
  obtain st err reg where reg: "doJSON True (w_register w) = (st, err, reg)" by (metis surj_pair)
  obtain st2 err2 ws where ws: "doJSON True (w_workers w) = (st2, err2, ws)" by (metis surj_pair)
  have su: "sessionURLOf w jobID = sessionURL cfg jobID"
    using ok(1) by (simp add: sessionURLOf_def)
  have eq: "tryRemote mac w args =
     (if err \<or> \<not> ok2xx st then Some (FallBack, [Register jobID cwd])
      else if err2 \<or> \<not> ok2xx st2 \<or> pickWorker (the ws) = []
        then Some (FallBack, [Register jobID cwd, ListWorkers, DeleteSession (sessionURLOf w jobID)])
      else case buildJobRequest mac w token cwd argv0 jobID args (the reg) of
          None \<Rightarrow> None
        | Some req \<Rightarrow> map_option (apsnd (\<lambda>acts. Register jobID cwd # ListWorkers # acts))
                        (dispatchJob w (sessionURLOf w jobID) (pickWorker (the ws)) req))"
    unfolding su using ok by (simp add: tryRemote_def reg ws Let_def)
  consider (noreg) "err \<or> \<not> ok2xx st" | (nows) "\<not> (err \<or> \<not> ok2xx st)" "err2 \<or> \<not> ok2xx st2 \<or> pickWorker (the ws) = []"
    | (go) "\<not> err" "ok2xx st" "\<not> err2" "ok2xx st2" "pickWorker (the ws) \<noteq> []" by blast
  then show ?thesis
  proof cases
    case noreg
    then have "\<not> registered w r" for r
      using doJSON_True_bad [OF reg noreg] by (auto simp: registered_def)
    moreover have "o1 = FallBack" "acts = [Register jobID cwd]" using assms noreg unfolding eq by auto
    ultimately show ?thesis using ok(3,5) by blast
  next
    case nows
    then have "o1 = FallBack" "acts = [Register jobID cwd, ListWorkers, DeleteSession (sessionURLOf w jobID)]"
      using assms unfolding eq by auto
    with ok(3,5) show ?thesis by blast
  next
    case go
    obtain r where r: "reg = Some r" "registered w r"
      using doJSON_True [OF reg] go(1,2) unfolding registered_def by blast
    obtain l where l: "ws = Some l" "listed w l"
      using doJSON_True [OF ws] go(3,4) unfolding listed_def by blast
    from assms [unfolded eq] go r l obtain req where
      "buildJobRequest mac w token cwd argv0 jobID args r = Some req"
      "map_option (apsnd (\<lambda>acts. Register jobID cwd # ListWorkers # acts))
         (dispatchJob w (sessionURLOf w jobID) (pickWorker l) req) = Some (o1, acts)"
      by (auto split: option.splits)
    moreover from this(2) obtain more where
      "acts = Register jobID cwd # ListWorkers # more"
      "dispatchJob w (sessionURLOf w jobID) (pickWorker l) req = Some (o1, more)"
      by (auto simp: apsnd_def map_prod_def)
    moreover have "pickWorker l \<noteq> []" using go(5) l(1) by simp
    ultimately show ?thesis using ok(2-5) r(2) l(2) by blast
  qed
qed

section \<open>Falling back\<close>

text \<open>
  What a fall back leaves behind: nothing mirrored; the session deleted if masterd opened it;
  the job cancelled if the worker accepted it; and no event taken from the lifeline.
\<close>

definition cleanFallback :: "world \<Rightarrow> action list \<Rightarrow> bool" where
  "cleanFallback w acts \<longleftrightarrow>
     (\<forall>line. Mirror line \<notin> set acts) \<and>
     (\<forall>jobID cwd reg. Register jobID cwd \<in> set acts \<longrightarrow> registered w reg \<longrightarrow>
        last acts = DeleteSession (sessionURLOf w jobID)) \<and>
     (\<forall>u req. Dispatch u req \<in> set acts \<longrightarrow> accepted w u req \<longrightarrow>
        CancelJob (u @ ''/'' @ jr_JobID req) \<in> set acts) \<and>
     (\<forall>u. OpenEvents u \<in> set acts \<longrightarrow> w_events w u = Some 200 \<longrightarrow>
        hd (w_stream w u) \<in> {LoopReadError, LoopIdle})"

lemma dispatchJob_fallback:
  assumes "dispatchJob w session workerURL req = Some (FallBack, acts)"
  shows "(\<not> accepted w (dispatchURL workerURL) req \<and> acts = [Dispatch (dispatchURL workerURL) req, DeleteSession session]) \<or>
    (\<exists>events. acts = [Dispatch (dispatchURL workerURL) req, OpenEvents events,
        CancelJob (dispatchURL workerURL @ ''/'' @ jr_JobID req), DeleteSession session] \<and>
      (w_events w events = Some 200 \<longrightarrow> hd (w_stream w events) \<in> {LoopReadError, LoopIdle}))"
proof -
  have url: "dispatchURL workerURL @ ''/'' @ jr_JobID req = workerURL @ ''/v1/jobs/'' @ jr_JobID req"
    by (simp add: dispatchURL_def)
  show ?thesis
    unfolding url using dispatchJob_cases [OF assms] runEventLoop_fallback unfolding Let_def by blast
qed

lemma tryRemote_clean:
  assumes "tryRemote mac w args = Some (FallBack, acts)"
  shows "cleanFallback w acts"
proof -
  from tryRemote_cases [OF assms] consider (none) "acts = []"
    | (noreg) jobID cwd where "acts = [Register jobID cwd]" "\<forall>reg. \<not> registered w reg"
    | (nows) jobID cwd where "acts = [Register jobID cwd, ListWorkers, DeleteSession (sessionURLOf w jobID)]"
    | (go) jobID cwd ws req more where "acts = Register jobID cwd # ListWorkers # more"
        "dispatchJob w (sessionURLOf w jobID) (pickWorker ws) req = Some (FallBack, more)"
    by (elim disjE exE conjE) (rule that; assumption)+
  then show ?thesis
  proof cases
    case go
    from dispatchJob_fallback [OF go(2)] go(1) show ?thesis by (auto simp: cleanFallback_def)
  qed (auto simp: cleanFallback_def)
qed


section \<open>Exit codes\<close>

text \<open>The exit code an ending input gives, and the last request made for it.\<close>

fun codeOf :: "bool \<Rightarrow> loopInput \<Rightarrow> int option" where
  "codeOf gotEvent (LoopEvent (EventExit (Some c))) = Some c"
| "codeOf gotEvent (LoopEvent (EventExit None)) = Some 1"
| "codeOf gotEvent LoopReadError = (if gotEvent then Some 75 else None)"
| "codeOf gotEvent LoopIdle = (if gotEvent then Some 75 else None)"
| "codeOf gotEvent LoopSigterm = Some 143"
| "codeOf gotEvent _ = None"

fun farewell :: "string \<Rightarrow> string \<Rightarrow> loopInput \<Rightarrow> action list" where
  "farewell jobURL session (LoopEvent (EventExit c)) = [DeleteSession session]"
| "farewell jobURL session LoopSigterm = [CancelJob jobURL]"
| "farewell jobURL session _ = []"

lemma runEventLoop_handled:
  "endsLoop x \<Longrightarrow> runEventLoop jobURL session g [x] = Some (Handled code, acts) \<Longrightarrow>
     codeOf g x = Some code \<and> acts = farewell jobURL session x"
  by (cases x rule: endsLoop.cases)
     (auto simp: ExitWorkerLost_def exitSigterm_def split: if_splits option.splits)

text \<open>C11: When the shim exits with a code although the local transcoder could be run, it follows a remote
  job: the code is that of the exit event, 1 for an exit event without one, 143 after SIGTERM
  (and the job is cancelled), or 75 when the lifeline breaks or falls silent after its first
  event; up to then exactly the stderr lines of the job were mirrored, in order.\<close>

theorem shim_exit_code:
  assumes "Run mac w args = Some (ExitWith code, acts)"
    and "origTranscoderPath (w_arg0 w) (w_cwd w) \<noteq> None" "\<not> w_execFails w"
  shows "\<not> classifyLocal args \<and>
    (\<exists>jobID cwd u req pre x rest.
       w_events w (u @ ''/v1/jobs/'' @ jr_JobID req @ ''/events'') = Some 200 \<and>
       w_stream w (u @ ''/v1/jobs/'' @ jr_JobID req @ ''/events'') = pre @ x # rest \<and>
       accepted w (dispatchURL u) req \<and> (\<forall>p \<in> set pre. \<not> endsLoop p) \<and> endsLoop x \<and> codeOf (pre \<noteq> []) x = Some code \<and>
       acts = [Register jobID cwd, ListWorkers, Dispatch (dispatchURL u) req,
               OpenEvents (u @ ''/v1/jobs/'' @ jr_JobID req @ ''/events'')] @
              concat (map mirrored pre) @ farewell (u @ ''/v1/jobs/'' @ jr_JobID req) (sessionURLOf w jobID) x)"
proof -
  have exec: "execLocal w args \<noteq> ExitWith code"
    using assms(2,3) by (auto simp: execLocal_def)
  then have remote: "\<not> classifyLocal args" using assms(1) by (auto simp: Run_def)
  with assms(1) obtain o1 where o1: "tryRemote mac w args = Some (o1, acts)"
      "(case o1 of Handled code \<Rightarrow> ExitWith code | FallBack \<Rightarrow> execLocal w args) = ExitWith code"
    by (auto simp: Run_def)
  with exec have h: "o1 = Handled code" by (cases o1) auto
  from tryRemote_cases [OF o1(1)] h obtain jobID cwd ws req more where
    acts: "acts = Register jobID cwd # ListWorkers # more"
    and d: "dispatchJob w (sessionURLOf w jobID) (pickWorker ws) req = Some (Handled code, more)" by blast
  let ?u = "pickWorker ws"
  let ?job = "?u @ ''/v1/jobs/'' @ jr_JobID req"
  from dispatchJob_cases [OF d] obtain tail where t: "accepted w (dispatchURL ?u) req"
      "w_events w (?job @ ''/events'') = Some 200" "more = Dispatch (dispatchURL ?u) req # OpenEvents (?job @ ''/events'') # tail"
      "runEventLoop ?job (sessionURLOf w jobID) False (w_stream w (?job @ ''/events'')) = Some (Handled code, tail)"
    unfolding Let_def by blast
  from runEventLoop_result [OF t(4)] obtain pre x rest last where l:
      "w_stream w (?job @ ''/events'') = pre @ x # rest" "\<forall>p \<in> set pre. \<not> endsLoop p" "endsLoop x"
      "tail = concat (map mirrored pre) @ last"
      "runEventLoop ?job (sessionURLOf w jobID) (pre \<noteq> []) [x] = Some (Handled code, last)" by blast
  from runEventLoop_handled [OF l(3,5)] have c: "codeOf (pre \<noteq> []) x = Some code"
    "last = farewell ?job (sessionURLOf w jobID) x" by simp_all
  have assoc: "?job @ ''/events'' = ?u @ ''/v1/jobs/'' @ jr_JobID req @ ''/events''" unfolding append_assoc ..
  have "acts = [Register jobID cwd, ListWorkers, Dispatch (dispatchURL ?u) req, OpenEvents (?job @ ''/events'')] @
      concat (map mirrored pre) @ farewell ?job (sessionURLOf w jobID) x"
    unfolding acts t(3) l(4) c(2) append_Cons append_Nil append_assoc ..
  with remote t(1,2) l(1-3) c(1) show ?thesis unfolding assoc by blast
qed

section \<open>Returning\<close>

lemma buildJobRequest_total:
  assumes "\<And>c. w_cwd w = Some c \<Longrightarrow> isAbs c" "absArgv0 (w_arg0 w) (w_cwd w) = Some argv0"
  shows "\<exists>req. buildJobRequest mac w token cwd argv0 jobID args reg = Some req"
proof -
  obtain cs where "properComps cs" "argv0 = absPath cs" using absArgv0_shape [OF assms(2,1)] by blast
  with dir_shape obtain ds where "properComps ds" "dir argv0 = absPath ds" by blast
  then obtain b where "plexBuild (w_environ w) (dir argv0) = Some b" using plexBuild_absPath by auto
  then show ?thesis by (simp add: buildJobRequest_def Let_def case_prod_beta)
qed

lemma dispatchJob_total:
  assumes "\<And>u. \<exists>x \<in> set (w_stream w u). endsLoop x"
  shows "dispatchJob w session u req \<noteq> None"
  using runEventLoop_total [OF assms] by (simp add: dispatchJob_def Let_def case_prod_beta)

text \<open>C32: The shim always comes to an end: the climb for the build string stops at the root, and the event
  loop at the first exit event, broken or silent lifeline, or signal, one of which every
  lifeline has; so the run has a result.\<close>

theorem shim_returns:
  assumes "\<And>c. w_cwd w = Some c \<Longrightarrow> isAbs c" "\<And>u. \<exists>x \<in> set (w_stream w u). endsLoop x"
  shows "\<exists>e acts. Run mac w args = Some (e, acts)"
proof -
  have b: False if "absArgv0 (w_arg0 w) c = Some argv0" "w_cwd w = c"
      "buildJobRequest mac w token cwd argv0 jobID args reg = None" for c token cwd argv0 jobID reg
  proof -
    have "\<exists>req. buildJobRequest mac w token cwd argv0 jobID args reg = Some req"
      using assms(1) that(1) [folded that(2)] by (rule buildJobRequest_total)
    with that(3) show False by simp
  qed
  have "tryRemote mac w args \<noteq> None"
    using dispatchJob_total [OF assms(2)]
    unfolding tryRemote_def Let_def by (auto dest: b split: sum.split option.split prod.split)
  then obtain r where "tryRemote mac w args = Some r" by blast
  then have "\<exists>r. Run mac w args = Some r" by (cases "classifyLocal args") (simp_all add: Run_def)
  then show ?thesis by (metis surj_pair)
qed

section \<open>The request\<close>

lemma dispatchJob_requests:
  assumes "dispatchJob w session u req = Some (o1, acts)" "Dispatch u' req' \<in> set acts"
  shows "u' = dispatchURL u \<and> req' = req"
proof -
  have loop: "Dispatch u' req' \<notin> set more"
    if "runEventLoop jobURL session False ins = Some (o1, more)" for jobURL ins more
  proof -
    from runEventLoop_result [OF that] obtain pre x last where m: "more = concat (map mirrored pre) @ last"
      "endsLoop x" "runEventLoop jobURL session (pre \<noteq> []) [x] = Some (o1, last)" by blast
    from m(2,3) have "Dispatch u' req' \<notin> set last"
      by (cases x rule: endsLoop.cases) (auto split: if_splits)
    moreover have "Dispatch u' req' \<notin> set (concat (map mirrored pre))" using mirrored_Mirror by blast
    ultimately show ?thesis unfolding m(1) set_append by blast
  qed
  from dispatchJob_cases [OF assms(1), unfolded Let_def] show ?thesis
    using assms(2) loop by (elim disjE exE conjE) simp_all
qed

lemma Run_dispatch:
  assumes "Run mac w args = Some (e, acts)" "Dispatch u req \<in> set acts"
  shows "\<exists>jobID cwd token argv0 reg ws. randomJobID (w_random w) = Some jobID \<and>
    absArgv0 (w_arg0 w) (w_cwd w) = Some argv0 \<and> listed w ws \<and> pickWorker ws \<noteq> [] \<and>
    u = dispatchURL (pickWorker ws) \<and> buildJobRequest mac w token cwd argv0 jobID args reg = Some req"
proof -
  have "\<not> classifyLocal args" using assms by (auto simp: Run_def)
  with assms(1) obtain o1 where "tryRemote mac w args = Some (o1, acts)" by (auto simp: Run_def)
  from tryRemote_cases [OF this] assms(2) obtain jobID cwd token argv0 reg ws req' more where
    r: "randomJobID (w_random w) = Some jobID" "absArgv0 (w_arg0 w) (w_cwd w) = Some argv0"
      "listed w ws" "pickWorker ws \<noteq> []" "buildJobRequest mac w token cwd argv0 jobID args reg = Some req'"
      "acts = Register jobID cwd # ListWorkers # more"
      "dispatchJob w (sessionURLOf w jobID) (pickWorker ws) req' = Some (o1, more)"
    by (elim disjE exE conjE) ((simp; fail) | (rule that; assumption))+
  have "Dispatch u req \<in> set more" using assms(2) unfolding r(6) by simp
  from dispatchJob_requests [OF r(7) this] have eq: "u = dispatchURL (pickWorker ws)" "req' = req" by simp_all
  with r show ?thesis by blast
qed


section \<open>Concrete runs\<close>

definition demoArgs :: "string list" where
  "demoArgs = [''-i'', ''a'', ''%01d'']"

definition demoWorld :: "loopInput list \<Rightarrow> world" where
  "demoWorld ins =
     \<lparr>w_confPath = ''/c'', w_conf = Some \<lparr>sc_MasterdURL = ''http://m'', sc_SpawnBudgetMS = 9\<rparr>,
      w_tokenFile = Some ''s'', w_cwd = Some ''/t'', w_arg0 = ''/p/T'', w_random = Some ''0123456789abcdef'',
      w_environ = [''A=1'', ''HOME=/root'', ''A=2''], w_now = 5,
      w_register = Answer 201 (Some \<lparr>rs_PushToken = ''tok'', rs_AdvertiseURL = ''http://m''\<rparr>),
      w_workers = Answer 200 (Some [\<lparr>ws_URL = ''http://w'', ws_Healthy = True, ws_Health = zeroHealth\<lparr>h_MaxJobs := 1\<rparr>\<rparr>]),
      w_dispatch = (\<lambda>u r. Answer 201 None), w_events = (\<lambda>u. Some 200), w_stream = (\<lambda>u. ins),
      w_execFails = False\<rparr>"

lemma demo_evaluated:
  "\<not> classifyLocal demoArgs" "LoadToken (Some ''s'') = Some ''s''" "absArgv0 ''/p/T'' (Some ''/t'') = Some ''/p/T''"
proof -
  show "\<not> classifyLocal demoArgs" by code_simp
  have "isAlnum CHR ''s''" by (simp add: isAlnum_def isLower_def)
  then show "LoadToken (Some ''s'') = Some ''s''" by (simp add: LoadToken_Some trimSpace_alnum)
  show "absArgv0 ''/p/T'' (Some ''/t'') = Some ''/p/T''" by code_simp
qed

lemma demo_run:
  assumes "\<And>job session. runEventLoop job session False ins = Some (f job session)"
  shows "\<exists>req jobURL session.
    Run plainMac (demoWorld ins) demoArgs = Some
      (case fst (f jobURL session) of
         Handled code \<Rightarrow> ExitWith code
       | FallBack \<Rightarrow> ExecLocal ''/p/T.orig'' (''/p/T.orig'' # demoArgs),
       [Register (hexEncode ''0123456789abcdef'') ''/t'', ListWorkers, Dispatch (dispatchURL ''http://w'') req, OpenEvents (jobURL @ ''/events'')] @
         snd (f jobURL session))"
proof -
  have pick: "pickWorker [\<lparr>ws_URL = ''http://w'', ws_Healthy = True, ws_Health = zeroHealth\<lparr>h_MaxJobs := 1\<rparr>\<rparr>] = ''http://w''"
    by (simp add: pickWorker_def zeroHealth_def)
  obtain cfg where cfg: "LoadShim ''/c'' (Some \<lparr>sc_MasterdURL = ''http://m'', sc_SpawnBudgetMS = 9\<rparr>) = Inr cfg"
    by (simp add: LoadShim_def Let_def orElse_def)
  let ?w = "demoWorld ins"
  have w: "w_confPath ?w = ''/c''" "w_conf ?w = Some \<lparr>sc_MasterdURL = ''http://m'', sc_SpawnBudgetMS = 9\<rparr>"
    "w_tokenFile ?w = Some ''s''" "w_cwd ?w = Some ''/t''" "w_arg0 ?w = ''/p/T''" "w_random ?w = Some ''0123456789abcdef''"
    "w_register ?w = Answer 201 (Some \<lparr>rs_PushToken = ''tok'', rs_AdvertiseURL = ''http://m''\<rparr>)"
    "w_workers ?w = Answer 200 (Some [\<lparr>ws_URL = ''http://w'', ws_Healthy = True, ws_Health = zeroHealth\<lparr>h_MaxJobs := 1\<rparr>\<rparr>])"
    "w_dispatch ?w u r = Answer 201 None" "w_events ?w u = Some 200" "w_stream ?w u = ins" "\<not> w_execFails ?w" for u r
    by (simp_all add: demoWorld_def)
  have "isAbs c" if "w_cwd ?w = Some c" for c using that unfolding w by (auto simp: isAbs_def)
  moreover have "absArgv0 (w_arg0 ?w) (w_cwd ?w) = Some ''/p/T''" unfolding w by (rule demo_evaluated(3))
  ultimately obtain req where req: "buildJobRequest plainMac ?w ''s'' ''/t'' ''/p/T'' (hexEncode ''0123456789abcdef'') demoArgs
      \<lparr>rs_PushToken = ''tok'', rs_AdvertiseURL = ''http://m''\<rparr> = Some req"
    using buildJobRequest_total by blast
  define job where job: "job = ''http://w'' @ ''/v1/jobs/'' @ jr_JobID req"
  define session where session: "session = sessionURL cfg (hexEncode ''0123456789abcdef'')"
  have events: "''http://w'' @ ''/v1/jobs/'' @ jr_JobID req @ ''/events'' = job @ ''/events''" unfolding job append_assoc ..
  obtain o1 more where f: "f job session = (o1, more)" by (metis surj_pair)
  have d: "dispatchJob ?w session ''http://w'' req = Some (o1,
      Dispatch (dispatchURL ''http://w'') req # OpenEvents (job @ ''/events'') # more)"
    unfolding dispatchJob_def Let_def w doJSON_def openEvents_def job [symmetric]
    by (simp add: assms f)
  have t: "tryRemote plainMac ?w demoArgs = Some (o1,
      Register (hexEncode ''0123456789abcdef'') ''/t'' # ListWorkers # Dispatch (dispatchURL ''http://w'') req #
        OpenEvents (job @ ''/events'') # more)"
    unfolding tryRemote_def Let_def w doJSON_def randomJobID_def cfg demo_evaluated
    by (simp add: pick req d session [symmetric])
  have "execLocal ?w demoArgs = ExecLocal ''/p/T.orig'' (''/p/T.orig'' # demoArgs)"
    unfolding execLocal_def origTranscoderPath_def w demo_evaluated(3) using w(12) by simp
  then have "Run plainMac ?w demoArgs = Some
      (case fst (f job session) of
         Handled code \<Rightarrow> ExitWith code
       | FallBack \<Rightarrow> ExecLocal ''/p/T.orig'' (''/p/T.orig'' # demoArgs),
       [Register (hexEncode ''0123456789abcdef'') ''/t'', ListWorkers, Dispatch (dispatchURL ''http://w'') req, OpenEvents (job @ ''/events'')] @
         snd (f job session))"
    by (simp add: Run_def demo_evaluated t f split: outcome.split)
  then show ?thesis by blast
qed


lemma demo_exit_run:
  "\<exists>acts req. Run plainMac (demoWorld [LoopEvent (EventStderr ''x''), LoopEvent (EventExit (Some 7))]) demoArgs = Some (ExitWith 7, acts) \<and>
     Dispatch (dispatchURL ''http://w'') req \<in> set acts"
  using demo_run [of "[LoopEvent (EventStderr ''x''), LoopEvent (EventExit (Some 7))]"
    "\<lambda>job session. (Handled 7, [Mirror ''x'', DeleteSession session])"] by auto

lemma shim_exit_code_witness:
  "\<exists>acts. Run plainMac (demoWorld [LoopEvent (EventStderr ''x''), LoopEvent (EventExit (Some 7))]) demoArgs = Some (ExitWith 7, acts) \<and>
     \<not> classifyLocal demoArgs \<and> (\<exists>jobID cwd rest. acts = Register jobID cwd # ListWorkers # rest)"
proof -
  let ?w = "demoWorld [LoopEvent (EventStderr ''x''), LoopEvent (EventExit (Some 7))]"
  obtain acts where a: "Run plainMac ?w demoArgs = Some (ExitWith 7, acts)" using demo_exit_run by blast
  have "origTranscoderPath (w_arg0 ?w) (w_cwd ?w) \<noteq> None" "\<not> w_execFails ?w"
    by (simp_all add: demoWorld_def origTranscoderPath_def absArgv0_def)
  from shim_exit_code [OF a this] have "\<not> classifyLocal demoArgs" "\<exists>jobID cwd rest. acts = Register jobID cwd # ListWorkers # rest"
    unfolding append_Cons by blast+
  with a show ?thesis by blast
qed

lemma shim_returns_witness: "\<exists>e acts. Run plainMac (demoWorld [LoopSigterm]) demoArgs = Some (e, acts)"
proof (rule shim_returns)
  show "isAbs c" if "w_cwd (demoWorld [LoopSigterm]) = Some c" for c
    using that by (auto simp: demoWorld_def isAbs_def)
  show "\<exists>x \<in> set (w_stream (demoWorld [LoopSigterm]) u). endsLoop x" for u by (simp add: demoWorld_def)
qed


text \<open>
  The worker list is probed with the trailing slash of a worker's URL removed, the dispatch
  keeps it: a worker configured with one is shown healthy and addressed by a path with a
  double slash.
\<close>

lemma dispatchURL_slash: "dispatchURL (u @ ''/'') = u @ ''//v1/jobs''"
  by (simp add: dispatchURL_def)

end
