(* ===== verification/Proxy.thy ===== *)
theory Proxy
  imports Protocol
begin

text \<open>
  \<^verbatim>\<open>internal/workerd/proxy.go\<close>: the gating proxy.  What it does with a request is a value: an
  error answer, a request forwarded at once, or one forwarded after the gate has passed the
  chunks its body names (the gate itself is \<open>Job.gateCheck\<close>).
\<close>

section \<open>Paths\<close>

definition splitRelayPath :: "string \<Rightarrow> (string \<times> string) option" where
  "splitRelayPath escapedPath =
     (case cutPrefix escapedPath ''/relay/'' of
        None \<Rightarrow> None
      | Some p \<Rightarrow>
          (case cut p ''/'' of
             (i, rest, found) \<Rightarrow> if \<not> found \<or> i = [] \<or> rest = [] then None else Some (i, rest)))"

definition isAnnouncePath :: "string \<Rightarrow> bool" where
  "isAnnouncePath path \<longleftrightarrow> contains path ''seglist'' \<or> contains path ''/manifest''"

section \<open>Chunk references\<close>

text \<open>
  The regular expression \<^verbatim>\<open>(?:sub-chunk|chunk|init|media)-[A-Za-z0-9_$%.-]*[A-Za-z0-9]\<close> at the
  start of a text: the alternatives in order, each followed by the longest run of the class
  that ends in a letter or digit.
\<close>

definition refChar :: "char \<Rightarrow> bool" where
  "refChar c \<longleftrightarrow> isAlnum c \<or> c \<in> set ''_$%.-''"

definition refRun :: "string \<Rightarrow> string" where
  "refRun r = rev (dropWhile (\<lambda>c. \<not> isAlnum c) (rev (takeWhile refChar r)))"

definition refAt :: "string \<Rightarrow> string \<Rightarrow> string option" where
  "refAt p s =
     (case cutPrefix s p of
        None \<Rightarrow> None
      | Some r \<Rightarrow> if refRun r = [] then None else Some (p @ refRun r))"

definition refPrefixes :: "string list" where
  "refPrefixes = [''sub-chunk-'', ''chunk-'', ''init-'', ''media-'']"

fun firstSome :: "('a \<Rightarrow> 'b option) \<Rightarrow> 'a list \<Rightarrow> 'b option" where
  "firstSome f [] = None"
| "firstSome f (x # xs) = (case f x of Some y \<Rightarrow> Some y | None \<Rightarrow> firstSome f xs)"

definition chunkHere :: "string \<Rightarrow> string option" where
  "chunkHere s = firstSome (\<lambda>p. refAt p s) refPrefixes"

lemma firstSome_Some: "firstSome f xs = Some y \<Longrightarrow> \<exists>x \<in> set xs. f x = Some y"
  by (induction xs) (auto split: option.splits)

lemma chunkHere_Some:
  "chunkHere s = Some m \<Longrightarrow> \<exists>p \<in> set refPrefixes. \<exists>r. s = p @ r \<and> refRun r \<noteq> [] \<and> m = p @ refRun r"
  unfolding chunkHere_def
  by (drule firstSome_Some) (auto simp: refAt_def cutPrefix_Some split: option.splits if_splits)

lemma chunkHere_nonempty: "chunkHere s = Some m \<Longrightarrow> m \<noteq> []"
  by (drule chunkHere_Some) auto

text \<open>\<^verbatim>\<open>FindAll\<close>: leftmost matches, each search going on after the previous match.\<close>

function findChunks :: "string \<Rightarrow> string list" where
  "findChunks s =
     (case s of
        [] \<Rightarrow> []
      | c # cs \<Rightarrow>
          (case chunkHere s of
             Some m \<Rightarrow> m # findChunks (drop (length m) s)
           | None \<Rightarrow> findChunks cs))"
  by pat_completeness auto
termination
  by (relation "measure length") (auto dest: chunkHere_nonempty)

declare findChunks.simps [simp del]

text \<open>The deduplication loop of \<^verbatim>\<open>referencedChunks\<close>: first appearances, in order.\<close>

fun dedupe :: "string list \<Rightarrow> string list \<Rightarrow> string list" where
  "dedupe seen [] = []"
| "dedupe seen (m # ms) = (if m \<in> set seen then dedupe seen ms else m # dedupe (m # seen) ms)"

definition referencedChunks :: "string \<Rightarrow> string list" where
  "referencedChunks body = dedupe [] (findChunks body)"

section \<open>Forwarding\<close>

definition hopHeaders :: "string list" where
  "hopHeaders = [''Connection'', ''Proxy-Connection'', ''Keep-Alive'', ''Te'', ''Trailer'', ''Transfer-Encoding'', ''Upgrade'']"

definition isHopHeader :: "string \<Rightarrow> bool" where
  "isHopHeader name \<longleftrightarrow> (\<exists>h \<in> set hopHeaders. equalFold name h)"

record forwarded =
  fw_target :: string
  fw_headers :: "(string \<times> string) list"
  fw_body :: string

text \<open>
  \<^verbatim>\<open>relay\<close>, the request: hop headers go, the worker's token replaces what the transcoder
  sent.  Header names are in their canonical form.
\<close>

definition relay :: "string \<Rightarrow> string \<Rightarrow> string \<Rightarrow> string \<Rightarrow> (string \<times> string) list \<Rightarrow> string \<Rightarrow> forwarded" where
  "relay token masterPMS rest rawQuery headers body =
     \<lparr>fw_target = trimSuffix masterPMS ''/'' @ ''/'' @ rest @ (if rawQuery \<noteq> [] then ''?'' @ rawQuery else []),
      fw_headers = (''Authorization'', ''Bearer '' @ token) #
        filter (\<lambda>kv. fst kv \<notin> set hopHeaders \<and> fst kv \<noteq> ''Authorization'') headers,
      fw_body = body\<rparr>"

text \<open>The answer copied back: everything but the hop headers.\<close>

definition relayedHeaders :: "(string \<times> string) list \<Rightarrow> (string \<times> string) list" where
  "relayedHeaders headers = filter (\<lambda>kv. \<not> isHopHeader (fst kv)) headers"

datatype proxyAction = ProxyReply HttpReply | ForwardNow forwarded | HoldFor "string list" forwarded

definition maxAnnounceBody :: nat where "maxAnnounceBody = 16 * 2 ^ 20"

definition relayAnnounce :: "string \<Rightarrow> string \<Rightarrow> string \<Rightarrow> string \<Rightarrow> (string \<times> string) list \<Rightarrow> string option \<Rightarrow> proxyAction" where
  "relayAnnounce token masterPMS rest rawQuery headers body =
     (case body of
        None \<Rightarrow> ProxyReply (Reply 502 ''BAD_GATEWAY'')
      | Some b \<Rightarrow>
          if length b > maxAnnounceBody then ProxyReply (Reply 502 ''BAD_GATEWAY'')
          else HoldFor (referencedChunks b) (relay token masterPMS rest rawQuery headers b))"

text \<open>
  \<^verbatim>\<open>proxyHandler\<close>: \<open>jobs\<close> gives the relay base of a known job; the body is \<open>None\<close> when
  reading it fails.
\<close>

definition proxyHandler ::
  "string \<Rightarrow> (string \<Rightarrow> string option) \<Rightarrow> string \<Rightarrow> string \<Rightarrow> string \<Rightarrow> (string \<times> string) list \<Rightarrow> string option \<Rightarrow> proxyAction" where
  "proxyHandler token jobs escapedPath path rawQuery headers body =
     (case splitRelayPath escapedPath of
        None \<Rightarrow> ProxyReply (Reply 404 ''NOT_FOUND'')
      | Some (i, rest) \<Rightarrow>
          (case jobs i of
             None \<Rightarrow> ProxyReply (Reply 404 ''NOT_FOUND'')
           | Some masterPMS \<Rightarrow>
               if isAnnouncePath path then relayAnnounce token masterPMS rest rawQuery headers body
               else (case body of
                       None \<Rightarrow> ProxyReply (Reply 502 ''BAD_GATEWAY'')
                     | Some b \<Rightarrow> ForwardNow (relay token masterPMS rest rawQuery headers b))))"

section \<open>The references found\<close>

text \<open>A chunk name: one of the prefixes and a non-empty body of the class ending in a letter or digit.\<close>

definition chunkName :: "string \<Rightarrow> bool" where
  "chunkName n \<longleftrightarrow> (\<exists>p \<in> set refPrefixes. \<exists>w. n = p @ w \<and> w \<noteq> [] \<and> list_all refChar w \<and> isAlnum (last w))"

lemma refPrefixes_chars: "p \<in> set refPrefixes \<Longrightarrow> list_all refChar p"
  by (auto simp: refPrefixes_def refChar_def isAlnum_def isLower_def)

lemma refRun_prefix: "prefix (refRun r) (takeWhile refChar r)"
proof -
  have "suffix (dropWhile (\<lambda>c. \<not> isAlnum c) (rev (takeWhile refChar r))) (rev (takeWhile refChar r))"
    by (rule suffix_dropWhile)
  then show ?thesis unfolding refRun_def by (simp add: suffix_to_prefix)
qed

lemma refRun_shape: "refRun r \<noteq> [] \<Longrightarrow> list_all refChar (refRun r) \<and> isAlnum (last (refRun r))"
proof
  have "set (refRun r) \<subseteq> set (takeWhile refChar r)" using refRun_prefix by (rule set_mono_prefix)
  then show "list_all refChar (refRun r)" by (auto simp: list_all_iff dest: set_takeWhileD)
next
  assume "refRun r \<noteq> []"
  then show "isAlnum (last (refRun r))"
    using hd_dropWhile [of "\<lambda>c. \<not> isAlnum c" "rev (takeWhile refChar r)"] by (simp add: refRun_def last_rev)
qed

lemma refRun_id: "list_all refChar w \<Longrightarrow> w \<noteq> [] \<Longrightarrow> isAlnum (last w) \<Longrightarrow> refRun w = w"
proof -
  assume h: "list_all refChar w" "w \<noteq> []" "isAlnum (last w)"
  then have "takeWhile refChar w = w" by (simp add: takeWhile_eq_all_conv list_all_iff)
  moreover obtain v c where "w = v @ [c]" using h(2) by (cases w rule: rev_cases) auto
  ultimately show "refRun w = w" using h(3) by (simp add: refRun_def)
qed

text \<open>Matches are chunk names inside the text.\<close>

lemma chunkHere_name: "chunkHere s = Some m \<Longrightarrow> chunkName m \<and> prefix m s"
proof -
  assume "chunkHere s = Some m"
  from chunkHere_Some [OF this] obtain p r where m: "p \<in> set refPrefixes" "s = p @ r" "refRun r \<noteq> []" "m = p @ refRun r" by blast
  have "prefix (refRun r) r" using refRun_prefix takeWhile_is_prefix by (rule prefix_order.trans)
  with m refRun_shape [OF m(3)] show ?thesis by (auto simp: chunkName_def)
qed

lemma findChunks_names: "m \<in> set (findChunks s) \<Longrightarrow> chunkName m \<and> sublist m s"
proof (induction s rule: findChunks.induct)
  case (1 s)
  show ?case
  proof (cases s)
    case Nil
    with 1(3) show ?thesis by (simp add: findChunks.simps)
  next
    case (Cons c cs)
    show ?thesis
    proof (cases "chunkHere s")
      case None
      with 1(3) Cons have "m \<in> set (findChunks cs)" by (subst (asm) findChunks.simps) simp
      with 1(1) [OF Cons None] Cons show ?thesis by (auto simp: sublist_Cons_right)
    next
      case (Some m')
      with 1(3) Cons have "m = m' \<or> m \<in> set (findChunks (drop (length m') s))"
        by (subst (asm) findChunks.simps) simp
      moreover have "chunkName m' \<and> sublist m' s" using chunkHere_name [OF Some] prefix_imp_sublist by blast
      moreover have "sublist (drop (length m') s) s" by (rule suffix_imp_sublist) (rule suffix_drop)
      ultimately show ?thesis using 1(2) [OF Cons Some] sublist_order.order.trans by blast
    qed
  qed
qed

text \<open>A character outside the class separates the matches.\<close>

lemma prefix_cut: "x \<notin> set p \<Longrightarrow> prefix p (u @ x # v) \<longleftrightarrow> prefix p u"
proof (induction p arbitrary: u)
  case (Cons y p)
  then show ?case by (cases u) auto
qed simp

lemma refAt_cut:
  assumes "list_all refChar p" "\<not> refChar x"
  shows "refAt p (u @ x # v) = refAt p u"
proof -
  have "x \<notin> set p" using assms by (auto simp: list_all_iff)
  note pre = prefix_cut [OF this]
  have run: "takeWhile refChar (r @ x # v) = takeWhile refChar r" for r
    using assms(2) by (induction r) auto
  have "drop (length p) (u @ x # v) = drop (length p) u @ x # v" if "prefix p u"
    using prefix_length_le [OF that] by simp
  then show ?thesis by (auto simp: refAt_def cutPrefix_def pre refRun_def run)
qed

lemma chunkHere_cut: "\<not> refChar x \<Longrightarrow> chunkHere (u @ x # v) = chunkHere u"
proof -
  assume x: "\<not> refChar x"
  have "firstSome (\<lambda>p. refAt p (u @ x # v)) ps = firstSome (\<lambda>p. refAt p u) ps" if "set ps \<subseteq> set refPrefixes" for ps
    using that x by (induction ps) (simp_all add: refAt_cut refPrefixes_chars split: option.split)
  then show ?thesis unfolding chunkHere_def by blast
qed

lemma chunkHere_Nil: "chunkHere [] = None"
  by (simp add: chunkHere_def refPrefixes_def refAt_def cutPrefix_def)

lemma findChunks_cut: "\<not> refChar x \<Longrightarrow> findChunks (u @ x # v) = findChunks u @ findChunks v"
proof (induction "length u" arbitrary: u rule: less_induct)
  case less
  show ?case
  proof (cases u)
    case Nil
    have "chunkHere (x # v) = None" using chunkHere_cut [OF less(2), of "[]"] chunkHere_Nil by simp
    with Nil show ?thesis by (simp add: findChunks.simps [of "x # v"] findChunks.simps [of "[]"])
  next
    case (Cons c u')
    note here = chunkHere_cut [OF less(2), of u v]
    show ?thesis
    proof (cases "chunkHere u")
      case None
      with Cons here less(1) [of u'] less(2) show ?thesis
        by (simp add: findChunks.simps [of "c # u' @ x # v"] findChunks.simps [of "c # u'"])
    next
      case (Some m)
      have "prefix m u" "m \<noteq> []" using chunkHere_name [OF Some] chunkHere_nonempty [OF Some] by simp_all
      then have "length m \<le> length u" "0 < length m" by (simp_all add: prefix_length_le)
      then have d: "drop (length m) (u @ x # v) = drop (length m) u @ x # v" "length (drop (length m) u) < length u"
        by (simp_all del: length_greater_0_conv)
      have l: "findChunks (u @ x # v) = m # findChunks (drop (length m) (u @ x # v))"
        using Cons here Some by (subst findChunks.simps) simp
      have r: "findChunks u = m # findChunks (drop (length m) u)"
        using Cons Some by (subst findChunks.simps) simp
      show ?thesis unfolding l r d(1) using less(1) [OF d(2) less(2)] by simp
    qed
  qed
qed

lemma chunkHere_whole: "chunkName n \<Longrightarrow> chunkHere n = Some n"
proof -
  assume "chunkName n"
  then obtain p w where n: "p \<in> set refPrefixes" "n = p @ w" "w \<noteq> []" "refRun w = w"
    using refRun_id unfolding chunkName_def by blast
  have at: "refAt q (q @ w) = Some (q @ w)" for q using n(3,4) by (simp add: refAt_def)
  have other: "refAt q (q' @ w) = None" if "\<not> prefix q (q' @ w)" for q q'
    using that by (simp add: refAt_def cutPrefix_def)
  have no: "refAt ''sub-chunk-'' (''chunk-'' @ w) = None" "refAt ''sub-chunk-'' (''init-'' @ w) = None"
    "refAt ''chunk-'' (''init-'' @ w) = None" "refAt ''sub-chunk-'' (''media-'' @ w) = None"
    "refAt ''chunk-'' (''media-'' @ w) = None" "refAt ''init-'' (''media-'' @ w) = None"
    by (rule other; simp)+
  from n(1) consider "p = ''sub-chunk-''" | "p = ''chunk-''" | "p = ''init-''" | "p = ''media-''"
    unfolding refPrefixes_def list.set by blast
  then show ?thesis
    by cases (simp_all only: n(2) chunkHere_def refPrefixes_def firstSome.simps at no option.case)
qed

lemma findChunks_whole: "chunkName n \<Longrightarrow> findChunks n = [n]"
proof -
  assume n: "chunkName n"
  then obtain c cs where "n = c # cs" by (cases n) (auto simp: chunkName_def)
  with chunkHere_whole [OF n] show ?thesis by (subst findChunks.simps) (simp add: findChunks.simps [of "[]"])
qed

lemma set_dedupe: "set (dedupe seen ms) = set ms - set seen"
  by (induction ms arbitrary: seen) auto

lemma distinct_dedupe: "distinct (dedupe seen ms)"
  by (induction ms arbitrary: seen) (auto simp: set_dedupe)

lemma referencedChunks_set: "set (referencedChunks body) = set (findChunks body)"
  by (simp add: referencedChunks_def set_dedupe)

text \<open>A chunk name between delimiters is found, whatever stands around it.\<close>

lemma referencedChunks_delimited:
  assumes n: "chunkName n" and a: "a = [] \<or> \<not> refChar (last a)" and b: "b = [] \<or> \<not> refChar (hd b)"
  shows "n \<in> set (referencedChunks (a @ n @ b))"
proof -
  have tail: "n \<in> set (findChunks (n @ b))"
  proof (cases b)
    case Nil
    then show ?thesis using findChunks_whole [OF n] by simp
  next
    case (Cons x v)
    then show ?thesis using b findChunks_cut [of x n v] findChunks_whole [OF n] by simp
  qed
  show ?thesis
  proof (cases a rule: rev_cases)
    case Nil
    with tail show ?thesis by (simp add: referencedChunks_set)
  next
    case (snoc u x)
    then show ?thesis using a findChunks_cut [of x u "n @ b"] tail by (simp add: referencedChunks_set)
  qed
qed

text \<open>The gate is given no name twice, only chunk names that stand in the announce, and every chunk name
  of the announce that is not glued to other characters of a name.\<close>

theorem referencedChunks_complete:
  shows "distinct (referencedChunks body) \<and>
    (\<forall>m. m \<in> set (referencedChunks body) \<longrightarrow> chunkName m \<and> sublist m body) \<and>
    (\<forall>a n b. body = a @ n @ b \<longrightarrow> chunkName n \<longrightarrow> (a = [] \<or> \<not> refChar (last a)) \<longrightarrow> (b = [] \<or> \<not> refChar (hd b)) \<longrightarrow>
       n \<in> set (referencedChunks body))"
  using distinct_dedupe findChunks_names referencedChunks_delimited
  by (auto simp: referencedChunks_set) (simp add: referencedChunks_def)

lemma referencedChunks_complete_witness:
  "''init-1.mp4'' \<in> set (referencedChunks ''init-1.mp4,2'')"
proof -
  have "chunkName ''init-1.mp4''"
    unfolding chunkName_def
    by (rule bexI [of _ "''init-''"], rule exI [of _ "''1.mp4''"])
       (simp_all add: refPrefixes_def refChar_def isAlnum_def isDigit_def isLower_def)
  moreover have "\<not> refChar (hd '',2'')" by (simp add: refChar_def isAlnum_def isDigit_def isLower_def isUpper_def)
  moreover have "''init-1.mp4,2'' = [] @ ''init-1.mp4'' @ '',2''" by simp
  ultimately show ?thesis using referencedChunks_complete [of "''init-1.mp4,2''"] by blast
qed

end
