(* ===== verification/Build.thy ===== *)
theory Build
  imports Authtok GoPath
begin

text \<open>
  \<^verbatim>\<open>internal/workerd/build.go\<close>: build strings, driver bundles and path-safe ids.  The file
  system is a parameter: the content of the VERSION file, the entries of the drivers
  directory, and whether a path is a regular file.
\<close>

section \<open>Build strings\<close>

definition buildMarkerW :: string where "buildMarkerW = ''plexmediaserver-''"

fun versionIn :: "string list \<Rightarrow> string option" where
  "versionIn [] = None"
| "versionIn (seg # segs) =
     (case index seg buildMarkerW of
        None \<Rightarrow> versionIn segs
      | Some i \<Rightarrow>
          let v = drop (i + length buildMarkerW) seg in
          if v \<noteq> [] \<and> isDigit (hd v) then Some v else versionIn segs)"

text \<open>\<open>version\<close> is the content of the VERSION file, if it can be read.\<close>

definition plexBuildFromDir :: "string option \<Rightarrow> string \<Rightarrow> string option" where
  "plexBuildFromDir version plexDir =
     (let v = (case version of None \<Rightarrow> [] | Some raw \<Rightarrow> trimSpace raw) in
      if v \<noteq> [] then Some v else versionIn (splitOn CHR ''/'' (clean plexDir)))"

definition versionComponent :: "string \<Rightarrow> string" where
  "versionComponent build = (case index build ''-'' of Some i \<Rightarrow> take i build | None \<Rightarrow> build)"

definition buildsMatch :: "string \<Rightarrow> string \<Rightarrow> bool" where
  "buildsMatch a b \<longleftrightarrow> a \<noteq> [] \<and> b \<noteq> [] \<and> (a = b \<or> versionComponent a = versionComponent b)"

section \<open>Driver bundles\<close>

text \<open>A directory entry: its name, and whether it is a directory or a symbolic link.\<close>

type_synonym dirent = "string \<times> bool"

definition ihdDriDir :: "(string \<Rightarrow> bool) \<Rightarrow> string \<Rightarrow> string option" where
  "ihdDriDir fileExists d =
     find (\<lambda>cand. fileExists (joinPath [cand, ''iHD_drv_video.so''])) [joinPath [d, ''dri''], d]"

fun driverLoop :: "(string \<Rightarrow> bool) \<Rightarrow> string \<Rightarrow> string \<Rightarrow> string \<Rightarrow> dirent list \<Rightarrow> string list \<Rightarrow> string option" where
  "driverLoop fileExists dd build ver [] fallbacks =
     (case fallbacks of [f] \<Rightarrow> Some f | _ \<Rightarrow> None)"
| "driverLoop fileExists dd build ver ((name, isDir) # es) fallbacks =
     (if \<not> isDir then driverLoop fileExists dd build ver es fallbacks
      else case ihdDriDir fileExists (joinPath [dd, name]) of
          None \<Rightarrow> driverLoop fileExists dd build ver es fallbacks
        | Some dri \<Rightarrow>
            if name = build \<or> (ver \<noteq> [] \<and> contains name ver) then Some dri
            else driverLoop fileExists dd build ver es (fallbacks @ [dri]))"

definition driverDriDir :: "(string \<Rightarrow> bool) \<Rightarrow> dirent list option \<Rightarrow> string \<Rightarrow> string \<Rightarrow> string option" where
  "driverDriDir fileExists entries driversDir build =
     (case entries of
        None \<Rightarrow> None
      | Some es \<Rightarrow> driverLoop fileExists driversDir build (versionComponent build) es [])"

definition vaapiOK :: "(string \<Rightarrow> bool) \<Rightarrow> dirent list option \<Rightarrow> string \<Rightarrow> string \<Rightarrow> bool \<Rightarrow> bool" where
  "vaapiOK fileExists entries driversDir build renderOpens \<longleftrightarrow>
     driverDriDir fileExists entries driversDir build \<noteq> None \<and> renderOpens"

section \<open>Ids\<close>

text \<open>The regular expression \<^verbatim>\<open>^[A-Za-z0-9][A-Za-z0-9._-]{0,127}$\<close>.\<close>

definition idChar :: "char \<Rightarrow> bool" where
  "idChar c \<longleftrightarrow> isAlnum c \<or> c \<in> set ''._-''"

definition validID :: "string \<Rightarrow> bool" where
  "validID s = (case s of [] \<Rightarrow> False | c # cs \<Rightarrow> isAlnum c \<and> length cs \<le> 127 \<and> list_all idChar cs)"

lemma validID_proper: "validID s \<Longrightarrow> properComp s"
proof -
  assume h: "validID s"
  then obtain c cs where s: "s = c # cs" "isAlnum c" "list_all idChar cs"
    by (cases s) (auto simp: validID_def)
  have "\<not> isAlnum CHR ''.''" "\<not> isAlnum CHR ''/''" "\<not> idChar CHR ''/''"
    by (simp_all add: idChar_def isAlnum_def isDigit_def isUpper_def isLower_def)
  with s show ?thesis by (auto simp: properComp_def list_all_iff)
qed

text \<open>Builds match as an equivalence on non-empty strings; matching is decided by the version.\<close>

lemma buildsMatch_version: "buildsMatch a b \<longleftrightarrow> a \<noteq> [] \<and> b \<noteq> [] \<and> versionComponent a = versionComponent b"
  by (auto simp: buildsMatch_def)

lemma hex_validID: "buf \<noteq> [] \<Longrightarrow> length buf \<le> 64 \<Longrightarrow> validID (hexEncode buf)"
proof -
  assume h: "buf \<noteq> []" "length buf \<le> 64"
  have hexChar: "isAlnum (hexChar d)" if "d < 16" for d
  proof -
    have "list_all isAlnum ''0123456789abcdef''" by (simp add: isAlnum_def isDigit_def isLower_def)
    then show ?thesis using that unfolding hexChar_def list_all_length by simp
  qed
  have all: "list_all isAlnum (hexEncode buf)"
    using hexChar by (auto simp: hexEncode_def list_all_iff ord_less_256 less_mult_imp_div_less)
  obtain c cs where cs: "hexEncode buf = c # cs" using hexEncode_nonempty [OF h(1)] by (cases "hexEncode buf") auto
  moreover have "length (hexEncode buf) \<le> 128" using h(2) by (simp add: length_hexEncode)
  ultimately show ?thesis using all by (auto simp: validID_def list_all_iff idChar_def)
qed

text \<open>
  The comment of \<^verbatim>\<open>driverDriDir\<close> puts a bundle named exactly after the build before one whose
  name only contains the version; the loop takes whichever comes first in the directory.
\<close>

lemma driverDriDir_order:
  "driverDriDir (\<lambda>p. True) (Some [(''1-a'', True), (''1-b'', True)]) ''/d'' ''1-b'' = Some ''/d/1-a/dri''"
  by code_simp

end
