(* ===== verification/Daemon.thy ===== *)
theory Daemon
  imports JobGate Build Config "HOL-Library.AList"
begin

text \<open>
  \<^verbatim>\<open>internal/workerd/workerd.go\<close>: the worker daemon over the systems of its jobs.  The job table
  is an association list with distinct ids (a Go map; the order stands for the iteration
  order); each job is a whole system of \<^verbatim>\<open>JobSystem\<close>, so every interleaving of all jobs with
  admissions, cancels and the reaper is a run.  The file system is given by flags: whether the
  codec directory of a build exists, whether the job directories could be created, and the
  entries of the jobs directory with their modification times.
\<close>

section \<open>State and paths\<close>

record daemon =
  d_cfg :: WorkerdConfig
  d_plexBuild :: string
  d_jobs :: "(string \<times> sys) list"

definition newDaemon :: "WorkerdConfig \<Rightarrow> string \<Rightarrow> daemon" where
  "newDaemon cfg build = \<lparr>d_cfg = cfg, d_plexBuild = build, d_jobs = []\<rparr>"

definition jobsRoot :: "WorkerdConfig \<Rightarrow> string" where
  "jobsRoot cfg = joinPath [wc_DataDir cfg, ''jobs'']"

definition codecsRoot :: "WorkerdConfig \<Rightarrow> string" where
  "codecsRoot cfg = joinPath [wc_DataDir cfg, ''codecs'']"

definition jobDir :: "WorkerdConfig \<Rightarrow> string \<Rightarrow> string" where
  "jobDir cfg i = joinPath [jobsRoot cfg, i]"

definition codecsDir :: "WorkerdConfig \<Rightarrow> string \<Rightarrow> string" where
  "codecsDir cfg build = joinPath [codecsRoot cfg, build]"

definition masterURL :: "WorkerdConfig \<Rightarrow> string" where
  "masterURL cfg = trimSuffix (wc_MasterURL cfg) ''/''"

text \<open>\<^verbatim>\<open>proxyBase\<close>; \<open>hostPort\<close> is what \<^verbatim>\<open>net.SplitHostPort\<close> makes of the listen address.\<close>

definition joinHostPort :: "string \<Rightarrow> string \<Rightarrow> string" where
  "joinHostPort host port =
     (if CHR '':'' \<in> set host then ''['' @ host @ '']:'' @ port else host @ '':'' @ port)"

definition proxyBase :: "(string \<times> string) option \<Rightarrow> string \<Rightarrow> string" where
  "proxyBase hostPort jobID =
     (let (host, port) = (case hostPort of Some hp \<Rightarrow> hp | None \<Rightarrow> (''127.0.0.1'', ''32401''));
          h = (if host \<in> {[], ''0.0.0.0'', ''::''} then ''127.0.0.1'' else host)
      in ''http://'' @ joinHostPort h port @ ''/relay/'' @ jobID)"

definition getJob :: "string \<Rightarrow> daemon \<Rightarrow> sys option" where
  "getJob i d = map_of (d_jobs d) i"

definition terminalSys :: "sys \<Rightarrow> bool" where
  "terminalSys s \<longleftrightarrow> isTerminal (j_state (s_job s))"

definition activeJobs :: "daemon \<Rightarrow> int" where
  "activeJobs d = int (length (filter (\<lambda>ks. \<not> terminalSys (snd ks)) (d_jobs d)))"

section \<open>Handlers\<close>

text \<open>\<^verbatim>\<open>codecsReady\<close> on the entries of the codecs directory (name, is a directory).\<close>

definition codecsReady :: "string \<Rightarrow> (string \<times> bool) list option \<Rightarrow> (string \<times> bool) list" where
  "codecsReady build entries =
     fold (\<lambda>(name, isDir) ready. if isDir \<and> \<not> hasSuffix name ''.partial'' then AList.update name True ready else ready)
       (case entries of None \<Rightarrow> [] | Some es \<Rightarrow> es) [(build, False)]"

definition handleHealth :: "daemon \<Rightarrow> bool \<Rightarrow> (string \<times> bool) list option \<Rightarrow> Health" where
  "handleHealth d vaapi entries =
     (let codecs = codecsReady (d_plexBuild d) entries in
      \<lparr>h_Status = (if \<not> vaapi \<or> map_of codecs (d_plexBuild d) \<noteq> Some True then HealthDegraded else HealthOK),
       h_PlexBuild = d_plexBuild d, h_ActiveJobs = activeJobs d, h_MaxJobs = wc_MaxJobs (d_cfg d),
       h_VaapiOK = vaapi, h_CodecsReady = codecs\<rparr>)"

text \<open>
  \<^verbatim>\<open>handleCreateJob\<close>: the new daemon, the answer, and the build whose background provision is
  started, if any.  \<open>req\<close> is the decoded body; \<open>warm\<close> and \<open>dirsOk\<close> are the answers of the
  file system.
\<close>

definition badRequest :: "JobRequest \<Rightarrow> bool" where
  "badRequest req \<longleftrightarrow> \<not> validID (jr_JobID req) \<or> \<not> validID (jr_PlexBuild req) \<or> length (jr_Argv req) < 2 \<or>
     si_PushURL (jr_Session req) = [] \<or> si_PushToken (jr_Session req) = [] \<or> jr_MasterPMS req = []"

definition handleCreateJob :: "JobRequest option \<Rightarrow> bool \<Rightarrow> bool \<Rightarrow> daemon \<Rightarrow> daemon \<times> HttpReply \<times> string option" where
  "handleCreateJob body warm dirsOk d =
     (case body of
        None \<Rightarrow> (d, Reply 400 ''BAD_REQUEST'', None)
      | Some req \<Rightarrow>
          if badRequest req then (d, Reply 400 ''BAD_REQUEST'', None)
          else if getJob (jr_JobID req) d \<noteq> None then (d, Reply 409 ''DUPLICATE_JOB'', None)
          else if activeJobs d \<ge> wc_MaxJobs (d_cfg d) then (d, Reply 429 ''AT_CAPACITY'', None)
          else if \<not> buildsMatch (jr_PlexBuild req) (d_plexBuild d) then (d, Reply 409 ''VERSION_MISMATCH'', None)
          else if \<not> warm then (d, Reply 503 ''NOT_READY'', Some (jr_PlexBuild req))
          else if \<not> dirsOk then (d, Reply 500 ''INTERNAL'', None)
          else (d\<lparr>d_jobs := (jr_JobID req, initSys (jr_JobID req) (jobDir (d_cfg d) (jr_JobID req))) # d_jobs d\<rparr>,
                Reply 201 [], None))"

text \<open>
  \<^verbatim>\<open>reapOnce\<close>: the jobs dropped from the table, and the names below the jobs directory whose
  directories are removed: first those of the dropped jobs, then the old orphans.
\<close>

definition expired :: "int \<Rightarrow> sys \<Rightarrow> bool" where
  "expired now s \<longleftrightarrow> terminalSys s \<and> now - j_terminalAt (s_job s) \<ge> reapAge"

definition reapOnce :: "int \<Rightarrow> (string \<times> int option) list option \<Rightarrow> daemon \<Rightarrow> daemon \<times> string list" where
  "reapOnce now entries d =
     (let gone = map fst (filter (\<lambda>ks. expired now (snd ks)) (d_jobs d));
          d' = d\<lparr>d_jobs := filter (\<lambda>ks. \<not> expired now (snd ks)) (d_jobs d)\<rparr>;
          orphans = map fst (filter (\<lambda>(name, mtime). getJob name d' = None \<and>
                       (case mtime of None \<Rightarrow> False | Some m \<Rightarrow> now - m \<ge> reapAge))
                      (case entries of None \<Rightarrow> [] | Some es \<Rightarrow> es))
      in (d', gone @ orphans))"

section \<open>The daemon as a transition system\<close>

datatype daction =
    DCreate "JobRequest option" bool bool
  | DJob string action
  | DDelete string
  | DReap int "(string \<times> int option) list option"

definition queueCap :: "daemon \<Rightarrow> nat" where "queueCap d = nat (wc_PushQueueCap (d_cfg d))"
definition parallel :: "daemon \<Rightarrow> nat" where "parallel d = nat (wc_PushParallel (d_cfg d))"

definition jobStep :: "string \<Rightarrow> action \<Rightarrow> daemon \<Rightarrow> daemon option" where
  "jobStep i a d =
     (case getJob i d of
        None \<Rightarrow> None
      | Some s \<Rightarrow> map_option (\<lambda>t. d\<lparr>d_jobs := AList.update i t (d_jobs d)\<rparr>) (step (queueCap d) (parallel d) a s))"

text \<open>\<^verbatim>\<open>handleDeleteJob\<close>: always 204; a known job is asked to cancel.\<close>

definition handleDeleteJob :: "string \<Rightarrow> daemon \<Rightarrow> daemon \<times> HttpReply" where
  "handleDeleteJob i d = ((case jobStep i CancelJob d of Some d' \<Rightarrow> d' | None \<Rightarrow> d), Reply 204 [])"

fun dstep :: "daction \<Rightarrow> daemon \<Rightarrow> daemon option" where
  "dstep (DCreate body warm dirsOk) d = Some (fst (handleCreateJob body warm dirsOk d))"
| "dstep (DJob i a) d = jobStep i a d"
| "dstep (DDelete i) d = Some (fst (handleDeleteJob i d))"
| "dstep (DReap now entries) d = Some (fst (reapOnce now entries d))"

section \<open>What the daemon needs of a job\<close>

text \<open>
  The contract of a job towards the admission: a finished job stays finished.  Inside it, the
  count of unfinished jobs cannot grow by a job's own move.
\<close>

locale finishing =
  fixes jstep :: "'a \<Rightarrow> 's \<Rightarrow> 's option" and finished :: "'s \<Rightarrow> bool"
  assumes finished_stays: "jstep a s = Some t \<Longrightarrow> finished s \<Longrightarrow> finished t"
begin

definition unfinished :: "(string \<times> 's) list \<Rightarrow> nat" where
  "unfinished jobs = length (filter (\<lambda>ks. \<not> finished (snd ks)) jobs)"

lemma unfinished_update:
  assumes "map_of jobs i = Some s" "jstep a s = Some t"
  shows "unfinished (AList.update i t jobs) \<le> unfinished jobs"
  using assms(1)
proof (induction jobs)
  case (Cons kx jobs)
  obtain k x where kx: "kx = (k, x)" by (cases kx)
  show ?case
  proof (cases "k = i")
    case True
    with Cons.prems kx have "x = s" by simp
    with True kx finished_stays [OF assms(2)] show ?thesis by (auto simp: unfinished_def)
  next
    case False
    with Cons kx show ?thesis by (auto simp: unfinished_def)
  qed
qed simp

end

interpretation worker_job: finishing "step cap par" terminalSys
  by unfold_locales (auto simp: terminalSys_def jobMono_def dest: step_mono)

lemma activeJobs_unfinished: "activeJobs d = int (worker_job.unfinished (d_jobs d))"
  by (simp add: activeJobs_def worker_job.unfinished_def)

section \<open>The table of jobs\<close>

text \<open>
  The invariant: distinct path-safe ids, at most \<^verbatim>\<open>max_jobs\<close> unfinished jobs, and every job a
  reachable state of its own system, so that what is proved of a single job holds of every
  job of the daemon.
\<close>

definition daemonInv :: "daemon \<Rightarrow> bool" where
  "daemonInv d \<longleftrightarrow> distinct (map fst (d_jobs d)) \<and> activeJobs d \<le> max 0 (wc_MaxJobs (d_cfg d)) \<and>
     (\<forall>(i, s) \<in> set (d_jobs d). validID i \<and>
        reachable (step (queueCap d) (parallel d)) (initSys i (jobDir (d_cfg d) i)) s)"

lemma daemonInv_jobs: "daemonInv d \<Longrightarrow> getJob i d = Some s \<Longrightarrow>
  validID i \<and> reachable (step (queueCap d) (parallel d)) (initSys i (jobDir (d_cfg d) i)) s"
  unfolding daemonInv_def getJob_def by (auto dest!: map_of_SomeD)

lemma cfg_same [simp]:
  "queueCap (d\<lparr>d_jobs := js\<rparr>) = queueCap d" "parallel (d\<lparr>d_jobs := js\<rparr>) = parallel d"
  by (simp_all add: queueCap_def parallel_def)

lemma set_update_subset: "set (AList.update k v al) \<subseteq> insert (k, v) (set al)"
  by (induction al) auto

lemma jobStep_inv:
  assumes "daemonInv d" "jobStep i a d = Some d'"
  shows "daemonInv d'"
proof -
  from assms(2) obtain s t where s: "getJob i d = Some s" "step (queueCap d) (parallel d) a s = Some t"
      "d' = d\<lparr>d_jobs := AList.update i t (d_jobs d)\<rparr>"
    by (auto simp: jobStep_def split: option.splits)
  note old = daemonInv_jobs [OF assms(1) s(1)]
  then have "reachable (step (queueCap d) (parallel d)) (initSys i (jobDir (d_cfg d) i)) t"
    using reach_step s(2) by metis
  moreover have "activeJobs d' \<le> activeJobs d"
    using worker_job.unfinished_update [of "d_jobs d" i s "queueCap d" "parallel d" a t] s
    by (simp add: activeJobs_unfinished getJob_def)
  ultimately show ?thesis
    using assms(1) old set_update_subset [of i t "d_jobs d"] unfolding daemonInv_def s(3)
    by (auto simp: distinct_update)
qed

lemma activeJobs_init: "activeJobs (d\<lparr>d_jobs := (i, initSys j p) # d_jobs d\<rparr>) = activeJobs d + 1"
  by (simp add: activeJobs_def terminalSys_def initSys_def newJob_def withJob_def)

lemma createJob_inv:
  assumes "daemonInv d"
  shows "daemonInv (fst (handleCreateJob body warm dirsOk d))"
proof (cases "fst (handleCreateJob body warm dirsOk d) = d")
  case True
  with assms show ?thesis by simp
next
  case False
  then obtain req where req: "\<not> badRequest req" "getJob (jr_JobID req) d = None" "activeJobs d < wc_MaxJobs (d_cfg d)"
      "fst (handleCreateJob body warm dirsOk d) =
         d\<lparr>d_jobs := (jr_JobID req, initSys (jr_JobID req) (jobDir (d_cfg d) (jr_JobID req))) # d_jobs d\<rparr>"
    by (auto simp: handleCreateJob_def split: option.splits if_splits)
  have "validID (jr_JobID req)" using req(1) by (simp add: badRequest_def)
  moreover have "jr_JobID req \<notin> fst ` set (d_jobs d)" using req(2) by (simp add: getJob_def map_of_eq_None_iff)
  moreover have "activeJobs d + 1 \<le> max 0 (wc_MaxJobs (d_cfg d))" using req(3) by simp
  ultimately show ?thesis
    using assms unfolding req(4) daemonInv_def activeJobs_init by (auto intro: reach_init)
qed

lemma reap_inv: "daemonInv d \<Longrightarrow> daemonInv (fst (reapOnce now entries d))"
proof -
  assume h: "daemonInv d"
  let ?js = "filter (\<lambda>ks. \<not> expired now (snd ks)) (d_jobs d)"
  have "activeJobs (d\<lparr>d_jobs := ?js\<rparr>) = activeJobs d"
    by (simp add: activeJobs_def expired_def conj_commute)
       (metis (mono_tags, lifting) filter_cong)
  moreover have "distinct (map fst ?js)" using h by (simp add: daemonInv_def distinct_map_filter)
  ultimately show ?thesis using h unfolding reapOnce_def Let_def daemonInv_def by auto
qed

interpretation table: invariant_of dstep "\<lambda>d. \<exists>cfg build. d = newDaemon cfg build" daemonInv
proof
  show "\<exists>cfg build. d = newDaemon cfg build \<Longrightarrow> daemonInv d" for d
    by (auto simp: newDaemon_def daemonInv_def activeJobs_def)
  show "daemonInv d \<Longrightarrow> dstep a d = Some d' \<Longrightarrow> daemonInv d'" for a d d'
  proof (cases a)
    case (DDelete i)
    assume "daemonInv d" "dstep a d = Some d'"
    with DDelete jobStep_inv show ?thesis by (auto simp: handleDeleteJob_def split: option.splits)
  qed (auto intro: createJob_inv reap_inv jobStep_inv)
qed

lemma dstep_cfg: "dstep a d = Some d' \<Longrightarrow> d_cfg d' = d_cfg d"
  by (cases a) (auto simp: handleCreateJob_def handleDeleteJob_def jobStep_def reapOnce_def Let_def
      split: option.splits if_splits)

lemma reachable_cfg: "reachable dstep d0 d \<Longrightarrow> d_cfg d = d_cfg d0"
  by (induction rule: reachable.induct) (auto dest: dstep_cfg)

lemma jobDir_confined:
  assumes "isAbs (wc_DataDir cfg)" "validID i"
  shows "isUnder (jobsRoot cfg) (jobDir cfg i)" "cleanAbs (jobsRoot cfg)"
proof -
  have ne: "wc_DataDir cfg \<noteq> []" using assms(1) by (auto simp: isAbs_def)
  then have "jobsRoot cfg = clean (wc_DataDir cfg @ ''/jobs'')" by (simp add: jobsRoot_def joinPath_def)
  moreover have "isAbs (wc_DataDir cfg @ ''/jobs'')" using assms(1) by (auto simp: isAbs_def prefix_def)
  ultimately show c: "cleanAbs (jobsRoot cfg)" using cleanAbs_clean by simp
  have "properComps [i]" using validID_proper [OF assms(2)] by simp
  from isUnder_joinPath(1) [OF c this] show "isUnder (jobsRoot cfg) (jobDir cfg i)" by (simp add: jobDir_def)
qed

text \<open>Whatever a job can do alone it can do in the daemon.\<close>

lemma jobStep_reaches:
  "run_actions (step (queueCap d) (parallel d)) as s = Some t \<Longrightarrow> getJob i d = Some s \<Longrightarrow>
   \<exists>d'. reachable dstep d d' \<and> getJob i d' = Some t \<and> d_cfg d' = d_cfg d"
proof (induction as arbitrary: s d)
  case Nil
  then show ?case by (auto intro: reach_init)
next
  case (Cons a as)
  from Cons.prems(1) obtain u where u: "step (queueCap d) (parallel d) a s = Some u"
      "run_actions (step (queueCap d) (parallel d)) as u = Some t" by (auto split: option.splits)
  define e where "e = d\<lparr>d_jobs := AList.update i u (d_jobs d)\<rparr>"
  have e: "getJob i e = Some u" "queueCap e = queueCap d" "parallel e = parallel d" "d_cfg e = d_cfg d"
    by (simp_all add: e_def getJob_def update_conv')
  have one: "dstep (DJob i a) d = Some e" using Cons.prems(2) u(1) by (simp add: jobStep_def e_def)
  from Cons.IH [of e u] u(2) e obtain d' where d': "reachable dstep e d'" "getJob i d' = Some t" "d_cfg d' = d_cfg d" by auto
  have "reachable dstep d e" by (rule reach_step, rule reach_init, rule one)
  with d' show ?case by (blast intro: reachable_trans)
qed

section \<open>Properties\<close>

text \<open>C13: However admissions, cancels, the reaper and all the moves of all jobs interleave, the daemon runs
  at most max_jobs unfinished jobs, under distinct ids, every job is in a reachable state of
  the single-job system, and its directory lies strictly below the jobs directory.\<close>

theorem daemon_jobs_bounded:
  assumes "reachable dstep (newDaemon cfg build) d"
  shows "activeJobs d \<le> max 0 (wc_MaxJobs cfg) \<and> distinct (map fst (d_jobs d)) \<and>
    (\<forall>i s. getJob i d = Some s \<longrightarrow>
       reachable (step (nat (wc_PushQueueCap cfg)) (nat (wc_PushParallel cfg))) (initSys i (jobDir cfg i)) s \<and>
       (isAbs (wc_DataDir cfg) \<longrightarrow> isUnder (jobsRoot cfg) (jobDir cfg i)))"
proof -
  have inv: "daemonInv d" by (rule table.inv_reachable [OF _ assms]) blast
  have cfg: "d_cfg d = cfg" using reachable_cfg [OF assms] by (simp add: newDaemon_def)
  then have c: "queueCap d = nat (wc_PushQueueCap cfg)" "parallel d = nat (wc_PushParallel cfg)"
    by (simp_all add: queueCap_def parallel_def)
  from inv daemonInv_jobs [OF inv] jobDir_confined show ?thesis
    unfolding c cfg by (auto simp: daemonInv_def cfg)
qed

text \<open>The answer of a job admission, case by case: 400 for a malformed request, then 409 for a known id,
  429 at capacity, 409 for another build, 503 for a cold codec cache (and only then a provision
  of that build starts), 500 when the directories cannot be made; in all these cases the table
  is unchanged.  Otherwise 201, and the table has one more unfinished job, PENDING under its id.\<close>

theorem createJob_answer:
  "(case handleCreateJob (Some req) warm dirsOk d of (d', reply, kick) \<Rightarrow>
      (reply = Reply 400 ''BAD_REQUEST'' \<longleftrightarrow> badRequest req) \<and>
      (reply = Reply 409 ''DUPLICATE_JOB'' \<longleftrightarrow> \<not> badRequest req \<and> getJob (jr_JobID req) d \<noteq> None) \<and>
      (reply = Reply 429 ''AT_CAPACITY'' \<longleftrightarrow>
         \<not> badRequest req \<and> getJob (jr_JobID req) d = None \<and> activeJobs d \<ge> wc_MaxJobs (d_cfg d)) \<and>
      (kick = Some (jr_PlexBuild req) \<longleftrightarrow> reply = Reply 503 ''NOT_READY'') \<and>
      (if reply = Reply 201 []
       then getJob (jr_JobID req) d = None \<and> versionComponent (jr_PlexBuild req) = versionComponent (d_plexBuild d) \<and>
         getJob (jr_JobID req) d' = Some (initSys (jr_JobID req) (jobDir (d_cfg d) (jr_JobID req))) \<and>
         activeJobs d' = activeJobs d + 1 \<and> activeJobs d' \<le> wc_MaxJobs (d_cfg d)
       else d' = d))"
proof -
  have ne: "Reply 400 ''BAD_REQUEST'' \<noteq> Reply 201 []" "Reply 409 ''DUPLICATE_JOB'' \<noteq> Reply 201 []"
    "Reply 429 ''AT_CAPACITY'' \<noteq> Reply 201 []" "Reply 409 ''VERSION_MISMATCH'' \<noteq> Reply 201 []"
    "Reply 503 ''NOT_READY'' \<noteq> Reply 201 []" "Reply 500 ''INTERNAL'' \<noteq> Reply 201 []" by simp_all
  consider "badRequest req" | "\<not> badRequest req" "getJob (jr_JobID req) d \<noteq> None"
    | "\<not> badRequest req" "getJob (jr_JobID req) d = None" "activeJobs d \<ge> wc_MaxJobs (d_cfg d)"
    | "\<not> badRequest req" "getJob (jr_JobID req) d = None" "activeJobs d < wc_MaxJobs (d_cfg d)" by fastforce
  then show ?thesis
  proof cases
    case 4
    then show ?thesis
      by (simp add: handleCreateJob_def activeJobs_init buildsMatch_version) (simp add: getJob_def)
  qed (simp_all add: handleCreateJob_def)
qed

text \<open>A daemon that admitted a job.\<close>

definition demoRequestJob :: JobRequest where
  "demoRequestJob =
     \<lparr>jr_JobID = ''j1'', jr_PlexBuild = ''1-a'', jr_Argv = [''-i'', ''x''], jr_Media = [], jr_Env = [],
      jr_Session = \<lparr>si_ID = ''s'', si_PushURL = ''u'', si_PushToken = ''t''\<rparr>, jr_MasterPMS = ''m''\<rparr>"

definition demoConfig :: WorkerdConfig where
  "demoConfig = demoWorkerd\<lparr>wc_MaxJobs := 2, wc_DataDir := ''/d''\<rparr>"

lemma demo_create:
  assumes "wc_MaxJobs cfg > 0"
  shows "dstep (DCreate (Some demoRequestJob) True True) (newDaemon cfg ''1-b'') =
     Some (newDaemon cfg ''1-b''\<lparr>d_jobs := [(''j1'', initSys ''j1'' (jobDir cfg ''j1''))]\<rparr>)"
proof -
  have id: "validID ''j1''" "validID ''1-a''"
    by (simp_all add: validID_def idChar_def isAlnum_def isDigit_def isLower_def)
  have m: "buildsMatch ''1-a'' ''1-b''" by code_simp
  have ok: "\<not> badRequest demoRequestJob" using id by (simp add: badRequest_def demoRequestJob_def)
  show ?thesis
    using ok m assms by (simp add: handleCreateJob_def newDaemon_def getJob_def activeJobs_def) (simp add: demoRequestJob_def)
qed

lemma daemon_jobs_bounded_witness:
  "\<exists>d. run_actions dstep [DCreate (Some demoRequestJob) True True, DJob ''j1'' (RunStep 0)] (newDaemon demoConfig ''1-b'') = Some d \<and>
     activeJobs d = 1 \<and> activeJobs d \<le> max 0 (wc_MaxJobs demoConfig)"
proof -
  let ?as = "[DCreate (Some demoRequestJob) True True, DJob ''j1'' (RunStep 0)]"
  let ?d0 = "newDaemon demoConfig ''1-b''"
  have "wc_MaxJobs demoConfig > 0" by (simp add: demoConfig_def)
  note create = demo_create [OF this]
  obtain t where t: "step (queueCap ?d0) (parallel ?d0) (RunStep 0) (initSys ''j1'' (jobDir demoConfig ''j1'')) = Some t"
      "j_state (s_job t) = JobPreparing"
    by (simp add: run_defs)
  then have "run_actions dstep ?as ?d0 = Some (?d0\<lparr>d_jobs := [(''j1'', t)]\<rparr>)"
    using create by (simp add: jobStep_def getJob_def)
  moreover have "activeJobs (?d0\<lparr>d_jobs := [(''j1'', t)]\<rparr>) = 1"
    using t(2) by (simp add: activeJobs_def terminalSys_def)
  ultimately show ?thesis
    using daemon_jobs_bounded [OF run_actions_reachable] by blast
qed

end
