(* ===== verification/Provision.thy ===== *)
theory Provision
  imports Daemon GoUrl
begin

text \<open>
  \<^verbatim>\<open>internal/workerd/provision.go\<close>: the codec cache of the worker.  The cache is a small file
  system (files with their content, directories); what masterd sends and which system calls
  fail is given per file by a record.  SHA-256 in hex is the parameter \<open>digest\<close>.
\<close>

section \<open>Names and URLs\<close>

definition safeRelPathW :: "string \<Rightarrow> bool" where
  "safeRelPathW p \<longleftrightarrow> p \<noteq> [] \<and> \<not> hasPrefix p ''/'' \<and>
     (let c = clean p in c = p \<and> c \<noteq> ''..'' \<and> \<not> hasPrefix c ''../'')"

definition escapePathSegments :: "string \<Rightarrow> string" where
  "escapePathSegments p = joinWith ''/'' (map PathEscape (splitOn CHR ''/'' p))"

definition manifestURL :: "WorkerdConfig \<Rightarrow> string \<Rightarrow> string" where
  "manifestURL cfg build = masterURL cfg @ ''/v1/codecs/'' @ PathEscape build @ ''/manifest''"

definition codecFileURL :: "WorkerdConfig \<Rightarrow> string \<Rightarrow> string \<Rightarrow> string" where
  "codecFileURL cfg build name =
     masterURL cfg @ ''/v1/codecs/'' @ PathEscape build @ ''/files/'' @ escapePathSegments name"

section \<open>The cache\<close>

record cache =
  c_files :: "string \<Rightarrow> string option"
  c_dirs :: "string \<Rightarrow> bool"

text \<open>What happens to the fetch of one file: the answer (status and bytes received, whether the
  transfer broke off), and which system calls succeed.\<close>

record fetchIO =
  io_answer :: "(int \<times> string \<times> bool) option"
  io_mkdir :: bool
  io_open :: bool
  io_close :: bool
  io_rename :: bool

definition fetchingName :: "string \<Rightarrow> string" where
  "fetchingName dest = dest @ ''.fetching''"

text \<open>\<^verbatim>\<open>fetchCodecFile\<close>: the new cache and whether it succeeded.\<close>

definition fetchCodecFile :: "(string \<Rightarrow> string) \<Rightarrow> fetchIO \<Rightarrow> CodecFile \<Rightarrow> string \<Rightarrow> cache \<Rightarrow> cache \<times> bool" where
  "fetchCodecFile digest io cf destRoot fs =
     (case io_answer io of
        None \<Rightarrow> (fs, False)
      | Some (status, bytes, broken) \<Rightarrow>
          if status \<noteq> 200 then (fs, False)
          else let dest = joinPath [destRoot, cf_Name cf]; tmp = fetchingName dest in
            if \<not> io_mkdir io then (fs, False)
            else let fs1 = fs\<lparr>c_dirs := (c_dirs fs)(dir dest := True)\<rparr> in
              if \<not> io_open io \<or> c_dirs fs1 tmp then (fs1, False)
              else if broken \<or> \<not> io_close io \<or> int (length bytes) \<noteq> cf_Size cf \<or>
                      \<not> equalFold (digest bytes) (cf_SHA256 cf)
                then (fs1\<lparr>c_files := (c_files fs1)(tmp := None)\<rparr>, False)
              else if io_rename io \<and> \<not> c_dirs fs1 dest
                then (fs1\<lparr>c_files := ((c_files fs1)(tmp := None))(dest := Some bytes)\<rparr>, True)
              else (fs1\<lparr>c_files := (c_files fs1)(tmp := Some bytes)\<rparr>, False))"

text \<open>The loops of \<^verbatim>\<open>fetchCodecs\<close> (cold) and \<^verbatim>\<open>syncCodecs\<close> (warm) over the manifest.\<close>

fun fetchAll ::
  "(string \<Rightarrow> string) \<Rightarrow> (CodecFile \<Rightarrow> fetchIO) \<Rightarrow> bool \<Rightarrow> string \<Rightarrow> CodecFile list \<Rightarrow> cache \<Rightarrow> cache \<times> bool" where
  "fetchAll digest io warm root [] fs = (fs, True)"
| "fetchAll digest io warm root (cf # cfs) fs =
     (if \<not> safeRelPathW (cf_Name cf) then (fs, False)
      else if warm \<and> (case c_files fs (joinPath [root, cf_Name cf]) of
                         Some c \<Rightarrow> int (length c) = cf_Size cf | None \<Rightarrow> False)
        then fetchAll digest io warm root cfs fs
      else case fetchCodecFile digest (io cf) cf root fs of
          (fs1, False) \<Rightarrow> (fs1, False)
        | (fs1, True) \<Rightarrow> fetchAll digest io warm root cfs fs1)"

definition syncCodecs :: "(string \<Rightarrow> string) \<Rightarrow> (CodecFile \<Rightarrow> fetchIO) \<Rightarrow> CodecsManifest \<Rightarrow> string \<Rightarrow> cache \<Rightarrow> cache \<times> bool" where
  "syncCodecs digest io m final fs = fetchAll digest io True final (cm_Files m) fs"

text \<open>\<^verbatim>\<open>os.RemoveAll\<close> and \<^verbatim>\<open>os.Rename\<close> of a directory.\<close>

definition inTree :: "string \<Rightarrow> string \<Rightarrow> bool" where
  "inTree d p \<longleftrightarrow> p = d \<or> hasPrefix p (d @ ''/'')"

definition osRemoveAll :: "string \<Rightarrow> cache \<Rightarrow> cache" where
  "osRemoveAll d fs = fs\<lparr>c_files := (\<lambda>p. if inTree d p then None else c_files fs p),
                      c_dirs := (\<lambda>p. \<not> inTree d p \<and> c_dirs fs p)\<rparr>"

definition renameDir :: "string \<Rightarrow> string \<Rightarrow> cache \<Rightarrow> cache" where
  "renameDir old new fs =
     fs\<lparr>c_files := (\<lambda>p. if inTree new p then c_files fs (old @ drop (length new) p)
                        else if inTree old p then None else c_files fs p),
        c_dirs := (\<lambda>p. if inTree new p then c_dirs fs (old @ drop (length new) p)
                       else \<not> inTree old p \<and> c_dirs fs p)\<rparr>"

text \<open>
  \<^verbatim>\<open>fetchCodecs\<close>: \<open>manifest\<close> is the decoded answer; \<open>mkOk\<close> and \<open>mvOk\<close> tell whether making
  the partial directory and the final rename succeed, \<open>raced\<close> whether another provision has
  made the final directory in the meantime.
\<close>

definition fetchCodecs ::
  "(string \<Rightarrow> string) \<Rightarrow> (CodecFile \<Rightarrow> fetchIO) \<Rightarrow> bool \<Rightarrow> bool \<Rightarrow> bool \<Rightarrow> CodecsManifest option \<Rightarrow> string \<Rightarrow> cache \<Rightarrow> cache \<times> bool" where
  "fetchCodecs digest io mkOk mvOk raced manifest final fs =
     (case manifest of
        None \<Rightarrow> (fs, False)
      | Some m \<Rightarrow>
          if c_dirs fs final then syncCodecs digest io m final fs
          else let partial = final @ ''.partial''; fs1 = osRemoveAll partial fs in
            if \<not> mkOk then (fs1, False)
            else case fetchAll digest io False partial (cm_Files m)
                        (fs1\<lparr>c_dirs := (c_dirs fs1)(partial := True)\<rparr>) of
                (fs2, False) \<Rightarrow> (fs2, False)
              | (fs2, True) \<Rightarrow>
                  if mvOk then (renameDir partial final fs2, True)
                  else if raced then (osRemoveAll partial fs2, True)
                  else (fs2, False))"

section \<open>Where files go\<close>

lemma safeRelPathW_proper:
  assumes "safeRelPathW p" "p \<noteq> ''.''"
  shows "\<exists>ps. properComps ps \<and> ps \<noteq> [] \<and> p = joinWith ''/'' ps"
proof -
  have p: "p \<noteq> []" "\<not> isAbs p" "clean p = p" "\<not> escapes p"
    using assms(1) by (auto simp: safeRelPathW_def isAbs_def escapes_def Let_def)
  then have "\<not> escapes (clean p)" by simp
  from clean_rel_proper [OF p(1,2) this] obtain ps where
    "properComps ps" "clean p = (if ps = [] then ''.'' else joinWith ''/'' ps)" by blast
  with p(3) assms(2) show ?thesis by (cases "ps = []") auto
qed

lemma joinPath_safe:
  assumes "cleanAbs r" "r \<noteq> ''/''" "safeRelPathW p" "p \<noteq> ''.''"
  shows "joinPath [r, p] = r @ ''/'' @ p" "isUnder r (joinPath [r, p])" "cleanAbs (joinPath [r, p])"
proof -
  obtain ps where ps: "properComps ps" "ps \<noteq> []" "p = joinWith ''/'' ps"
    using safeRelPathW_proper [OF assms(3,4)] by blast
  obtain rs where rs: "properComps rs" "r = absPath rs" using assms(1) by (auto simp: cleanAbs_iff)
  then have "rs \<noteq> []" using assms(2) by (auto simp: absPath_def)
  then show "joinPath [r, p] = r @ ''/'' @ p"
    using joinPath_absPath [OF rs(1) ps(1,2)] absPath_append [of rs ps] ps(2) unfolding rs(2) ps(3) by simp
  show "isUnder r (joinPath [r, p])" "cleanAbs (joinPath [r, p])"
    using isUnder_joinPath [OF assms(1) ps(1,2)] unfolding ps(3) by simp_all
qed

text \<open>A path holds a file of the manifest below a root, with the size and hash it announces.\<close>

definition verified :: "(string \<Rightarrow> string) \<Rightarrow> CodecFile list \<Rightarrow> string \<Rightarrow> string \<Rightarrow> string \<Rightarrow> bool" where
  "verified digest cfs root p c \<longleftrightarrow>
     (\<exists>cf \<in> set cfs. p = joinPath [root, cf_Name cf] \<and> safeRelPathW (cf_Name cf) \<and>
        int (length c) = cf_Size cf \<and> equalFold (digest c) (cf_SHA256 cf))"

text \<open>What a fetch changes: verified files of the root, and temporary names.\<close>

definition onlyVerified :: "(string \<Rightarrow> string) \<Rightarrow> CodecFile list \<Rightarrow> string \<Rightarrow> cache \<Rightarrow> cache \<Rightarrow> bool" where
  "onlyVerified digest cfs root fs fs' \<longleftrightarrow>
     (\<forall>p c. c_files fs' p = Some c \<longrightarrow>
        c_files fs p = Some c \<or> verified digest cfs root p c \<or>
        (\<exists>cf \<in> set cfs. safeRelPathW (cf_Name cf) \<and> p = fetchingName (joinPath [root, cf_Name cf])))"

lemma onlyVerified_refl: "onlyVerified digest cfs root fs fs"
  by (simp add: onlyVerified_def)

lemma onlyVerified_trans:
  "onlyVerified digest cfs root fs fs1 \<Longrightarrow> onlyVerified digest cfs root fs1 fs2 \<Longrightarrow> onlyVerified digest cfs root fs fs2"
  unfolding onlyVerified_def by blast

lemma onlyVerified_mono:
  "onlyVerified digest cfs root fs fs' \<Longrightarrow> set cfs \<subseteq> set cfs' \<Longrightarrow> onlyVerified digest cfs' root fs fs'"
  unfolding onlyVerified_def verified_def by blast

lemma fetchCodecFile_verified:
  assumes "fetchCodecFile digest io cf root fs = (fs', ok)" "safeRelPathW (cf_Name cf)"
  shows "onlyVerified digest [cf] root fs fs'"
    and "ok \<Longrightarrow> \<exists>c. c_files fs' (joinPath [root, cf_Name cf]) = Some c \<and> verified digest [cf] root (joinPath [root, cf_Name cf]) c"
  using assms
  by (auto simp: fetchCodecFile_def Let_def onlyVerified_def verified_def split: option.splits if_splits)

lemma fetchAll_verified:
  "fetchAll digest io warm root cfs fs = (fs', ok) \<Longrightarrow> onlyVerified digest cfs root fs fs'"
proof (induction cfs arbitrary: fs)
  case Nil
  then show ?case by (simp add: onlyVerified_refl)
next
  case (Cons cf cfs)
  have weaken: "onlyVerified digest cfs root a b \<Longrightarrow> onlyVerified digest (cf # cfs) root a b" for a b
    by (rule onlyVerified_mono) auto
  obtain fs1 ok1 where f: "fetchCodecFile digest (io cf) cf root fs = (fs1, ok1)" by (metis surj_pair)
  show ?case
  proof (cases "safeRelPathW (cf_Name cf)")
    case False
    with Cons.prems show ?thesis by (simp add: onlyVerified_refl)
  next
    case True
    have one: "onlyVerified digest (cf # cfs) root fs fs1"
      by (rule onlyVerified_mono [OF fetchCodecFile_verified(1) [OF f True]]) simp
    let ?skip = "warm \<and> (case c_files fs (joinPath [root, cf_Name cf]) of Some c \<Rightarrow> int (length c) = cf_Size cf | None \<Rightarrow> False)"
    consider "?skip" "fetchAll digest io warm root cfs fs = (fs', ok)"
      | "\<not> ok1" "fs' = fs1" | "ok1" "fetchAll digest io warm root cfs fs1 = (fs', ok)"
      using Cons.prems True f by (cases ?skip; cases ok1) auto
    then show ?thesis
    proof cases
      case 1
      then show ?thesis using Cons.IH weaken by blast
    next
      case 2
      with one show ?thesis by simp
    next
      case 3
      then show ?thesis using Cons.IH weaken one onlyVerified_trans by blast
    qed
  qed
qed

section \<open>Confinement\<close>

definition plainNames :: "CodecFile list \<Rightarrow> bool" where
  "plainNames cfs \<longleftrightarrow> (\<forall>cf \<in> set cfs. cf_Name cf \<noteq> ''.'')"

lemma inTree_under: "inTree r (r @ ''/'' @ n)"
  by (simp add: inTree_def)

lemma fetchCodecFile_frame:
  assumes "fetchCodecFile digest io cf root fs = (fs', ok)" "p \<noteq> joinPath [root, cf_Name cf]"
    "p \<noteq> fetchingName (joinPath [root, cf_Name cf])"
  shows "c_files fs' p = c_files fs p"
  using assms by (auto simp: fetchCodecFile_def Let_def split: option.splits if_splits)

lemma fetchAll_frame:
  assumes "cleanAbs root" "root \<noteq> ''/''"
  shows "fetchAll digest io warm root cfs fs = (fs', ok) \<Longrightarrow> plainNames cfs \<Longrightarrow> \<not> inTree root p \<Longrightarrow> c_files fs' p = c_files fs p"
proof (induction cfs arbitrary: fs)
  case (Cons cf cfs)
  show ?case
  proof (cases "safeRelPathW (cf_Name cf)")
    case False
    with Cons.prems show ?thesis by simp
  next
    case True
    have "cf_Name cf \<noteq> ''.''" "plainNames cfs" using Cons.prems(2) by (simp_all add: plainNames_def)
    note j = joinPath_safe(1) [OF assms True this(1)]
    obtain fs1 ok1 where f: "fetchCodecFile digest (io cf) cf root fs = (fs1, ok1)" by (metis surj_pair)
    have "p \<noteq> joinPath [root, cf_Name cf]" "p \<noteq> fetchingName (joinPath [root, cf_Name cf])"
      using Cons.prems(3) unfolding j fetchingName_def by (auto simp: inTree_def prefix_def)
    then have one: "c_files fs1 p = c_files fs p" by (rule fetchCodecFile_frame [OF f])
    let ?skip = "warm \<and> (case c_files fs (joinPath [root, cf_Name cf]) of Some c \<Rightarrow> int (length c) = cf_Size cf | None \<Rightarrow> False)"
    consider "fetchAll digest io warm root cfs fs = (fs', ok)" | "fs' = fs1" | "fetchAll digest io warm root cfs fs1 = (fs', ok)"
      using Cons.prems(1) True f by (cases ?skip; cases ok1) auto
    then show ?thesis
      using Cons.IH \<open>plainNames cfs\<close> Cons.prems(3) one by cases simp_all
  qed
qed simp

lemma partial_clean:
  assumes "cleanAbs final" "final \<noteq> ''/''"
  shows "cleanAbs (final @ ''.partial'')" "final @ ''.partial'' \<noteq> ''/''"
proof -
  obtain cs where cs: "properComps cs" "final = absPath cs" using assms(1) by (auto simp: cleanAbs_iff)
  then obtain ds c where d: "cs = ds @ [c]" using assms(2) by (cases cs rule: rev_cases) (auto simp: absPath_def)
  have "length (c @ ''.partial'') > 2" by simp
  then have "c @ ''.partial'' \<noteq> ''.''" "c @ ''.partial'' \<noteq> ''..''" by auto
  then have "properComps (ds @ [c @ ''.partial''])" using cs(1) d by (simp add: properComp_def)
  moreover have "final @ ''.partial'' = absPath (ds @ [c @ ''.partial''])"
    unfolding cs(2) d by (cases "ds = []") (simp_all add: absPath_def joinWith_append)
  ultimately show "cleanAbs (final @ ''.partial'')" by simp
  show "final @ ''.partial'' \<noteq> ''/''" by (simp add: append_eq_Cons_conv)
qed

text \<open>A file of the partial directory, seen at its place in the final one.\<close>

lemma verified_moved:
  assumes f: "cleanAbs final" "final \<noteq> ''/''" and n: "plainNames cfs"
    and v: "verified digest cfs (final @ ''.partial'') (final @ ''.partial'' @ rest) c"
  shows "verified digest cfs final (final @ rest) c"
proof -
  obtain cf where cf: "cf \<in> set cfs" "final @ ''.partial'' @ rest = joinPath [final @ ''.partial'', cf_Name cf]"
      "safeRelPathW (cf_Name cf)" "int (length c) = cf_Size cf" "equalFold (digest c) (cf_SHA256 cf)"
    using v unfolding verified_def by blast
  have name: "cf_Name cf \<noteq> ''.''" using n cf(1) by (simp add: plainNames_def)
  have "rest = ''/'' @ cf_Name cf"
    using cf(2) joinPath_safe(1) [OF partial_clean [OF f] cf(3) name] by simp
  then have "final @ rest = joinPath [final, cf_Name cf]" using joinPath_safe(1) [OF f cf(3) name] by simp
  with cf show ?thesis unfolding verified_def by blast
qed

definition leftover :: "CodecFile list \<Rightarrow> string \<Rightarrow> string \<Rightarrow> bool" where
  "leftover cfs root p \<longleftrightarrow> (\<exists>cf \<in> set cfs. safeRelPathW (cf_Name cf) \<and> p = root @ ''/'' @ cf_Name cf @ ''.fetching'')"

lemma leftover_shape:
  assumes "cleanAbs root" "root \<noteq> ''/''" "plainNames cfs" "cf \<in> set cfs" "safeRelPathW (cf_Name cf)"
  shows "fetchingName (joinPath [root, cf_Name cf]) = root @ ''/'' @ cf_Name cf @ ''.fetching''"
  using joinPath_safe(1) [OF assms(1,2,5)] assms(3,4) by (simp add: fetchingName_def plainNames_def)

text \<open>
  A manifest without repeated names, in which no name is the temporary name of another: what a
  directory listing gives.
\<close>

definition wellNames :: "CodecFile list \<Rightarrow> bool" where
  "wellNames cfs \<longleftrightarrow> distinct (map cf_Name cfs) \<and>
     (\<forall>cf \<in> set cfs. \<forall>cf' \<in> set cfs. cf_Name cf' \<noteq> cf_Name cf @ ''.fetching'')"

definition present :: "string \<Rightarrow> cache \<Rightarrow> CodecFile \<Rightarrow> bool" where
  "present root fs cf \<longleftrightarrow> (\<exists>c. c_files fs (root @ ''/'' @ cf_Name cf) = Some c \<and> int (length c) = cf_Size cf)"

lemma fetchAll_keeps:
  assumes "cleanAbs root" "root \<noteq> ''/''"
  shows "fetchAll digest io warm root cfs fs = (fs', ok) \<Longrightarrow> plainNames cfs \<Longrightarrow>
    (\<forall>cf \<in> set cfs. cf_Name cf \<noteq> n \<and> n \<noteq> cf_Name cf @ ''.fetching'') \<Longrightarrow>
    c_files fs' (root @ ''/'' @ n) = c_files fs (root @ ''/'' @ n)"
proof (induction cfs arbitrary: fs)
  case (Cons cf cfs)
  show ?case
  proof (cases "safeRelPathW (cf_Name cf)")
    case False
    with Cons.prems show ?thesis by simp
  next
    case True
    have "cf_Name cf \<noteq> ''.''" "plainNames cfs" using Cons.prems(2) by (simp_all add: plainNames_def)
    note j = joinPath_safe(1) [OF assms True this(1)]
    obtain fs1 ok1 where f: "fetchCodecFile digest (io cf) cf root fs = (fs1, ok1)" by (metis surj_pair)
    have "root @ ''/'' @ n \<noteq> joinPath [root, cf_Name cf]" "root @ ''/'' @ n \<noteq> fetchingName (joinPath [root, cf_Name cf])"
      using Cons.prems(3) unfolding j fetchingName_def by auto
    then have one: "c_files fs1 (root @ ''/'' @ n) = c_files fs (root @ ''/'' @ n)" by (rule fetchCodecFile_frame [OF f])
    let ?skip = "warm \<and> (case c_files fs (joinPath [root, cf_Name cf]) of Some c \<Rightarrow> int (length c) = cf_Size cf | None \<Rightarrow> False)"
    consider "fetchAll digest io warm root cfs fs = (fs', ok)" | "fs' = fs1" | "fetchAll digest io warm root cfs fs1 = (fs', ok)"
      using Cons.prems(1) True f by (cases ?skip; cases ok1) auto
    then show ?thesis
      using Cons.IH \<open>plainNames cfs\<close> Cons.prems(3) one by cases simp_all
  qed
qed simp

lemma fetchAll_present:
  assumes "cleanAbs root" "root \<noteq> ''/''"
  shows "fetchAll digest io warm root cfs fs = (fs', True) \<Longrightarrow> plainNames cfs \<Longrightarrow> wellNames cfs \<Longrightarrow>
    \<forall>cf \<in> set cfs. present root fs' cf"
proof (induction cfs arbitrary: fs)
  case (Cons cf cfs)
  have safe: "safeRelPathW (cf_Name cf)" using Cons.prems(1) by (simp split: if_splits)
  have names: "cf_Name cf \<noteq> ''.''" "plainNames cfs" using Cons.prems(2) by (simp_all add: plainNames_def)
  have well: "wellNames cfs" "\<forall>cf' \<in> set cfs. cf_Name cf' \<noteq> cf_Name cf \<and> cf_Name cf \<noteq> cf_Name cf' @ ''.fetching''"
    using Cons.prems(3) by (auto simp: wellNames_def image_iff)
  note j = joinPath_safe(1) [OF assms safe names(1)]
  obtain fs1 ok1 where f: "fetchCodecFile digest (io cf) cf root fs = (fs1, ok1)" by (metis surj_pair)
  let ?skip = "warm \<and> (case c_files fs (joinPath [root, cf_Name cf]) of Some c \<Rightarrow> int (length c) = cf_Size cf | None \<Rightarrow> False)"
  consider "?skip" "fetchAll digest io warm root cfs fs = (fs', True)"
    | "ok1" "fetchAll digest io warm root cfs fs1 = (fs', True)"
    using Cons.prems(1) safe f by (cases ?skip; cases ok1) auto
  then obtain fs2 where g: "fetchAll digest io warm root cfs fs2 = (fs', True)" "present root fs2 cf"
  proof cases
    case 1
    have "present root fs cf" using 1(1) unfolding j present_def by (auto split: option.splits)
    with that 1(2) show ?thesis by blast
  next
    case 2
    have "present root fs1 cf"
      using fetchCodecFile_verified(2) [OF f safe 2(1)] unfolding j present_def verified_def by auto
    with that 2(2) show ?thesis by blast
  qed
  have "c_files fs' (root @ ''/'' @ cf_Name cf) = c_files fs2 (root @ ''/'' @ cf_Name cf)"
    by (rule fetchAll_keeps [OF assms g(1) names(2) well(2)])
  with g(2) have "present root fs' cf" by (simp add: present_def)
  with Cons.IH [OF g(1) names(2) well(1)] show ?case by simp
qed simp

section \<open>Provisioning a build\<close>

definition sound :: "(string \<Rightarrow> string) \<Rightarrow> CodecFile list \<Rightarrow> string \<Rightarrow> cache \<Rightarrow> cache \<Rightarrow> bool" where
  "sound digest cfs final fs fs' \<longleftrightarrow>
     (\<forall>p c. inTree final p \<longrightarrow> c_files fs' p = Some c \<longrightarrow>
        c_files fs p = Some c \<or> verified digest cfs final p c \<or> leftover cfs final p) \<and>
     (\<forall>p. \<not> inTree final p \<longrightarrow> \<not> inTree (final @ ''.partial'') p \<longrightarrow> c_files fs' p = c_files fs p)"

lemma inTree_disjoint: "inTree final p \<Longrightarrow> \<not> inTree (final @ ''.partial'') p"
  by (auto simp: inTree_def prefix_def)

lemma fetchAll_sound:
  assumes "cleanAbs root" "root \<noteq> ''/''" "fetchAll digest io warm root cfs fs = (fs', ok)" "plainNames cfs"
  shows "\<forall>p c. c_files fs' p = Some c \<longrightarrow>
      c_files fs p = Some c \<or> verified digest cfs root p c \<or> leftover cfs root p"
    and "\<forall>p. \<not> inTree root p \<longrightarrow> c_files fs' p = c_files fs p"
proof -
  show "\<forall>p. \<not> inTree root p \<longrightarrow> c_files fs' p = c_files fs p"
    using fetchAll_frame [OF assms(1-4)] by blast
  show "\<forall>p c. c_files fs' p = Some c \<longrightarrow> c_files fs p = Some c \<or> verified digest cfs root p c \<or> leftover cfs root p"
    using fetchAll_verified [OF assms(3)] leftover_shape [OF assms(1,2,4)]
    unfolding onlyVerified_def leftover_def by metis
qed

lemma osRemoveAll_sound: "inTree final p \<or> \<not> inTree (final @ ''.partial'') p \<Longrightarrow>
    c_files (osRemoveAll (final @ ''.partial'') fs) p = c_files fs p"
  using inTree_disjoint by (auto simp: osRemoveAll_def)

lemma renameDir_sound:
  assumes f: "cleanAbs final" "final \<noteq> ''/''" and n: "plainNames cfs"
    and new: "\<forall>p c. c_files fs2 p = Some c \<longrightarrow> inTree (final @ ''.partial'') p \<longrightarrow>
      verified digest cfs (final @ ''.partial'') p c \<or> leftover cfs (final @ ''.partial'') p"
    and p: "inTree final p" "c_files (renameDir (final @ ''.partial'') final fs2) p = Some c"
  shows "verified digest cfs final p c \<or> leftover cfs final p"
proof -
  obtain rest where r: "p = final @ rest" "rest = [] \<or> (\<exists>t. rest = ''/'' @ t)"
    using p(1) by (auto simp: inTree_def prefix_def)
  have c: "c_files fs2 (final @ ''.partial'' @ rest) = Some c" using p by (simp add: renameDir_def r(1))
  have "inTree (final @ ''.partial'') (final @ ''.partial'' @ rest)" using r(2) by (auto simp: inTree_def)
  with new c consider "verified digest cfs (final @ ''.partial'') (final @ ''.partial'' @ rest) c"
    | "leftover cfs (final @ ''.partial'') (final @ ''.partial'' @ rest)" by blast
  then show ?thesis
  proof cases
    case 1
    from verified_moved [OF f n this] show ?thesis by (simp add: r(1))
  next
    case 2
    then show ?thesis by (auto simp: leftover_def r(1))
  qed
qed

lemma fetchCodecs_cold:
  assumes f: "cleanAbs final" "final \<noteq> ''/''" and n: "plainNames cfs" and all: "fetchAll digest io False (final @ ''.partial'') cfs
      ((osRemoveAll (final @ ''.partial'') fs)\<lparr>c_dirs := dd\<rparr>) = (fs2, ok)"
  shows "sound digest cfs final fs fs2"
    and "sound digest cfs final fs (renameDir (final @ ''.partial'') final fs2)"
    and "sound digest cfs final fs (osRemoveAll (final @ ''.partial'') fs2)"
proof -
  let ?p = "final @ ''.partial''"
  note pc = partial_clean [OF f]
  note all' = fetchAll_sound [OF pc all n]
  have gone: "c_files (osRemoveAll ?p fs) p = None" if "inTree ?p p" for p using that by (simp add: osRemoveAll_def)
  have out: "c_files fs2 p = c_files fs p" if "\<not> inTree ?p p" for p
    using all'(2) that by (simp add: osRemoveAll_def)
  have new: "\<forall>p c. c_files fs2 p = Some c \<longrightarrow> inTree ?p p \<longrightarrow> verified digest cfs ?p p c \<or> leftover cfs ?p p"
  proof (intro allI impI)
    fix p c
    assume h: "c_files fs2 p = Some c" "inTree ?p p"
    from gone [OF h(2)] have "c_files (osRemoveAll ?p fs) p \<noteq> Some c" by simp
    with all'(1) h(1) show "verified digest cfs ?p p c \<or> leftover cfs ?p p" by auto
  qed
  show "sound digest cfs final fs fs2"
    using out inTree_disjoint by (auto simp: sound_def)
  show "sound digest cfs final fs (renameDir ?p final fs2)"
    using renameDir_sound [OF f n new] out by (auto simp: sound_def renameDir_def)
  show "sound digest cfs final fs (osRemoveAll ?p fs2)"
    using osRemoveAll_sound out inTree_disjoint by (auto simp: sound_def)
qed

text \<open>C18: Whatever the network and the system calls do, provisioning a build puts only files of the manifest
  into its directory, each of the announced size and hash (apart from a temporary name left by a
  failed rename), and touches nothing outside the directory and its partial twin.  If it
  succeeds on a warm cache, or by the final rename on a cold one, every file of the manifest is
  there with its size.\<close>

theorem provision_verified:
  assumes "cleanAbs final" "final \<noteq> ''/''" "plainNames (cm_Files m)" "wellNames (cm_Files m)"
    and "fetchCodecs digest io mkOk mvOk raced (Some m) final fs = (fs', ok)"
  shows "sound digest (cm_Files m) final fs fs' \<and>
    (ok \<and> (c_dirs fs final \<or> mvOk) \<longrightarrow> (\<forall>cf \<in> set (cm_Files m). present final fs' cf))"
proof (cases "c_dirs fs final")
  case True
  with assms(5) have all: "fetchAll digest io True final (cm_Files m) fs = (fs', ok)"
    by (simp add: fetchCodecs_def syncCodecs_def)
  show ?thesis
    using fetchAll_sound [OF assms(1,2) all assms(3)] fetchAll_present [OF assms(1,2), of digest io True] all assms(3,4)
    by (auto simp: sound_def)
next
  case False
  let ?p = "final @ ''.partial''"
  let ?fs1 = "osRemoveAll ?p fs"
  show ?thesis
  proof (cases mkOk)
    case no: False
    then have "fs' = ?fs1" "\<not> ok" using assms(5) False by (simp_all add: fetchCodecs_def Let_def)
    then show ?thesis using osRemoveAll_sound inTree_disjoint by (auto simp: sound_def)
  next
    case True
    obtain fs2 ok2 where all: "fetchAll digest io False ?p (cm_Files m) (?fs1\<lparr>c_dirs := (c_dirs ?fs1)(?p := True)\<rparr>) = (fs2, ok2)"
      by (metis surj_pair)
    note cold = fetchCodecs_cold [OF assms(1-3) all]
    have run: "(fs', ok) = (if \<not> ok2 then (fs2, False) else if mvOk then (renameDir ?p final fs2, True)
        else if raced then (osRemoveAll ?p fs2, True) else (fs2, False))"
      using assms(5) False True all by (cases ok2) (simp_all add: fetchCodecs_def Let_def)
    have "present final fs' cf" if "ok" "mvOk" "cf \<in> set (cm_Files m)" for cf
    proof -
      have ok2: "ok2" and fs': "fs' = renameDir ?p final fs2" using run that by (simp_all split: if_splits)
      have "present ?p fs2 cf"
        using fetchAll_present [OF partial_clean [OF assms(1,2)] all [unfolded eqTrueI [OF ok2]] assms(3,4)] that(3) by blast
      then show ?thesis unfolding fs' by (auto simp: present_def renameDir_def inTree_def)
    qed
    then show ?thesis using cold run False by (auto split: if_splits)
  qed
qed

text \<open>
  The name "." passes the check of the manifest, and the temporary file of its fetch lies
  beside the directory, not in it; the rename onto the directory then fails and leaves it.
\<close>

lemma provision_dot:
  assumes "c_dirs fs ''/c/b''" "\<not> c_dirs fs ''/c/b.fetching''"
  shows "safeRelPathW ''.'' \<and>
    (let (fs', ok) = fetchCodecFile (\<lambda>b. b) \<lparr>io_answer = Some (200, ''x'', False), io_mkdir = True, io_open = True, io_close = True, io_rename = True\<rparr>
         \<lparr>cf_Name = ''.'', cf_Size = 1, cf_SHA256 = ''x''\<rparr> ''/c/b'' fs
     in \<not> ok \<and> c_files fs' ''/c/b.fetching'' = Some ''x'' \<and> \<not> inTree ''/c/b'' ''/c/b.fetching'')"
proof -
  have j: "joinPath [''/c/b'', ''.''] = ''/c/b''" "dir ''/c/b'' = ''/c''" by code_simp+
  have s: "safeRelPathW ''.''" by code_simp
  have "equalFold ''x'' ''x''" by simp
  then show ?thesis
    using assms s by (simp add: fetchCodecFile_def j fetchingName_def inTree_def)
qed

definition demoIO :: "CodecFile \<Rightarrow> fetchIO" where
  "demoIO cf = \<lparr>io_answer = Some (200, ''x'', False), io_mkdir = True, io_open = True, io_close = True, io_rename = True\<rparr>"

definition demoManifest :: CodecsManifest where
  "demoManifest = \<lparr>cm_Build = ''b'', cm_Files = [\<lparr>cf_Name = ''a'', cf_Size = 1, cf_SHA256 = ''x''\<rparr>]\<rparr>"

definition emptyCache :: cache where
  "emptyCache = \<lparr>c_files = (\<lambda>p. None), c_dirs = (\<lambda>p. False)\<rparr>"

lemma provision_verified_witness:
  "\<exists>fs'. fetchCodecs (\<lambda>b. b) demoIO True True False (Some demoManifest) ''/c/b'' emptyCache = (fs', True) \<and>
     sound (\<lambda>b. b) (cm_Files demoManifest) ''/c/b'' emptyCache fs' \<and>
     (\<forall>cf \<in> set (cm_Files demoManifest). present ''/c/b'' fs' cf)"
proof -
  have j: "joinPath [''/c/b.partial'', ''a''] = ''/c/b.partial/a''" "dir ''/c/b.partial/a'' = ''/c/b.partial''"
    "safeRelPathW ''a''" "cleanAbs ''/c/b''" "''/c/b'' \<noteq> ''/''"
    unfolding cleanAbs_def by code_simp+
  have names: "plainNames (cm_Files demoManifest)" "wellNames (cm_Files demoManifest)"
    by (simp_all add: plainNames_def wellNames_def demoManifest_def)
  have "snd (fetchCodecs (\<lambda>b. b) demoIO True True False (Some demoManifest) ''/c/b'' emptyCache)"
    by (simp add: fetchCodecs_def demoManifest_def demoIO_def emptyCache_def osRemoveAll_def fetchCodecFile_def
        fetchingName_def Let_def j)
  then obtain fs' where r: "fetchCodecs (\<lambda>b. b) demoIO True True False (Some demoManifest) ''/c/b'' emptyCache = (fs', True)"
    by (cases "fetchCodecs (\<lambda>b. b) demoIO True True False (Some demoManifest) ''/c/b'' emptyCache") auto
  from provision_verified [OF j(4,5) names r] r show ?thesis by blast
qed

end
