(* ===== verification/Pusher.thy ===== *)
theory Pusher
  imports Job GoUrl
begin

text \<open>
  \<^verbatim>\<open>pushFile\<close> and \<^verbatim>\<open>putOnce\<close> of \<^verbatim>\<open>internal/workerd/pusher.go\<close>: the delivery of one chunk with
  its retries.  The outcome of the i-th PUT and whether the daemon is cancelled during the
  i-th wait are functions of the attempt; the result comes with the list of what was done.
\<close>

definition pushRetries :: nat where "pushRetries = 3"
definition pushBackoffStart :: int where "pushBackoffStart = 500 * millisecond"
definition pushBackoffCap :: int where "pushBackoffCap = 5 * second"

definition pushTarget :: "string \<Rightarrow> string \<Rightarrow> string" where
  "pushTarget pushURL name = trimSuffix pushURL ''/'' @ ''/files/'' @ PathEscape name"

text \<open>How the parts of one PUT end: the file cannot be opened, no answer, or a status.\<close>

datatype putEnd = PutNoFile | PutNoAnswer | PutStatus int

datatype pushError = Permanent | Transient | DaemonDone

definition putOnce :: "putEnd \<Rightarrow> pushError option" where
  "putOnce e =
     (case e of
        PutNoFile \<Rightarrow> Some Permanent
      | PutNoAnswer \<Rightarrow> Some Transient
      | PutStatus code \<Rightarrow>
          if 200 \<le> code \<and> code < 300 then None
          else if code = 410 then Some Permanent
          else Some Transient)"

datatype pushAct = Sleep int | PutTo string

text \<open>The loop, from an attempt on, with the backoff and the last error it carries.\<close>

function pushLoop ::
  "(nat \<Rightarrow> putEnd) \<Rightarrow> (nat \<Rightarrow> bool) \<Rightarrow> string \<Rightarrow> nat \<Rightarrow> int \<Rightarrow> pushError option \<Rightarrow> pushError option \<times> pushAct list" where
  "pushLoop ends cancelled target attempt backoff lastErr =
     (if attempt > pushRetries then (lastErr, [])
      else if attempt > 0 \<and> cancelled attempt then (Some DaemonDone, [])
      else
        let backoff' = (if attempt > 0 then min (backoff * 2) pushBackoffCap else backoff);
            pre = (if attempt > 0 then [Sleep backoff] else []) @ [PutTo target]
        in case putOnce (ends attempt) of
             None \<Rightarrow> (None, pre)
           | Some Permanent \<Rightarrow> (Some Permanent, pre)
           | Some e \<Rightarrow> apsnd ((@) pre) (pushLoop ends cancelled target (Suc attempt) backoff' (Some e)))"
  by pat_completeness auto
termination
  by (relation "measure (\<lambda>(ends, cancelled, target, attempt, backoff, lastErr). Suc pushRetries - attempt)") auto

declare pushLoop.simps [simp del]

definition pushFile :: "(nat \<Rightarrow> putEnd) \<Rightarrow> (nat \<Rightarrow> bool) \<Rightarrow> string \<Rightarrow> string \<Rightarrow> pushError option \<times> pushAct list" where
  "pushFile ends cancelled pushURL name =
     pushLoop ends cancelled (pushTarget pushURL name) 0 pushBackoffStart None"

text \<open>Unrolled: the bound of four attempts makes the loop a finite case distinction.\<close>

definition decided :: "putEnd \<Rightarrow> bool" where
  "decided e \<longleftrightarrow> putOnce e \<noteq> Some Transient"

definition sleeps :: "nat \<Rightarrow> int list" where
  "sleeps k = take k [500 * millisecond, 1000 * millisecond, 2000 * millisecond]"

fun interleave :: "string \<Rightarrow> int list \<Rightarrow> pushAct list" where
  "interleave target [] = []"
| "interleave target (t # ts) = Sleep t # PutTo target # interleave target ts"

lemma putOnce_no_done: "putOnce e \<noteq> Some DaemonDone"
  by (simp add: putOnce_def split: putEnd.split)

lemma pushLoop_transient:
  "attempt \<le> pushRetries \<Longrightarrow> \<not> (attempt > 0 \<and> cancelled attempt) \<Longrightarrow> putOnce (ends attempt) = Some Transient \<Longrightarrow>
   pushLoop ends cancelled target attempt backoff lastErr =
     apsnd ((@) ((if attempt > 0 then [Sleep backoff] else []) @ [PutTo target]))
       (pushLoop ends cancelled target (Suc attempt) (if attempt > 0 then min (backoff * 2) pushBackoffCap else backoff) (Some Transient))"
  by (subst pushLoop.simps) (auto simp: Let_def)

lemma pushLoop_decided:
  "attempt \<le> pushRetries \<Longrightarrow> \<not> (attempt > 0 \<and> cancelled attempt) \<Longrightarrow> decided (ends attempt) \<Longrightarrow>
   pushLoop ends cancelled target attempt backoff lastErr =
     (putOnce (ends attempt), (if attempt > 0 then [Sleep backoff] else []) @ [PutTo target])"
  using putOnce_no_done [of "ends attempt"]
  by (subst pushLoop.simps) (auto simp: Let_def decided_def split: option.split pushError.split)

lemma pushLoop_cancelled:
  "attempt > 0 \<Longrightarrow> attempt \<le> pushRetries \<Longrightarrow> cancelled attempt \<Longrightarrow>
   pushLoop ends cancelled target attempt backoff lastErr = (Some DaemonDone, [])"
  by (subst pushLoop.simps) simp

lemma pushLoop_end: "attempt > pushRetries \<Longrightarrow> pushLoop ends cancelled target attempt backoff lastErr = (lastErr, [])"
  by (subst pushLoop.simps) simp

text \<open>One chunk takes at most four PUTs, all to the same escaped URL, 500 ms, 1 s and 2 s apart.  With k
  the first attempt that is answered 2xx, answered 410 or finds no file, and the daemon alive,
  the result is that of attempt k after exactly k retries; without one, the chunk is given up
  as a transient failure after all four.\<close>

theorem pushFile_attempts:
  assumes "\<forall>i. \<not> cancelled i" "pushFile ends cancelled pushURL name = (res, acts)"
  shows "(\<forall>k \<le> 3. (\<forall>i < k. \<not> decided (ends i)) \<and> decided (ends k) \<longrightarrow>
      res = putOnce (ends k) \<and> acts = PutTo (pushTarget pushURL name) # interleave (pushTarget pushURL name) (sleeps k)) \<and>
    ((\<forall>i \<le> 3. \<not> decided (ends i)) \<longrightarrow>
      res = Some Transient \<and> acts = PutTo (pushTarget pushURL name) # interleave (pushTarget pushURL name) (sleeps 3))"
proof -
  let ?t = "pushTarget pushURL name"
  note alive = assms(1) [rule_format]
  have r: "pushLoop ends cancelled ?t 0 pushBackoffStart None = (res, acts)" using assms(2) by (simp add: pushFile_def)
  have tr: "putOnce (ends i) = Some Transient" if "\<not> decided (ends i)" for i using that by (simp add: decided_def)
  note rules = pushLoop_transient pushLoop_decided pushLoop_end pushRetries_def
  note nums = pushBackoffStart_def pushBackoffCap_def second_def millisecond_def sleeps_def
  have upto3: "(\<forall>i < 2. \<not> P i) = (\<not> P 0 \<and> \<not> P 1)" "(\<forall>i < 3. \<not> P i) = (\<not> P 0 \<and> \<not> P 1 \<and> \<not> P 2)"
    "(\<forall>i \<le> 3. \<not> P i) = (\<not> P 0 \<and> \<not> P 1 \<and> \<not> P 2 \<and> \<not> P 3)" for P :: "nat \<Rightarrow> bool"
    by (auto simp: less_Suc_eq le_Suc_eq numeral_eq_Suc)
  have cases4: "k = 0 \<or> k = 1 \<or> k = 2 \<or> k = 3" if "k \<le> 3" for k :: nat using that by auto
  define run where "run = pushLoop ends cancelled ?t 0 pushBackoffStart None"
  note step = pushLoop_transient [where ends = ends and cancelled = cancelled and target = ?t, OF _ _ tr]
    and stop = pushLoop_decided [where ends = ends and cancelled = cancelled and target = ?t]
  have run: "run = (putOnce (ends 0), PutTo ?t # interleave ?t (sleeps 0))" if "decided (ends 0)"
    using that by (simp add: run_def stop pushRetries_def sleeps_def)
  have run1: "run = (putOnce (ends 1), PutTo ?t # interleave ?t (sleeps 1))" if "\<not> decided (ends 0)" "decided (ends 1)"
    using that alive by (simp add: run_def step stop pushRetries_def nums)
  have run2: "run = (putOnce (ends 2), PutTo ?t # interleave ?t (sleeps 2))"
    if "\<not> decided (ends 0)" "\<not> decided (ends 1)" "decided (ends 2)"
    using that alive by (simp add: run_def step stop pushRetries_def nums numeral_eq_Suc)
  have run3: "run = (putOnce (ends 3), PutTo ?t # interleave ?t (sleeps 3))"
    if "\<not> decided (ends 0)" "\<not> decided (ends 1)" "\<not> decided (ends 2)" "decided (ends 3)"
    using that alive by (simp add: run_def step stop pushRetries_def nums numeral_eq_Suc)
  have none: "run = (Some Transient, PutTo ?t # interleave ?t (sleeps 3))"
    if "\<not> decided (ends 0)" "\<not> decided (ends 1)" "\<not> decided (ends 2)" "\<not> decided (ends 3)"
    using that alive by (simp add: run_def step pushLoop_end pushRetries_def nums numeral_eq_Suc)
  have res: "run = (res, acts)" using r by (simp add: run_def)
  have ans: "res = putOnce (ends k) \<and> acts = PutTo ?t # interleave ?t (sleeps k)"
    if "k \<le> 3" "\<forall>i < k. \<not> decided (ends i)" "decided (ends k)" for k
    using cases4 [OF that(1)] that(2,3) res run run1 run2 run3 upto3 [of "\<lambda>i. decided (ends i)"] by (elim disjE) auto
  show ?thesis using ans none res upto3(3) [of "\<lambda>i. decided (ends i)"] by auto
qed

lemma pushFile_attempts_witness:
  "pushFile (\<lambda>i. if i < 2 then PutNoAnswer else PutStatus 201) (\<lambda>i. False) ''http://m/s/'' ''c''
    = (None, PutTo ''http://m/s/files/c'' # interleave ''http://m/s/files/c'' (sleeps 2))"
proof -
  let ?ends = "\<lambda>i::nat. if i < 2 then PutNoAnswer else PutStatus 201"
  have t: "pushTarget ''http://m/s/'' ''c'' = ''http://m/s/files/c''" by code_simp
  obtain res acts where r: "pushFile ?ends (\<lambda>i. False) ''http://m/s/'' ''c'' = (res, acts)" by fastforce
  have e: "\<forall>i < 2. \<not> decided (?ends i)" "decided (?ends 2)" "putOnce (?ends 2) = None"
    by (simp_all add: decided_def putOnce_def)
  then have "res = None \<and> acts = PutTo ''http://m/s/files/c'' # interleave ''http://m/s/files/c'' (sleeps 2)"
    using conjunct1 [OF pushFile_attempts [OF _ r], rule_format, of 2] unfolding t by simp
  then show ?thesis using r by simp
qed

end
