(* ===== verification/Ndjson.thy ===== *)
theory Ndjson
  imports Protocol Transition
begin

text \<open>
  \<^verbatim>\<open>internal/ndjson/ndjson.go\<close> and the handler of the events stream (\<^verbatim>\<open>handleJobEvents\<close> of
  \<^verbatim>\<open>internal/workerd/workerd.go\<close>): the line scanner and reader of the shim, the writer of the
  worker with its two threads (the handler's loop and the heartbeats), and the liveness watch.
  The encoding of one event as JSON is a parameter of this theory (locale \<open>line_codec\<close>);
  \<^verbatim>\<open>EventJson\<close> gives the encoding and discharges the laws.
\<close>

section \<open>The scanner\<close>

definition MaxLineSize :: nat where "MaxLineSize = 2 ^ 20"
definition newline :: char where "newline = CHR 0x0A"
definition carriage :: char where "carriage = CHR 0x0D"

definition dropCR :: "string \<Rightarrow> string" where
  "dropCR s = (if s \<noteq> [] \<and> last s = carriage then butlast s else s)"

text \<open>
  \<^verbatim>\<open>bufio.Scanner\<close> with \<^verbatim>\<open>ScanLines\<close>: the lines of a stream, the last one also when it is not
  terminated; a line that fills the whole buffer without its newline stops the scan.
\<close>

datatype readEnd = EndOfStream | BrokenStream | LineTooLong | BadLine

function scanLines :: "nat \<Rightarrow> bool \<Rightarrow> string \<Rightarrow> string list \<times> readEnd" where
  "scanLines limit broken s =
     (if s = [] then ([], if broken then BrokenStream else EndOfStream)
      else let line = takeWhile (\<lambda>c. c \<noteq> newline) s in
        if length line \<ge> limit then ([], LineTooLong)
        else apfst ((#) (dropCR line)) (scanLines limit broken (drop (length line + 1) s)))"
  by pat_completeness auto
termination
  by (relation "measure (\<lambda>(limit, broken, s). length s)") auto

declare scanLines.simps [simp del]

section \<open>The reader\<close>

text \<open>\<^verbatim>\<open>ReadEvent\<close>: blank lines are skipped; a line that is no event is an error.\<close>

fun ReadEvent :: "(string \<Rightarrow> Event option) \<Rightarrow> string list \<times> readEnd \<Rightarrow> (readEnd + Event) \<times> (string list \<times> readEnd)" where
  "ReadEvent dec ([], e) = (Inl e, ([], e))"
| "ReadEvent dec (l # ls, e) =
     (if l = [] then ReadEvent dec (ls, e)
      else case dec l of None \<Rightarrow> (Inl BadLine, (ls, e)) | Some ev \<Rightarrow> (Inr ev, (ls, e)))"

lemma ReadEvent_shrinks: "ReadEvent dec st = (Inr ev, st') \<Longrightarrow> length (fst st') < length (fst st)"
  by (induction dec st rule: ReadEvent.induct) (auto split: if_splits option.splits)

text \<open>The shim's reader thread: the events up to the first error.\<close>

function readEvents :: "(string \<Rightarrow> Event option) \<Rightarrow> string list \<times> readEnd \<Rightarrow> Event list \<times> readEnd" where
  "readEvents dec st =
     (case ReadEvent dec st of
        (Inl e, _) \<Rightarrow> ([], e)
      | (Inr ev, st') \<Rightarrow> apfst ((#) ev) (readEvents dec st'))"
  by pat_completeness auto
termination
  by (relation "measure (\<lambda>(dec, st). length (fst st))") (auto dest: ReadEvent_shrinks [OF sym])

declare readEvents.simps [simp del]

lemma readEvents_Nil [simp]: "readEvents dec ([], e) = ([], e)"
  by (subst readEvents.simps) simp

lemma readEvents_blank [simp]: "readEvents dec ([] # ls, e) = readEvents dec (ls, e)"
  by (subst (1 2) readEvents.simps) simp

lemma readEvents_Cons [simp]:
  "l \<noteq> [] \<Longrightarrow> readEvents dec (l # ls, e) =
     (case dec l of None \<Rightarrow> ([], BadLine) | Some ev \<Rightarrow> apfst ((#) ev) (readEvents dec (ls, e)))"
  by (subst readEvents.simps) (simp split: option.split)

definition receivedEvents :: "(string \<Rightarrow> Event option) \<Rightarrow> bool \<Rightarrow> string \<Rightarrow> Event list \<times> readEnd" where
  "receivedEvents dec broken bytes = readEvents dec (scanLines MaxLineSize broken bytes)"

section \<open>The writer\<close>

record writer =
  wr_out :: string
  wr_err :: bool

definition NewWriter :: writer where "NewWriter = \<lparr>wr_out = [], wr_err = False\<rparr>"

text \<open>What the connection does with one write: takes it all, or fails after some bytes.\<close>

datatype sink = SinkOk | SinkFail nat

definition WriteEvent :: "(Event \<Rightarrow> string) \<Rightarrow> Event \<Rightarrow> sink \<Rightarrow> writer \<Rightarrow> writer \<times> bool" where
  "WriteEvent enc ev k w =
     (if wr_err w then (w, False)
      else let line = enc ev @ [newline] in
        case k of
          SinkOk \<Rightarrow> (w\<lparr>wr_out := wr_out w @ line\<rparr>, True)
        | SinkFail n \<Rightarrow> (w\<lparr>wr_out := wr_out w @ take n line, wr_err := True\<rparr>, False))"

text \<open>
  The stream of one client: the handler's loop takes events from its subscription and writes
  them; the heartbeat thread writes at each tick; both end with the client, with the
  subscription, or at the first failed write.  \<open>st_sent\<close> and \<open>st_lost\<close> are the trace: the
  events whose write succeeded, and the one whose write failed.
\<close>

record stream =
  st_w :: writer
  st_open :: bool
  st_hb :: bool
  st_sent :: "Event list"
  st_lost :: "Event option"

definition openStream :: stream where
  "openStream = \<lparr>st_w = NewWriter, st_open = True, st_hb = True, st_sent = [], st_lost = None\<rparr>"

datatype naction = NEvent Event sink | NHeartbeat sink | NEnd

definition sendEvent :: "(Event \<Rightarrow> string) \<Rightarrow> Event \<Rightarrow> sink \<Rightarrow> stream \<Rightarrow> stream \<times> bool" where
  "sendEvent enc ev k s =
     (let (w, ok) = WriteEvent enc ev k (st_w s) in
        (s\<lparr>st_w := w, st_sent := (if ok then st_sent s @ [ev] else st_sent s),
           st_lost := (if ok \<or> wr_err (st_w s) then st_lost s else Some ev)\<rparr>, ok))"

fun nstep :: "(Event \<Rightarrow> string) \<Rightarrow> naction \<Rightarrow> stream \<Rightarrow> stream option" where
  "nstep enc (NEvent ev k) s =
     (if \<not> st_open s then None
      else let (t, ok) = sendEvent enc ev k s in Some (if ok then t else t\<lparr>st_open := False, st_hb := False\<rparr>))"
| "nstep enc (NHeartbeat k) s =
     (if \<not> st_hb s then None
      else let (t, ok) = sendEvent enc EventHeartbeat k s in Some (if ok then t else t\<lparr>st_hb := False\<rparr>))"
| "nstep enc NEnd s = (if \<not> st_open s then None else Some (s\<lparr>st_open := False, st_hb := False\<rparr>))"

definition wholeLines :: "(Event \<Rightarrow> string) \<Rightarrow> Event list \<Rightarrow> string" where
  "wholeLines enc es = concat (map (\<lambda>ev. enc ev @ [newline]) es)"

definition streamInv :: "(Event \<Rightarrow> string) \<Rightarrow> stream \<Rightarrow> bool" where
  "streamInv enc s \<longleftrightarrow> (wr_err (st_w s) \<longleftrightarrow> st_lost s \<noteq> None) \<and>
     (\<exists>n. wr_out (st_w s) = wholeLines enc (st_sent s) @
        (case st_lost s of None \<Rightarrow> [] | Some ev \<Rightarrow> take n (enc ev @ [newline])))"

lemma wholeLines_snoc: "wholeLines enc (es @ [ev]) = wholeLines enc es @ enc ev @ [newline]"
  by (simp add: wholeLines_def)

lemma sendEvent_inv: "streamInv enc s \<Longrightarrow> streamInv enc (fst (sendEvent enc ev k s))"
  by (cases k) (auto simp: streamInv_def sendEvent_def WriteEvent_def wholeLines_snoc)

lemma streamInv_flags [simp]:
  "streamInv enc (s\<lparr>st_open := a, st_hb := b\<rparr>) = streamInv enc s" "streamInv enc (s\<lparr>st_open := a\<rparr>) = streamInv enc s" "streamInv enc (s\<lparr>st_hb := b\<rparr>) = streamInv enc s"
  by (simp_all add: streamInv_def)

lemma nstep_inv: "streamInv enc s \<Longrightarrow> nstep enc a s = Some t \<Longrightarrow> streamInv enc t"
  by (cases a) (auto simp: split_def Let_def dest: sendEvent_inv split: if_splits)

interpretation lifeline: invariant_of "nstep enc" "\<lambda>s. s = openStream" "streamInv enc" for enc
proof
  show "streamInv enc s" if "s = openStream" for s
    using that by (simp add: streamInv_def openStream_def NewWriter_def wholeLines_def)
qed (rule nstep_inv)

section \<open>Writer and reader together\<close>

locale line_codec =
  fixes enc :: "Event \<Rightarrow> string" and dec :: "string \<Rightarrow> Event option" and sendable :: "Event \<Rightarrow> bool"
  assumes dec_enc: "sendable ev \<Longrightarrow> dec (enc ev) = Some ev"
    and enc_chars: "sendable ev \<Longrightarrow> newline \<notin> set (enc ev) \<and> carriage \<notin> set (enc ev)"
    and enc_fits: "sendable ev \<Longrightarrow> enc ev \<noteq> [] \<and> length (enc ev) < MaxLineSize"
    and dec_part: "sendable ev \<Longrightarrow> n < length (enc ev) \<Longrightarrow> dec (take n (enc ev)) = None"
begin

lemma takeWhile_line: "newline \<notin> set l \<Longrightarrow> takeWhile (\<lambda>c. c \<noteq> newline) (l @ newline # r) = l"
  "newline \<notin> set l \<Longrightarrow> takeWhile (\<lambda>c. c \<noteq> newline) l = l"
  by (auto simp: takeWhile_append takeWhile_eq_all_conv)

lemma dropCR_line: "carriage \<notin> set l \<Longrightarrow> dropCR l = l"
  by (cases l rule: rev_cases) (auto simp: dropCR_def)

lemma received_line:
  "sendable ev \<Longrightarrow> receivedEvents dec broken (enc ev @ newline # rest) = apfst ((#) ev) (receivedEvents dec broken rest)"
  using enc_chars [of ev] enc_fits [of ev] dec_enc [of ev] unfolding receivedEvents_def
  by (subst scanLines.simps) (simp add: takeWhile_line dropCR_line Let_def apfst_def map_prod_def split_beta)

lemma received_lines:
  "\<forall>ev \<in> set es. sendable ev \<Longrightarrow>
   receivedEvents dec broken (wholeLines enc es @ rest) = apfst ((@) es) (receivedEvents dec broken rest)"
  by (induction es) (auto simp: wholeLines_def received_line apfst_def map_prod_def split_beta)

lemma received_nothing: "receivedEvents dec broken [] = ([], if broken then BrokenStream else EndOfStream)"
  unfolding receivedEvents_def by (subst scanLines.simps) simp

lemma received_part:
  assumes "sendable ev" "part = take n (enc ev @ [newline])"
  shows "fst (receivedEvents dec broken part) \<in> {[], [ev]}"
proof (cases "n \<le> length (enc ev)")
  case False
  then have "part = enc ev @ newline # []" using assms(2) by simp
  then show ?thesis using received_line [OF assms(1), of broken "[]"] by (simp add: received_nothing)
next
  case True
  then have part: "part = take n (enc ev)" using assms(2) by simp
  have chars: "newline \<notin> set part" "carriage \<notin> set part"
    using enc_chars [OF assms(1)] part by (auto dest: in_set_takeD)
  have len: "length part < MaxLineSize" using enc_fits [OF assms(1)] part by (simp add: min_def)
  show ?thesis
  proof (cases "part = []")
    case True
    then show ?thesis by (simp add: received_nothing)
  next
    case False
    have "dec part = None \<or> dec part = Some ev"
      using dec_part [OF assms(1), of n] dec_enc [OF assms(1)] part True by (cases "n = length (enc ev)") auto
    moreover have "scanLines MaxLineSize broken part = ([part], if broken then BrokenStream else EndOfStream)"
      using False len by (subst scanLines.simps) (simp add: takeWhile_line chars dropCR_line Let_def, simp add: scanLines.simps)
    ultimately show ?thesis using False by (auto simp: receivedEvents_def)
  qed
qed

lemma stream_received:
  assumes inv: "streamInv enc s" and ok: "\<forall>ev \<in> set (st_sent s) \<union> set_option (st_lost s). sendable ev"
    and got: "receivedEvents dec broken (wr_out (st_w s)) = (es, e)"
  shows "es = st_sent s \<or> (\<exists>ev. st_lost s = Some ev \<and> es = st_sent s @ [ev])"
    and "st_lost s = None \<Longrightarrow> e = (if broken then BrokenStream else EndOfStream)"
proof -
  obtain n where out: "wr_out (st_w s) = wholeLines enc (st_sent s) @
      (case st_lost s of None \<Rightarrow> [] | Some ev \<Rightarrow> take n (enc ev @ [newline]))"
    using inv by (auto simp: streamInv_def)
  note lines = received_lines [of "st_sent s" broken]
  have whole: "receivedEvents dec broken (wholeLines enc (st_sent s)) = (st_sent s, if broken then BrokenStream else EndOfStream)"
    using lines [of "[]"] ok by (simp add: received_nothing)
  show "es = st_sent s \<or> (\<exists>ev. st_lost s = Some ev \<and> es = st_sent s @ [ev])"
  proof (cases "st_lost s")
    case None
    then show ?thesis using got whole out by simp
  next
    case (Some ev)
    then have "fst (receivedEvents dec broken (take n (enc ev @ [newline]))) \<in> {[], [ev]}"
      using ok by (intro received_part) auto
    moreover have "es = st_sent s @ fst (receivedEvents dec broken (take n (enc ev @ [newline])))"
      using got lines [of "take n (enc ev @ [newline])"] ok out Some
      by (cases "receivedEvents dec broken (take n (enc ev @ [newline]))") simp
    ultimately show ?thesis using Some by auto
  qed
  show "e = (if broken then BrokenStream else EndOfStream)" if "st_lost s = None"
    using got whole out that by simp
qed

end

section \<open>The liveness watch\<close>

text \<open>
  \<^verbatim>\<open>WatchLiveness\<close>: \<open>ts\<close> are the instants at which an event is read, \<open>t0\<close> the one at which the
  reader was made.  The watch sleeps until the deadline of the last event it knows of, and looks
  again; the result is the instant at which it cancels.
\<close>

definition lastEvent :: "int \<Rightarrow> int list \<Rightarrow> int \<Rightarrow> int" where
  "lastEvent t0 ts now = fold max (filter (\<lambda>t. t \<le> now) ts) t0"

partial_function (option) watchLiveness :: "int \<Rightarrow> int \<Rightarrow> int list \<Rightarrow> int \<Rightarrow> int option" where
  [code]: "watchLiveness timeout t0 ts now =
     (let idle = now - lastEvent t0 ts now in
        if idle \<ge> timeout then Some now else watchLiveness timeout t0 ts (now + (timeout - idle)))"

lemma lastEvent_Max: "lastEvent t0 ts now = Max (insert t0 {t \<in> set ts. t \<le> now})"
  using Max.set_eq_fold [of t0 "filter (\<lambda>t. t \<le> now) ts"] by (simp add: lastEvent_def)

lemma lastEvent_mono: "now \<le> u \<Longrightarrow> lastEvent t0 ts now \<le> lastEvent t0 ts u"
  unfolding lastEvent_Max by (rule Max_mono) auto

lemma lastEvent_new:
  assumes "lastEvent t0 ts u \<noteq> lastEvent t0 ts now" "now \<le> u"
  shows "\<exists>t \<in> set ts. now < t \<and> t \<le> u"
proof (rule ccontr)
  assume "\<not> ?thesis"
  then have "{t \<in> set ts. t \<le> u} = {t \<in> set ts. t \<le> now}" using assms(2) by force
  then show False using assms(1) by (simp add: lastEvent_Max)
qed

text \<open>One turn of the loop: it ends here, or sleeps until the deadline of the last event, before which it would
  not have cancelled, and then knows of more events or ends.\<close>

lemma watch_ends: "timeout \<le> now - lastEvent t0 ts now \<Longrightarrow> watchLiveness timeout t0 ts now = Some now"
  by (subst watchLiveness.simps) simp

lemma watch_sleeps:
  assumes "now - lastEvent t0 ts now < timeout"
  defines "deadline \<equiv> lastEvent t0 ts now + timeout"
  shows "watchLiveness timeout t0 ts now = watchLiveness timeout t0 ts deadline" "now < deadline"
    and "now \<le> u \<Longrightarrow> u < deadline \<Longrightarrow> u - lastEvent t0 ts u < timeout"
    and "lastEvent t0 ts deadline \<noteq> lastEvent t0 ts now \<Longrightarrow>
      card {t \<in> set ts. deadline < t} < card {t \<in> set ts. now < t}"
proof -
  show "watchLiveness timeout t0 ts now = watchLiveness timeout t0 ts deadline"
    using assms(1) by (subst watchLiveness.simps) (simp add: deadline_def add.commute)
  show later: "now < deadline" using assms(1) by (simp add: deadline_def)
  show "u - lastEvent t0 ts u < timeout" if "now \<le> u" "u < deadline"
    using lastEvent_mono [OF that(1), of t0 ts] that(2) by (simp add: deadline_def)
  assume "lastEvent t0 ts deadline \<noteq> lastEvent t0 ts now"
  then obtain t where t: "t \<in> set ts" "now < t" "t \<le> deadline"
    using lastEvent_new [of t0 ts deadline now] later by auto
  show "card {t \<in> set ts. deadline < t} < card {t \<in> set ts. now < t}"
  proof (rule psubset_card_mono)
    have "t \<in> {t \<in> set ts. now < t}" "t \<notin> {t \<in> set ts. deadline < t}"
      using t by simp_all
    moreover have "{t \<in> set ts. deadline < t} \<subseteq> {t \<in> set ts. now < t}" using later by force
    ultimately show "{t \<in> set ts. deadline < t} \<subset> {t \<in> set ts. now < t}" by blast
  qed simp
qed

text \<open>C40: The liveness watch always ends, and cancels at the first instant, from its start on, at which no event
  has been read for the timeout: never while events keep coming, and never later than the
  deadline of the last one.\<close>

theorem watchLiveness_exact:
  "\<exists>c. watchLiveness timeout t0 ts now = Some c \<and> now \<le> c \<and> timeout \<le> c - lastEvent t0 ts c \<and>
     \<not> (\<exists>u. now \<le> u \<and> u < c \<and> timeout \<le> u - lastEvent t0 ts u)"
proof (induction "card {t \<in> set ts. now < t}" arbitrary: now rule: less_induct)
  case less
  show ?case
  proof (cases "timeout \<le> now - lastEvent t0 ts now")
    case True
    then show ?thesis using watch_ends [OF True] by (intro exI [of _ now]) auto
  next
    case False
    define deadline where "deadline = lastEvent t0 ts now + timeout"
    have "now - lastEvent t0 ts now < timeout" using False by simp
    note turn = watch_sleeps [OF this, folded deadline_def]
    obtain c where c: "watchLiveness timeout t0 ts deadline = Some c" "deadline \<le> c"
        "timeout \<le> c - lastEvent t0 ts c" "\<not> (\<exists>u. deadline \<le> u \<and> u < c \<and> timeout \<le> u - lastEvent t0 ts u)"
    proof (cases "lastEvent t0 ts deadline = lastEvent t0 ts now")
      case True
      then have idle: "timeout \<le> deadline - lastEvent t0 ts deadline" by (simp add: deadline_def)
      then show ?thesis using that [OF watch_ends [OF idle]] by force
    next
      case False
      from less [OF turn(4) [OF False]] that show ?thesis by blast
    qed
    then show ?thesis using turn(1,2,3) by (intro exI [of _ c]) force
  qed
qed

end
