(* ===== verification/EventJson.thy ===== *)
theory EventJson
  imports Ndjson
begin

text \<open>
  The JSON of one event, as \<^verbatim>\<open>encoding/json\<close> writes the struct \<^verbatim>\<open>Event\<close> of
  \<^verbatim>\<open>internal/protocol/protocol.go\<close>: its field names, their order and \<^verbatim>\<open>omitempty\<close>, the string
  escapes with HTML characters escaped, and invalid UTF-8 replaced.  The decoder is the part of
  \<^verbatim>\<open>json.Unmarshal\<close> that reads objects of strings and integers without white space, which is all
  the encoder writes.  The laws of \<open>line_codec\<close> hold for it.
\<close>

section \<open>Strings\<close>

definition dquote :: char where "dquote = CHR 0x22"
definition backslash :: char where "backslash = CHR 0x5C"

definition plainJson :: "char \<Rightarrow> bool" where
  "plainJson c \<longleftrightarrow> 32 \<le> ord c \<and> ord c < 128 \<and> c \<notin> {dquote, backslash, CHR ''<'', CHR ''>'', CHR ''&''}"

definition escapes2 :: "(char \<times> char) list" where
  "escapes2 = [(dquote, dquote), (backslash, backslash), (CHR 0x08, CHR ''b''), (CHR 0x0C, CHR ''f''),
     (CHR 0x0A, CHR ''n''), (CHR 0x0D, CHR ''r''), (CHR 0x09, CHR ''t'')]"

definition jsonEsc :: "char \<Rightarrow> string" where
  "jsonEsc c =
     (if plainJson c then [c]
      else case map_of escapes2 c of
          Some e \<Rightarrow> [backslash, e]
        | None \<Rightarrow> backslash # ''u00'' @ [hexChar (ord c div 16), hexChar (ord c mod 16)])"

text \<open>The length of the UTF-8 sequence a text starts with; 0 when it is not valid.\<close>

definition contByte :: "char \<Rightarrow> bool" where "contByte c \<longleftrightarrow> 0x80 \<le> ord c \<and> ord c \<le> 0xBF"

definition secondByte :: "nat \<Rightarrow> char \<Rightarrow> bool" where
  "secondByte a c \<longleftrightarrow> (if a = 0xE0 then 0xA0 else if a = 0xF0 then 0x90 else 0x80) \<le> ord c \<and>
     ord c \<le> (if a = 0xED then 0x9F else if a = 0xF4 then 0x8F else 0xBF)"

definition runeLen :: "string \<Rightarrow> nat" where
  "runeLen s =
     (case s of
        [] \<Rightarrow> 0
      | a # t \<Rightarrow>
          if ord a < 0x80 then 1
          else if 0xC2 \<le> ord a \<and> ord a \<le> 0xDF
            then (case t of b # _ \<Rightarrow> if contByte b then 2 else 0 | _ \<Rightarrow> 0)
          else if 0xE0 \<le> ord a \<and> ord a \<le> 0xEF
            then (case t of b # c # _ \<Rightarrow> if secondByte (ord a) b \<and> contByte c then 3 else 0 | _ \<Rightarrow> 0)
          else if 0xF0 \<le> ord a \<and> ord a \<le> 0xF4
            then (case t of b # c # d # _ \<Rightarrow> if secondByte (ord a) b \<and> contByte c \<and> contByte d then 4 else 0 | _ \<Rightarrow> 0)
          else 0)"

definition replacement :: string where "replacement = [CHR 0xEF, CHR 0xBF, CHR 0xBD]"

text \<open>The two line separators that JSON escapes although they are no control characters.\<close>

definition lineSeps :: "(string \<times> char) list" where
  "lineSeps = [([CHR 0xE2, CHR 0x80, CHR 0xA8], CHR ''8''), ([CHR 0xE2, CHR 0x80, CHR 0xA9], CHR ''9'')]"

definition jsonRune :: "string \<Rightarrow> string" where
  "jsonRune r = (case map_of lineSeps r of Some d \<Rightarrow> backslash # ''u202'' @ [d] | None \<Rightarrow> r)"

function jsonBody :: "string \<Rightarrow> string" where
  "jsonBody [] = []"
| "jsonBody (c # s) =
     (if ord c < 0x80 then jsonEsc c @ jsonBody s
      else let n = runeLen (c # s) in
        if n = 0 then backslash # ''ufffd'' @ jsonBody s
        else jsonRune (take n (c # s)) @ jsonBody (drop n (c # s)))"
  by pat_completeness auto
termination
  by (relation "measure length") auto

text \<open>The text with every invalid byte replaced: what a reader gets.\<close>

function toValid :: "string \<Rightarrow> string" where
  "toValid [] = []"
| "toValid (c # s) =
     (let n = runeLen (c # s) in
        if n = 0 then replacement @ toValid s else take n (c # s) @ toValid (drop n (c # s)))"
  by pat_completeness auto
termination
  by (relation "measure length") auto

text \<open>Reading a string after its opening quote: its text and what follows the closing quote.\<close>

definition runeBytes :: "nat \<Rightarrow> string" where
  "runeBytes r =
     (if r < 0x80 then [char_of r]
      else if r < 0x800 then [char_of (0xC0 + r div 64), char_of (0x80 + r mod 64)]
      else if 0xD800 \<le> r \<and> r \<le> 0xDFFF then replacement
      else [char_of (0xE0 + r div 4096), char_of (0x80 + r div 64 mod 64), char_of (0x80 + r mod 64)])"

definition hex4 :: "string \<Rightarrow> nat option" where
  "hex4 s =
     (case map hexVal s of
        [Some a, Some b, Some c, Some d] \<Rightarrow> Some (((a * 16 + b) * 16 + c) * 16 + d)
      | _ \<Rightarrow> None)"

definition unescapes2 :: "(char \<times> char) list" where
  "unescapes2 = (CHR ''/'', CHR ''/'') # map (\<lambda>(c, e). (e, c)) escapes2"

fun jsonUnquote :: "string \<Rightarrow> (string \<times> string) option" where
  "jsonUnquote [] = None"
| "jsonUnquote (c # s) =
     (if c = dquote then Some ([], s)
      else if c = backslash then
        (case s of
           [] \<Rightarrow> None
         | e # t \<Rightarrow>
             if e = CHR ''u'' then
               (case hex4 (take 4 t) of
                  None \<Rightarrow> None
                | Some r \<Rightarrow> map_option (apfst ((@) (runeBytes r))) (jsonUnquote (drop 4 t)))
             else (case map_of unescapes2 e of
                     None \<Rightarrow> None
                   | Some x \<Rightarrow> map_option (apfst ((#) x)) (jsonUnquote t)))
      else if ord c < 32 then None
      else map_option (apfst ((#) c)) (jsonUnquote s))"

section \<open>Strings survive\<close>

lemma ord_cases_control:
  "ord c < 128 \<Longrightarrow> \<not> plainJson c \<Longrightarrow> map_of escapes2 c = None \<Longrightarrow> ord c div 16 < 16 \<and> ord c < 128"
  by simp

lemma hex4_control: "ord c < 128 \<Longrightarrow> hex4 [CHR ''0'', CHR ''0'', hexChar (ord c div 16), hexChar (ord c mod 16)] = Some (ord c)"
  by (simp add: hex4_def hexVal_def [of "CHR ''0''"] isDigit_def)

lemma char_of_ord: "runeBytes (ord c) = [c]" if "ord c < 128"
  using that by (simp add: runeBytes_def)

lemma jsonUnquote_esc:
  assumes "ord c < 128"
  shows "jsonUnquote (jsonEsc c @ t) = map_option (apfst ((#) c)) (jsonUnquote t)"
proof (cases "plainJson c")
  case True
  then show ?thesis by (simp add: jsonEsc_def plainJson_def)
next
  case False
  show ?thesis
  proof (cases "map_of escapes2 c")
    case None
    have "(@) [c] = (#) c" by (rule ext) simp
    then have "jsonUnquote (backslash # CHR ''u'' # [CHR ''0'', CHR ''0'', hexChar (ord c div 16), hexChar (ord c mod 16)] @ t)
        = map_option (apfst ((#) c)) (jsonUnquote t)"
      using hex4_control [OF assms] char_of_ord [OF assms] by (simp add: backslash_def dquote_def)
    moreover have "jsonEsc c = backslash # CHR ''u'' # [CHR ''0'', CHR ''0'', hexChar (ord c div 16), hexChar (ord c mod 16)]"
      using False None by (simp add: jsonEsc_def)
    ultimately show ?thesis by (simp del: jsonUnquote.simps)
  next
    case (Some e)
    have "(c, e) \<in> set escapes2" using Some by (rule map_of_SomeD)
    then have "map_of unescapes2 e = Some c \<and> e \<noteq> CHR ''u''"
      by (auto simp: escapes2_def unescapes2_def dquote_def backslash_def)
    then show ?thesis using False Some by (simp add: jsonEsc_def backslash_def dquote_def)
  qed
qed

lemma jsonUnquote_high:
  "\<forall>x \<in> set r. 128 \<le> ord x \<Longrightarrow> jsonUnquote (r @ t) = map_option (apfst ((@) r)) (jsonUnquote t)"
proof (induction r)
  case Nil
  then show ?case by (cases "jsonUnquote t") (auto simp: apfst_def)
next
  case (Cons x r)
  then have "128 \<le> ord x" by simp
  then have "x \<noteq> dquote" "x \<noteq> backslash" by (auto simp: dquote_def backslash_def)
  with Cons show ?case by (cases "jsonUnquote t") (auto simp: apfst_def)
qed

lemma runeLen_high:
  assumes "ord c \<ge> 128" "runeLen (c # s) = n" "n \<noteq> 0"
  shows "\<forall>x \<in> set (take n (c # s)). 128 \<le> ord x"
  using assms by (auto simp: runeLen_def contByte_def secondByte_def split: if_splits list.splits)

lemma jsonUnquote_rune:
  assumes "\<forall>x \<in> set r. 128 \<le> ord x"
  shows "jsonUnquote (jsonRune r @ t) = map_option (apfst ((@) r)) (jsonUnquote t)"
proof (cases "map_of lineSeps r")
  case None
  then show ?thesis using jsonUnquote_high [OF assms] by (simp add: jsonRune_def)
next
  case (Some d)
  have "(r, d) \<in> set lineSeps" using Some by (rule map_of_SomeD)
  moreover have "hex4 ''2028'' = Some 0x2028" "hex4 ''2029'' = Some 0x2029"
      "runeBytes 0x2028 = [CHR 0xE2, CHR 0x80, CHR 0xA8]" "runeBytes 0x2029 = [CHR 0xE2, CHR 0x80, CHR 0xA9]"
    by (simp_all add: hex4_def hexVal_def isDigit_def runeBytes_def char_of_def bit_0)
  ultimately have "hex4 [CHR ''2'', CHR ''0'', CHR ''2'', d] = Some (if d = CHR ''8'' then 0x2028 else 0x2029)"
      "r = runeBytes (if d = CHR ''8'' then 0x2028 else 0x2029)"
    by (auto simp: lineSeps_def)
  then show ?thesis using Some by (simp add: jsonRune_def backslash_def dquote_def)
qed

lemma jsonUnquote_bad: "jsonUnquote (backslash # ''ufffd'' @ t) = map_option (apfst ((@) replacement)) (jsonUnquote t)"
proof -
  have "hex4 ''fffd'' = Some 0xFFFD" "runeBytes 0xFFFD = replacement"
    by (simp_all add: hex4_def hexVal_def isDigit_def runeBytes_def replacement_def char_of_def bit_0)
  then show ?thesis by (simp add: backslash_def dquote_def)
qed

lemma map_option_apfst: "map_option (apfst f) (map_option (apfst g) x) = map_option (apfst (f \<circ> g)) x"
  by (cases x) (auto simp: apfst_def)

theorem jsonUnquote_body: "jsonUnquote (jsonBody s @ dquote # t) = Some (toValid s, t)"
proof (induction s rule: jsonBody.induct)
  case (2 c s)
  show ?case
  proof (cases "ord c < 128")
    case True
    then have "runeLen (c # s) = 1" by (simp add: runeLen_def)
    then show ?thesis using True 2 by (simp add: jsonUnquote_esc)
  next
    case False
    let ?n = "runeLen (c # s)"
    show ?thesis
    proof (cases "?n = 0")
      case True
      then have "jsonBody (c # s) = backslash # ''ufffd'' @ jsonBody s" using False by simp
      moreover have "jsonUnquote ((backslash # ''ufffd'' @ jsonBody s) @ dquote # t) = Some (replacement @ toValid s, t)"
        using jsonUnquote_bad [of "jsonBody s @ dquote # t"] 2(2) [OF _ refl] True False by simp
      ultimately show ?thesis using True by simp
    next
      case True': False
      have high: "\<forall>x \<in> set (take ?n (c # s)). 128 \<le> ord x"
        using False True' by (intro runeLen_high [OF _ refl]) auto
      have "jsonBody (c # s) = jsonRune (take ?n (c # s)) @ jsonBody (drop ?n (c # s))"
        using False True' by (simp add: Let_def)
      moreover have "jsonUnquote (jsonRune (take ?n (c # s)) @ jsonBody (drop ?n (c # s)) @ dquote # t)
          = Some (take ?n (c # s) @ toValid (drop ?n (c # s)), t)"
        using jsonUnquote_rune [OF high] 2(3) [OF _ refl] False True' by simp
      ultimately show ?thesis using True' by (simp add: Let_def)
    qed
  qed
qed simp

section \<open>Objects\<close>

datatype jvalue = JText string | JNumber int

definition jsonValueText :: "jvalue \<Rightarrow> string" where
  "jsonValueText v = (case v of JText s \<Rightarrow> dquote # jsonBody s @ [dquote] | JNumber i \<Rightarrow> formatInt i)"

fun jsonMembersText :: "(string \<times> jvalue) list \<Rightarrow> string" where
  "jsonMembersText [] = ''}''"
| "jsonMembersText [(k, v)] = dquote # jsonBody k @ dquote # CHR '':'' # jsonValueText v @ ''}''"
| "jsonMembersText ((k, v) # ms) = dquote # jsonBody k @ dquote # CHR '':'' # jsonValueText v @ CHR '','' # jsonMembersText ms"

definition jsonObject :: "(string \<times> jvalue) list \<Rightarrow> string" where
  "jsonObject ms = CHR ''{'' # jsonMembersText ms"

definition parseValue :: "string \<Rightarrow> (jvalue \<times> string) option" where
  "parseValue s =
     (case s of
        [] \<Rightarrow> None
      | c # t \<Rightarrow>
          if c = dquote then map_option (apfst JText) (jsonUnquote t)
          else if c = CHR ''-'' \<or> isDigit c
            then map_option (\<lambda>i. (JNumber i, dropWhile isDigit t)) (atoi (c # takeWhile isDigit t))
          else None)"

lemma jsonUnquote_shrinks: "jsonUnquote s = Some (u, r) \<Longrightarrow> length r < length s"
  by (induction s arbitrary: u r rule: jsonUnquote.induct)
    (fastforce split: if_splits list.splits option.splits)+

lemma parseValue_shrinks: "parseValue s = Some (v, r) \<Longrightarrow> length r < length s"
  using length_dropWhile_le [of isDigit "tl s"]
  by (auto simp: parseValue_def dest: jsonUnquote_shrinks split: list.splits if_splits)

definition parseMember :: "string \<Rightarrow> ((string \<times> jvalue) \<times> string) option" where
  "parseMember s =
     (case s of
        [] \<Rightarrow> None
      | c # t \<Rightarrow>
          if c \<noteq> dquote then None
          else (case jsonUnquote t of
                  Some (k, x # u) \<Rightarrow>
                    if x = CHR '':'' then map_option (\<lambda>(v, r). ((k, v), r)) (parseValue u) else None
                | _ \<Rightarrow> None))"

lemma parseMember_shrinks: "parseMember s = Some (m, r) \<Longrightarrow> length r < length s"
  by (force simp: parseMember_def dest: jsonUnquote_shrinks parseValue_shrinks split: list.splits if_splits option.splits)

function parseMembers :: "string \<Rightarrow> ((string \<times> jvalue) list \<times> string) option" where
  "parseMembers s =
     (case parseMember s of
        Some (m, c # r) \<Rightarrow>
          if c = CHR ''}'' then Some ([m], r)
          else if c = CHR '','' then map_option (apfst ((#) m)) (parseMembers r)
          else None
      | _ \<Rightarrow> None)"
  by pat_completeness auto
termination
  by (relation "measure length") (auto dest: parseMember_shrinks)

declare parseMembers.simps [simp del]

definition parseObject :: "string \<Rightarrow> (string \<times> jvalue) list option" where
  "parseObject s =
     (case s of
        c # t \<Rightarrow> if c = CHR ''{'' then (case parseMembers t of Some (ms, []) \<Rightarrow> Some ms | _ \<Rightarrow> None) else None
      | _ \<Rightarrow> None)"

text \<open>What an object becomes on the way.\<close>

definition validValue :: "jvalue \<Rightarrow> jvalue" where
  "validValue v = (case v of JText s \<Rightarrow> JText (toValid s) | JNumber i \<Rightarrow> JNumber i)"

definition goodValue :: "jvalue \<Rightarrow> bool" where
  "goodValue v = (case v of JText s \<Rightarrow> True | JNumber i \<Rightarrow> inInt64 i)"

lemma formatInt_shape:
  "\<exists>c ds. formatInt i = c # ds \<and> (c = CHR ''-'' \<or> isDigit c) \<and> c \<noteq> dquote \<and> (\<forall>d \<in> set ds. isDigit d)"
proof -
  have digits: "\<forall>d \<in> set (decimal n). isDigit d" for n using decimal_digits [of n] by (simp add: list_all_iff)
  show ?thesis
  proof (cases "i < 0")
    case True
    then show ?thesis using digits by (simp add: formatInt_def dquote_def)
  next
    case False
    obtain c ds where "decimal (nat i) = c # ds" by (cases "decimal (nat i)") simp_all
    then show ?thesis using False digits [of "nat i"] by (auto simp: formatInt_def dquote_def isDigit_def)
  qed
qed

lemma parseValue_text:
  assumes "goodValue v" "c \<in> {CHR '','', CHR ''}''}"
  shows "parseValue (jsonValueText v @ c # t) = Some (validValue v, c # t)"
proof (cases v)
  case (JText s)
  then show ?thesis by (simp add: parseValue_def jsonValueText_def jsonUnquote_body validValue_def)
next
  case (JNumber i)
  obtain d ds where i: "formatInt i = d # ds" "d = CHR ''-'' \<or> isDigit d" "d \<noteq> dquote" "\<forall>x \<in> set ds. isDigit x"
    using formatInt_shape [of i] by blast
  have c: "\<not> isDigit c" using assms(2) by (auto simp: isDigit_def)
  have "takeWhile isDigit (ds @ c # t) = ds" "dropWhile isDigit (ds @ c # t) = c # t"
    using i(4) c by (simp_all add: takeWhile_append dropWhile_append3 takeWhile_eq_all_conv dropWhile_append2)
  then show ?thesis
    using JNumber i assms(1) atoi_formatInt [of i] by (simp add: parseValue_def jsonValueText_def validValue_def goodValue_def)
qed

lemma parseMember_text:
  assumes "goodValue v" "toValid k = k" "c \<in> {CHR '','', CHR ''}''}"
  shows "parseMember (dquote # jsonBody k @ dquote # CHR '':'' # jsonValueText v @ c # t) = Some ((k, validValue v), c # t)"
  using parseValue_text [OF assms(1,3)] by (simp add: parseMember_def jsonUnquote_body assms(2))

lemma parseMembers_text:
  "ms \<noteq> [] \<Longrightarrow> \<forall>(k, v) \<in> set ms. goodValue v \<and> toValid k = k \<Longrightarrow>
   parseMembers (jsonMembersText ms @ t) = Some (map (apsnd validValue) ms, t)"
proof (induction ms rule: jsonMembersText.induct)
  case (2 k v)
  then show ?case by (subst parseMembers.simps) (simp add: parseMember_text)
next
  case (3 k v m ms)
  then show ?case by (subst parseMembers.simps) (simp add: parseMember_text)
qed simp

lemma parseObject_text:
  "ms \<noteq> [] \<Longrightarrow> \<forall>(k, v) \<in> set ms. goodValue v \<and> toValid k = k \<Longrightarrow>
   parseObject (jsonObject ms) = Some (map (apsnd validValue) ms)"
  using parseMembers_text [of ms "[]"] by (simp add: parseObject_def jsonObject_def)

text \<open>A parse never looks beyond what it consumes, so a proper prefix of an object is none.\<close>

lemma jsonUnquote_more: "jsonUnquote s = Some (u, r) \<Longrightarrow> jsonUnquote (s @ t) = Some (u, r @ t)"
proof (induction s arbitrary: u r rule: jsonUnquote.induct)
  case (2 c s)
  show ?case
  proof (cases s)
    case Nil
    then show ?thesis using 2 by (auto split: if_splits)
  next
    case (Cons e s')
    have hex: "length s' \<ge> 4" if "hex4 (take 4 s') = Some x" for x
    proof (rule ccontr)
      assume "\<not> 4 \<le> length s'"
      then have "length (map hexVal (take 4 s')) < 4" by simp
      then show False using that by (auto simp: hex4_def split: list.splits option.splits)
    qed
    show ?thesis
      using 2 Cons hex by (fastforce split: if_splits option.splits)
  qed
qed simp

lemma parseValue_more: "parseValue s = Some (v, r) \<Longrightarrow> r \<noteq> [] \<Longrightarrow> parseValue (s @ t) = Some (v, r @ t)"
  by (auto simp: parseValue_def jsonUnquote_more dropWhile_eq_Nil_conv takeWhile_append dropWhile_append
      split: list.splits if_splits)

lemma parseMember_Some:
  "parseMember s = Some (m, r) \<longleftrightarrow>
   (\<exists>k v t u. m = (k, v) \<and> s = dquote # t \<and> jsonUnquote t = Some (k, CHR '':'' # u) \<and> parseValue u = Some (v, r))"
  by (auto simp: parseMember_def split: list.split option.split)

lemma parseMember_more:
  assumes "parseMember s = Some (m, r)" "r \<noteq> []"
  shows "parseMember (s @ t) = Some (m, r @ t)"
proof -
  obtain k v p u where m: "m = (k, v)" "s = dquote # p" "jsonUnquote p = Some (k, CHR '':'' # u)" "parseValue u = Some (v, r)"
    using assms(1) by (auto simp: parseMember_Some)
  then have "jsonUnquote (p @ t) = Some (k, CHR '':'' # u @ t)" "parseValue (u @ t) = Some (v, r @ t)"
    using jsonUnquote_more [OF m(3), of t] parseValue_more [OF m(4) assms(2), of t] by simp_all
  then show ?thesis using m(1,2) by (simp add: parseMember_Some)
qed

lemma parseMembers_more: "parseMembers s = Some (ms, r) \<Longrightarrow> parseMembers (s @ t) = Some (ms, r @ t)"
proof (induction s arbitrary: ms rule: parseMembers.induct)
  case (1 s)
  obtain m c u where m: "parseMember s = Some (m, c # u)"
    using 1(2) by (subst (asm) parseMembers.simps) (auto split: option.splits list.splits)
  have more: "parseMember (s @ t) = Some (m, c # u @ t)" using parseMember_more [OF m, of t] by simp
  show ?case
  proof (cases "c = CHR '',''")
    case True
    then obtain ms' where "parseMembers u = Some (ms', r)" "ms = m # ms'"
      using 1(2) m by (subst (asm) parseMembers.simps) auto
    then show ?thesis using 1(1) [OF m] more True by (subst parseMembers.simps) simp
  next
    case False
    then show ?thesis using 1(2) m more by (subst (asm) parseMembers.simps, subst parseMembers.simps) (auto split: if_splits)
  qed
qed

lemma parseObject_part:
  assumes "parseObject s = Some ms" "n < length s"
  shows "parseObject (take n s) = None"
proof (rule ccontr)
  assume "parseObject (take n s) \<noteq> None"
  then obtain p ms' where p: "take n s = CHR ''{'' # p" "parseMembers p = Some (ms', [])"
    by (auto simp: parseObject_def split: list.splits if_splits option.splits)
  have s: "s = CHR ''{'' # p @ drop n s" using append_take_drop_id [of n s] unfolding p(1) by simp
  have "parseMembers (p @ drop n s) = Some (ms', drop n s)" using parseMembers_more [OF p(2)] by simp
  moreover have "parseMembers (p @ drop n s) = Some (ms, [])"
  proof -
    have "parseObject (CHR ''{'' # p @ drop n s) = Some ms" using assms(1) s by simp
    then show ?thesis by (auto simp: parseObject_def split: option.splits list.splits)
  qed
  ultimately show False using assms(2) by simp
qed

section \<open>Events\<close>

fun stateName :: "JobState \<Rightarrow> string" where
  "stateName JobPending = ''PENDING''"
| "stateName JobPreparing = ''PREPARING''"
| "stateName JobRunning = ''RUNNING''"
| "stateName JobDraining = ''DRAINING''"
| "stateName JobCompleted = ''COMPLETED''"
| "stateName JobCancelled = ''CANCELLED''"
| "stateName JobFailed = ''FAILED''"
| "stateName JobLost = ''LOST''"

definition stateNamed :: "string \<Rightarrow> JobState option" where
  "stateNamed s = find (\<lambda>st. stateName st = s)
     [JobPending, JobPreparing, JobRunning, JobDraining, JobCompleted, JobCancelled, JobFailed, JobLost]"

fun eventMembers :: "Event \<Rightarrow> (string \<times> jvalue) list" where
  "eventMembers (EventState st) = [(''type'', JText ''state''), (''state'', JText (stateName st))]"
| "eventMembers (EventStderr l) = (''type'', JText ''stderr'') # (if l = [] then [] else [(''line'', JText l)])"
| "eventMembers (EventExit None) = [(''type'', JText ''exit'')]"
| "eventMembers (EventExit (Some c)) = [(''type'', JText ''exit''), (''code'', JNumber c)]"
| "eventMembers EventHeartbeat = [(''type'', JText ''heartbeat'')]"
| "eventMembers (EventUnknown t) = [(''type'', JText t)]"

definition encodeEvent :: "Event \<Rightarrow> string" where
  "encodeEvent ev = jsonObject (eventMembers ev)"

text \<open>The fields of the decoded struct; a member of another type is an error, an unknown one is skipped.\<close>

record fields =
  ef_type :: string
  ef_state :: string
  ef_line :: string
  ef_code :: "int option"

definition setField :: "string \<times> jvalue \<Rightarrow> fields \<Rightarrow> fields option" where
  "setField m f =
     (case m of (k, v) \<Rightarrow>
        if k = ''type'' then (case v of JText s \<Rightarrow> Some (f\<lparr>ef_type := s\<rparr>) | JNumber i \<Rightarrow> None)
        else if k = ''state'' then (case v of JText s \<Rightarrow> Some (f\<lparr>ef_state := s\<rparr>) | JNumber i \<Rightarrow> None)
        else if k = ''line'' then (case v of JText s \<Rightarrow> Some (f\<lparr>ef_line := s\<rparr>) | JNumber i \<Rightarrow> None)
        else if k = ''code'' then (case v of JText s \<Rightarrow> None | JNumber i \<Rightarrow> Some (f\<lparr>ef_code := Some i\<rparr>))
        else Some f)"

fun setFields :: "(string \<times> jvalue) list \<Rightarrow> fields \<Rightarrow> fields option" where
  "setFields [] f = Some f"
| "setFields (m # ms) f = (case setField m f of None \<Rightarrow> None | Some g \<Rightarrow> setFields ms g)"

definition eventOf :: "fields \<Rightarrow> Event" where
  "eventOf f =
     (if ef_type f = ''state'' then
        (case stateNamed (ef_state f) of Some st \<Rightarrow> EventState st | None \<Rightarrow> EventUnknown ''state'')
      else if ef_type f = ''stderr'' then EventStderr (ef_line f)
      else if ef_type f = ''exit'' then EventExit (ef_code f)
      else if ef_type f = ''heartbeat'' then EventHeartbeat
      else EventUnknown (ef_type f))"

definition decodeEvent :: "string \<Rightarrow> Event option" where
  "decodeEvent l =
     (case parseObject l of
        None \<Rightarrow> None
      | Some ms \<Rightarrow> map_option eventOf (setFields ms \<lparr>ef_type = [], ef_state = [], ef_line = [], ef_code = None\<rparr>))"

text \<open>The events a stream carries whole: valid text, a 64-bit exit code, a line the reader accepts.\<close>

definition wellText :: "Event \<Rightarrow> bool" where
  "wellText ev = (case ev of EventStderr l \<Rightarrow> toValid l = l | EventExit (Some c) \<Rightarrow> inInt64 c | EventUnknown t \<Rightarrow> False | _ \<Rightarrow> True)"

definition sendable :: "Event \<Rightarrow> bool" where
  "sendable ev \<longleftrightarrow> wellText ev \<and> length (encodeEvent ev) < MaxLineSize"

lemma toValid_ascii: "\<forall>c \<in> set s. ord c < 128 \<Longrightarrow> toValid s = s"
  by (induction s) (auto simp: runeLen_def Let_def)

lemma toValid_names [simp]:
  "toValid ''type'' = ''type''" "toValid ''state'' = ''state''" "toValid ''stderr'' = ''stderr''"
  "toValid ''line'' = ''line''" "toValid ''exit'' = ''exit''" "toValid ''code'' = ''code''"
  "toValid ''heartbeat'' = ''heartbeat''" "toValid (stateName st) = stateName st"
  by (cases st; rule toValid_ascii; simp)+

lemma stateNamed_name [simp]: "stateNamed (stateName st) = Some st"
  by (cases st) (simp_all add: stateNamed_def)

lemma decode_encode: "wellText ev \<Longrightarrow> decodeEvent (encodeEvent ev) = Some ev"
proof -
  assume ok: "wellText ev"
  have members: "eventMembers ev \<noteq> []" "\<forall>(k, v) \<in> set (eventMembers ev). goodValue v \<and> toValid k = k"
    using ok by (cases ev rule: eventMembers.cases; simp add: goodValue_def wellText_def del: toValid.simps)+
  show ?thesis
    using ok unfolding decodeEvent_def encodeEvent_def parseObject_text [OF members]
    by (cases ev rule: eventMembers.cases)
      (simp_all add: validValue_def wellText_def setField_def eventOf_def del: toValid.simps)
qed

lemma hexChar_printable: "d < 16 \<Longrightarrow> 32 \<le> ord (hexChar d)"
proof -
  assume "d < 16"
  then have "hexChar d \<in> set ''0123456789abcdef''" unfolding hexChar_def by (intro nth_mem) simp
  then show ?thesis by auto
qed

lemma jsonEsc_printable:
  assumes "ord c < 128" "x \<in> set (jsonEsc c)"
  shows "32 \<le> ord x"
proof (cases "plainJson c")
  case True
  then show ?thesis using assms(2) by (simp add: jsonEsc_def plainJson_def)
next
  case False
  show ?thesis
  proof (cases "map_of escapes2 c")
    case None
    then have "x \<in> {backslash, CHR ''u'', CHR ''0'', hexChar (ord c div 16), hexChar (ord c mod 16)}"
      using assms(2) False by (simp add: jsonEsc_def)
    moreover have "32 \<le> ord (hexChar (ord c div 16))" "32 \<le> ord (hexChar (ord c mod 16))"
      using assms(1) by (intro hexChar_printable; simp)+
    ultimately show ?thesis by (auto simp: backslash_def)
  next
    case (Some e)
    have "\<forall>m \<in> set escapes2. 32 \<le> ord (snd m)" by (simp add: escapes2_def dquote_def backslash_def)
    then have "32 \<le> ord e" using map_of_SomeD [OF Some] by force
    moreover have "x = backslash \<or> x = e" using assms(2) False Some by (simp add: jsonEsc_def)
    ultimately show ?thesis by (auto simp: backslash_def)
  qed
qed

lemma jsonRune_printable: "\<forall>x \<in> set r. 128 \<le> ord x \<Longrightarrow> x \<in> set (jsonRune r) \<Longrightarrow> 32 \<le> ord x"
  by (fastforce simp: jsonRune_def backslash_def lineSeps_def split: if_splits)

lemma jsonBody_printable: "x \<in> set (jsonBody s) \<Longrightarrow> 32 \<le> ord x"
proof (induction s rule: jsonBody.induct)
  case (2 c s)
  let ?n = "runeLen (c # s)"
  consider "ord c < 128" | "\<not> ord c < 128" "?n = 0" | "\<not> ord c < 128" "?n \<noteq> 0" by blast
  then show ?case
  proof cases
    case 1
    then show ?thesis using 2 by (auto dest: jsonEsc_printable)
  next
    case 2
    then show ?thesis using "2.prems" "2.IH"(2) [OF 2(1) refl 2(2)] by (auto simp: backslash_def)
  next
    case 3
    have "\<forall>x \<in> set (take ?n (c # s)). 128 \<le> ord x" using 3 by (intro runeLen_high [OF _ refl]) auto
    then show ?thesis
      using "2.prems" "2.IH"(3) [OF 3(1) refl 3(2)] 3 jsonRune_printable [of "take ?n (c # s)" x]
      by (auto simp: Let_def)
  qed
qed simp

lemma jsonValueText_printable: "x \<in> set (jsonValueText v) \<Longrightarrow> 32 \<le> ord x"
proof (cases v)
  case (JText s)
  then show "x \<in> set (jsonValueText v) \<Longrightarrow> ?thesis" by (auto simp: jsonValueText_def dquote_def dest: jsonBody_printable)
next
  case (JNumber i)
  obtain c ds where "formatInt i = c # ds" "c = CHR ''-'' \<or> isDigit c" "\<forall>d \<in> set ds. isDigit d"
    using formatInt_shape [of i] by blast
  then show "x \<in> set (jsonValueText v) \<Longrightarrow> ?thesis" using JNumber by (auto simp: jsonValueText_def isDigit_def)
qed

lemma jsonMembersText_printable: "x \<in> set (jsonMembersText ms) \<Longrightarrow> 32 \<le> ord x"
  by (induction ms rule: jsonMembersText.induct)
    (auto simp: dquote_def dest: jsonBody_printable jsonValueText_printable)

interpretation eventjson: line_codec encodeEvent decodeEvent sendable
proof
  fix ev n
  assume ev: "sendable ev"
  then show dec: "decodeEvent (encodeEvent ev) = Some ev" by (simp add: sendable_def decode_encode)
  show "newline \<notin> set (encodeEvent ev) \<and> carriage \<notin> set (encodeEvent ev)"
    using jsonMembersText_printable [of newline "eventMembers ev"] jsonMembersText_printable [of carriage "eventMembers ev"]
    by (auto simp: encodeEvent_def jsonObject_def newline_def carriage_def)
  show "encodeEvent ev \<noteq> [] \<and> length (encodeEvent ev) < MaxLineSize"
    using ev by (simp add: sendable_def) (simp add: encodeEvent_def jsonObject_def)
  assume "n < length (encodeEvent ev)"
  then show "decodeEvent (take n (encodeEvent ev)) = None"
    using dec parseObject_part [of "encodeEvent ev" _ n] by (auto simp: decodeEvent_def split: option.splits)
qed

section \<open>The lifeline end to end\<close>


lemma stateName_length: "length (stateName st) \<le> 9"
  by (cases st) simp_all

lemma jsonBody_plain: "\<forall>c \<in> set l. plainJson c \<Longrightarrow> jsonBody l = l"
  by (induction l) (auto simp: jsonEsc_def plainJson_def)

lemma jsonBody_names [simp]:
  "jsonBody ''type'' = ''type''" "jsonBody ''state'' = ''state''" "jsonBody ''stderr'' = ''stderr''"
  "jsonBody ''line'' = ''line''" "jsonBody ''heartbeat'' = ''heartbeat''" "jsonBody (stateName st) = stateName st"
  by (cases st; rule jsonBody_plain; simp add: plainJson_def dquote_def backslash_def)+

lemma sendable_state [simp]: "sendable (EventState st)"
  using stateName_length [of st]
  by (simp add: sendable_def wellText_def encodeEvent_def jsonObject_def jsonValueText_def MaxLineSize_def del: jsonBody.simps)

lemma sendable_heartbeat [simp]: "sendable EventHeartbeat"
  by (simp add: sendable_def wellText_def encodeEvent_def jsonObject_def jsonValueText_def MaxLineSize_def del: jsonBody.simps)


text \<open>The stderr of the transcoder is scanned with the same limit; the JSON around a line makes it longer.\<close>

lemma encode_stderr:
  "l \<noteq> [] \<Longrightarrow> \<forall>c \<in> set l. plainJson c \<Longrightarrow> length (encodeEvent (EventStderr l)) = length l + 27"
  by (simp add: encodeEvent_def jsonObject_def jsonValueText_def jsonBody_plain del: jsonBody.simps)

text \<open>C39: A stderr line of the transcoder a few bytes below the limit of 1 MiB is mirrored by the worker, but as an
  event its line is too long for the shim's reader: the stream ends there for the shim, with an
  error, whatever follows.\<close>

theorem long_stderr_ends_lifeline:
  assumes "\<forall>c \<in> set l. plainJson c" "length l < MaxLineSize" "MaxLineSize \<le> length l + 27"
  shows "fst (scanLines MaxLineSize broken (l @ [newline])) = [l] \<and>
    (\<forall>before rest. (\<forall>ev \<in> set before. sendable ev) \<longrightarrow>
       receivedEvents decodeEvent broken (wholeLines encodeEvent (before @ [EventStderr l]) @ rest) = (before, LineTooLong))"
proof (intro conjI allI impI)
  have l: "l \<noteq> []" using assms(3) by (auto simp: MaxLineSize_def)
  have "\<not> plainJson newline" "\<not> plainJson carriage" by (simp_all add: plainJson_def newline_def carriage_def)
  then have "newline \<notin> set l" "carriage \<notin> set l" using assms(1) by blast+
  then show "fst (scanLines MaxLineSize broken (l @ [newline])) = [l]"
    using assms(2) l by (subst scanLines.simps) (simp add: eventjson.takeWhile_line eventjson.dropCR_line Let_def, simp add: scanLines.simps)
  fix before rest
  assume ok: "\<forall>ev \<in> set before. sendable ev"
  let ?line = "encodeEvent (EventStderr l)"
  have "newline \<notin> set ?line"
    using jsonMembersText_printable [of newline "eventMembers (EventStderr l)"]
    by (auto simp: encodeEvent_def jsonObject_def newline_def)
  then have "receivedEvents decodeEvent broken (?line @ newline # rest) = ([], LineTooLong)"
    using encode_stderr [OF l assms(1)] assms(3) unfolding receivedEvents_def
    by (subst scanLines.simps) (simp add: eventjson.takeWhile_line Let_def)
  then show "receivedEvents decodeEvent broken (wholeLines encodeEvent (before @ [EventStderr l]) @ rest) = (before, LineTooLong)"
    using eventjson.received_lines [OF ok, of broken "?line @ newline # rest"] by (simp add: wholeLines_snoc)
qed

lemma long_stderr_ends_lifeline_witness:
  "receivedEvents decodeEvent False
     (wholeLines encodeEvent [EventHeartbeat, EventStderr (replicate (MaxLineSize - 1) CHR ''a'')]) = ([EventHeartbeat], LineTooLong)"
proof -
  define l where "l = replicate (MaxLineSize - 1) CHR ''a''"
  have "0 < MaxLineSize" by (simp add: MaxLineSize_def)
  then have len: "length l < MaxLineSize" "MaxLineSize \<le> length l + 27" by (simp_all add: l_def)
  have "set l \<subseteq> {CHR ''a''}" unfolding l_def by (simp only: set_replicate_conv_if) auto
  moreover have "plainJson CHR ''a''" by (simp add: plainJson_def dquote_def backslash_def)
  ultimately have "\<forall>c \<in> set l. plainJson c" by blast
  note l = this len
  show ?thesis
    using long_stderr_ends_lifeline [OF l, of False, THEN conjunct2, rule_format, of "[EventHeartbeat]" "[]"]
    unfolding l_def [symmetric] append_Cons append_Nil append_Nil2 by (metis empty_iff empty_set insert_iff list.simps(15) sendable_heartbeat)
qed

end
