(* ===== verification/Subst.thy ===== *)
theory Subst
  imports Protocol "HOL-Library.AList" "HOL-Library.List_Lexorder" "HOL-Library.Char_ord"
begin

text \<open>
  \<^verbatim>\<open>internal/workerd/subst.go\<close>: the placeholders of a dispatched argv and the environment of
  the transcoder.  The media map is an association list with distinct keys in the order the
  run time iterates it in; a substitution error is the index of the offending token.
\<close>

definition placeholderPlexDir :: string where "placeholderPlexDir = ''{{PLEXDIR}}''"

definition substToken :: "string \<Rightarrow> string \<Rightarrow> string \<Rightarrow> (string \<times> string) list \<Rightarrow> string \<Rightarrow> string" where
  "substToken outDir proxyBase plexDir media tok =
     (let tok1 = replaceAll tok PlaceholderOutDir outDir;
          tok2 = replaceAll tok1 PlaceholderPMS proxyBase;
          tok3 = replaceAll tok2 placeholderPlexDir plexDir
      in foldl (\<lambda>t (ph, val). replaceAll t ph val) tok3 media)"

fun substLoop :: "(string \<Rightarrow> string) \<Rightarrow> nat \<Rightarrow> string list \<Rightarrow> nat + string list" where
  "substLoop sub i [] = Inr []"
| "substLoop sub i (tok # toks) =
     (if contains (sub tok) ''{{MEDIA:'' then Inl i
      else case substLoop sub (Suc i) toks of Inl e \<Rightarrow> Inl e | Inr out \<Rightarrow> Inr (sub tok # out))"

definition substituteArgv ::
  "string list \<Rightarrow> string \<Rightarrow> string \<Rightarrow> string \<Rightarrow> (string \<times> string) list \<Rightarrow> nat + string list" where
  "substituteArgv argv outDir proxyBase plexDir media =
     substLoop (substToken outDir proxyBase plexDir media) 0 argv"

section \<open>The environment\<close>

definition envPair :: "string \<times> string \<Rightarrow> string" where
  "envPair kv = fst kv @ ''='' @ snd kv"

definition overrides :: "string \<Rightarrow> string \<Rightarrow> string \<Rightarrow> string \<Rightarrow> string \<Rightarrow> (string \<times> string) list" where
  "overrides homeDir codecsDir eaeRoot plexLibDir driverDriDir =
     [(''FFMPEG_EXTERNAL_LIBS'', trimSuffix codecsDir ''/'' @ ''/''), (''EAE_ROOT'', eaeRoot),
      (''HOME'', homeDir), (''LD_LIBRARY_PATH'', plexLibDir)] @
     (if driverDriDir \<noteq> [] then [(''LIBVA_DRIVERS_PATH'', driverDriDir), (''LIBVA_DRIVER_NAME'', ''iHD'')] else [])"

text \<open>The map before it is sorted, and the sorted list.\<close>

definition envMap ::
  "(string \<times> string) list \<Rightarrow> string \<Rightarrow> string \<Rightarrow> string \<Rightarrow> string \<Rightarrow> string \<Rightarrow> (string \<times> string) list" where
  "envMap reqEnv homeDir codecsDir eaeRoot plexLibDir driverDriDir =
     fold (\<lambda>(k, v). AList.update k v) (overrides homeDir codecsDir eaeRoot plexLibDir driverDriDir)
       (AList.delete ''LIBVA_DRIVER_NAME'' (AList.delete ''LIBVA_DRIVERS_PATH'' reqEnv))"

definition buildEnv ::
  "(string \<times> string) list \<Rightarrow> string \<Rightarrow> string \<Rightarrow> string \<Rightarrow> string \<Rightarrow> string \<Rightarrow> string list" where
  "buildEnv reqEnv homeDir codecsDir eaeRoot plexLibDir driverDriDir =
     map envPair (sort_key fst (envMap reqEnv homeDir codecsDir eaeRoot plexLibDir driverDriDir))"

section \<open>Simultaneous substitution\<close>

text \<open>
  The reference: one pass from left to right that replaces every placeholder by its value
  and copies everything else.
\<close>

function simul :: "(string \<times> string) list \<Rightarrow> string \<Rightarrow> string" where
  "simul m s =
     (case s of
        [] \<Rightarrow> []
      | c # cs \<Rightarrow>
          (case find (\<lambda>kv. fst kv \<noteq> [] \<and> prefix (fst kv) s) m of
             Some kv \<Rightarrow> snd kv @ simul m (drop (length (fst kv)) s)
           | None \<Rightarrow> c # simul m cs))"
  by pat_completeness auto
termination
proof (relation "measure (\<lambda>(m, s). length s)")
  fix m s c cs kv
  assume "s = c # cs" "find (\<lambda>kv. fst kv \<noteq> [] \<and> prefix (fst kv) s) m = Some kv"
  then show "((m, drop (length (fst kv)) s), m, s) \<in> measure (\<lambda>(m, s). length s)"
    by (auto simp: find_Some_iff)
qed auto

declare simul.simps [simp del]

definition keyChar :: "char \<Rightarrow> bool" where
  "keyChar c \<longleftrightarrow> isUpper c \<or> isDigit c \<or> c \<in> {CHR ''{'', CHR ''}'', CHR '':''}"

text \<open>A placeholder, and a value that cannot make or break one.\<close>

definition isPlaceholder :: "string \<Rightarrow> bool" where
  "isPlaceholder k \<longleftrightarrow> (\<exists>w. k = ''{{'' @ w @ ''}}'' \<and> list_all keyChar w \<and> CHR ''{'' \<notin> set w \<and> CHR ''}'' \<notin> set w)"

definition safeValue :: "string \<Rightarrow> bool" where
  "safeValue v \<longleftrightarrow> v \<noteq> [] \<and> \<not> keyChar (hd v) \<and> CHR ''{'' \<notin> set v"

definition safeSubst :: "(string \<times> string) list \<Rightarrow> bool" where
  "safeSubst m \<longleftrightarrow> distinct (map fst m) \<and> (\<forall>(k, v) \<in> set m. isPlaceholder k \<and> safeValue v)"

lemma isPlaceholder_chars: "isPlaceholder k \<Longrightarrow> c \<in> set k \<Longrightarrow> keyChar c"
  by (auto simp: isPlaceholder_def list_all_iff keyChar_def)

lemma isPlaceholder_hd: "isPlaceholder k \<Longrightarrow> \<exists>r. k = CHR ''{'' # CHR ''{'' # r"
  by (auto simp: isPlaceholder_def)

lemma safeSubst_key: "safeSubst m \<Longrightarrow> (k, v) \<in> set m \<Longrightarrow> k \<noteq> []"
  using isPlaceholder_hd [of k] by (auto simp: safeSubst_def)

text \<open>Two placeholders that start at the same place are equal.\<close>

lemma isPlaceholder_prefix:
  assumes "isPlaceholder k" "isPlaceholder k'" "prefix k s" "prefix k' s"
  shows "k = k'"
proof -
  let ?f = "\<lambda>t. takeWhile (\<lambda>c. c \<noteq> CHR ''}'') t"
  have f: "?f (a @ CHR ''}'' # b) = a" if "CHR ''}'' \<notin> set a" for a b
    using that by (induction a) auto
  obtain w w' where w: "k = ''{{'' @ w @ ''}}''" "CHR ''}'' \<notin> set w" "k' = ''{{'' @ w' @ ''}}''" "CHR ''}'' \<notin> set w'"
    using assms(1,2) unfolding isPlaceholder_def by blast
  from assms(3) obtain r where "s = k @ r" by (auto simp: prefix_def)
  then have s: "s = ''{{'' @ w @ CHR ''}'' # CHR ''}'' # r" using w(1) by simp
  from assms(4) obtain r' where "s = k' @ r'" by (auto simp: prefix_def)
  then have "s = ''{{'' @ w' @ CHR ''}'' # CHR ''}'' # r'" using w(3) by simp
  with s have "?f (''{{'' @ w @ CHR ''}'' # CHR ''}'' # r) = ?f (''{{'' @ w' @ CHR ''}'' # CHR ''}'' # r')" by simp
  then have "w = w'" using f [OF w(2)] f [OF w(4)] by simp
  with w show ?thesis by simp
qed

text \<open>A placeholder does not start inside another one.\<close>

lemma isPlaceholder_inside:
  assumes "isPlaceholder k" "isPlaceholder k'" "k = c # a @ b" "b \<noteq> []"
  shows "\<not> prefix k' (b @ s)"
proof
  assume p: "prefix k' (b @ s)"
  obtain r where r: "k' = CHR ''{'' # CHR ''{'' # r" using isPlaceholder_hd [OF assms(2)] by blast
  obtain w where w: "k = ''{{'' @ w @ ''}}''" "CHR ''{'' \<notin> set w" using assms(1) unfolding isPlaceholder_def by blast
  have ab: "a @ b = CHR ''{'' # (w @ ''}}'')" using w(1) assms(3) by simp
  have no: "CHR ''{'' \<notin> set (w @ ''}}'')" using w(2) by simp
  from p r have b: "hd (b @ s) = CHR ''{''" "hd (tl (b @ s)) = CHR ''{''" by (auto simp: prefix_def)
  show False
  proof (cases a)
    case Nil
    with ab have "b = CHR ''{'' # (w @ ''}}'')" by simp
    with b(2) no show False by (cases w) auto
  next
    case (Cons x a')
    with ab have "a' @ b = w @ ''}}''" by simp
    with no have "CHR ''{'' \<notin> set (a' @ b)" by simp
    with b(1) assms(4) show False by (cases b) auto
  qed
qed

text \<open>One more placeholder: replacing it in the simultaneous result is substituting it too.\<close>

lemma simul_Nil [simp]: "simul m [] = []"
  by (subst simul.simps) simp

lemma simul_hit:
  assumes "safeSubst m" "(k, v) \<in> set m"
  shows "simul m (k @ s) = v @ simul m s"
proof -
  have k: "isPlaceholder k" "k \<noteq> []" using assms isPlaceholder_hd by (auto simp: safeSubst_def)
  obtain c cs where cs: "k @ s = c # cs" using k(2) by (cases k) auto
  obtain kv where kv: "find (\<lambda>kv. fst kv \<noteq> [] \<and> prefix (fst kv) (k @ s)) m = Some kv"
    using assms(2) k(2) by (cases "find (\<lambda>kv. fst kv \<noteq> [] \<and> prefix (fst kv) (k @ s)) m") (auto simp: find_None_iff)
  then have "kv \<in> set m" "prefix (fst kv) (k @ s)" by (auto simp: find_Some_iff)
  moreover have "isPlaceholder (fst kv)" using \<open>kv \<in> set m\<close> assms(1) by (auto simp: safeSubst_def)
  ultimately have "fst kv = k" using isPlaceholder_prefix [OF _ k(1)] by (simp add: prefix_def)
  with \<open>kv \<in> set m\<close> assms have "kv = (k, v)"
    by (metis eq_key_imp_eq_value prod.collapse safeSubst_def)
  moreover have "drop (length k) (c # cs) = s" unfolding cs [symmetric] by simp
  ultimately show ?thesis using kv unfolding cs by (subst simul.simps) simp
qed

lemma simul_miss:
  assumes "\<forall>kv \<in> set m. \<not> prefix (fst kv) (c # s)"
  shows "simul m (c # s) = c # simul m s"
proof -
  have "find (\<lambda>kv. fst kv \<noteq> [] \<and> prefix (fst kv) (c # s)) m = None" using assms by (auto simp: find_None_iff)
  then show ?thesis by (subst simul.simps) simp
qed

text \<open>How the simultaneous result goes on, by cases.\<close>

lemma simul_cases:
  assumes "safeSubst m"
  obtains "s = []" | c s' where "s = c # s'" "simul m s = c # simul m s'" "\<forall>kv \<in> set m. \<not> prefix (fst kv) s"
    | k v r where "(k, v) \<in> set m" "s = k @ r" "simul m s = v @ simul m r"
proof (cases s)
  case Nil
  with that(1) show ?thesis by blast
next
  case (Cons c s')
  show ?thesis
  proof (cases "\<forall>kv \<in> set m. \<not> prefix (fst kv) s")
    case True
    with that(2) [OF Cons] simul_miss [of m c s'] show ?thesis unfolding Cons by blast
  next
    case False
    then obtain k v r where "(k, v) \<in> set m" "s = k @ r" by (auto simp: prefix_def)
    with that(3) simul_hit [OF assms] show ?thesis by blast
  qed
qed

lemma prefix_simul:
  assumes "safeSubst m"
  shows "list_all keyChar p \<Longrightarrow> prefix p (simul m s) \<Longrightarrow> prefix p s"
proof (induction p arbitrary: s)
  case (Cons x p)
  from assms show ?case
  proof (cases rule: simul_cases [where s = s])
    case 1
    with Cons.prems show ?thesis by simp
  next
    case (2 c s')
    with Cons show ?thesis by simp
  next
    case (3 k v r)
    with assms have "safeValue v" by (auto simp: safeSubst_def)
    then obtain d vs where "v = d # vs" "\<not> keyChar d" by (cases v) (auto simp: safeValue_def)
    with 3(3) Cons.prems show ?thesis by simp
  qed
qed simp

lemma simul_skip:
  assumes "safeSubst m" "isPlaceholder k" "k \<notin> fst ` set m"
  shows "k = a @ b \<Longrightarrow> simul m (b @ r) = b @ simul m r"
proof (induction b arbitrary: a)
  case (Cons c b)
  have "\<not> prefix (fst kv) ((c # b) @ r)" if kv: "kv \<in> set m" for kv
  proof -
    have ph: "isPlaceholder (fst kv)" using kv assms(1) by (auto simp: safeSubst_def)
    show ?thesis
    proof (cases a)
      case Nil
      then have "prefix k ((c # b) @ r)" using Cons.prems by simp
      with isPlaceholder_prefix [OF ph assms(2)] kv assms(3) show ?thesis by blast
    next
      case (Cons x a')
      with Cons.prems isPlaceholder_inside [OF assms(2) ph, of x a' "c # b"] show ?thesis by simp
    qed
  qed
  then have "simul m ((c # b) @ r) = c # simul m (b @ r)" using simul_miss [of m c "b @ r"] by simp
  with Cons.IH [of "a @ [c]"] Cons.prems show ?case by simp
qed simp

lemma replaceAll_skip:
  assumes "isPlaceholder k"
  shows "CHR ''{'' \<notin> set a \<Longrightarrow> replaceAll (a @ s) k v = a @ replaceAll s k v"
proof (induction a)
  case (Cons c a)
  obtain r where "k = CHR ''{'' # CHR ''{'' # r" using isPlaceholder_hd [OF assms] by blast
  with Cons have "\<not> prefix k (c # a @ s)" by auto
  with Cons show ?case by (simp add: replaceAll_miss)
qed simp

lemma safeSubst_snoc: "safeSubst (m @ [(k, v)]) \<Longrightarrow>
  safeSubst m \<and> isPlaceholder k \<and> safeValue v \<and> k \<notin> fst ` set m"
  by (auto simp: safeSubst_def)

lemma simul_step:
  assumes "safeSubst (m @ [(k, v)])"
  shows "replaceAll (simul m s) k v = simul (m @ [(k, v)]) s"
proof (induction "length s" arbitrary: s rule: less_induct)
  case less
  note kv = safeSubst_snoc [OF assms]
  have k: "k \<noteq> []" using kv isPlaceholder_hd by blast
  from assms show ?case
  proof (cases rule: simul_cases [where s = s])
    case 1
    then show ?thesis by simp
  next
    case (2 c s')
    then have m: "simul m s = c # simul m s'" by (simp add: simul_miss)
    have "\<not> prefix k (c # simul m s')"
    proof
      assume "prefix k (c # simul m s')"
      moreover have "list_all keyChar k" using kv isPlaceholder_chars by (auto simp: list_all_iff)
      ultimately have "prefix k s" using prefix_simul [of m k s] kv m by simp
      with 2(3) show False by auto
    qed
    then have "replaceAll (simul m s) k v = c # replaceAll (simul m s') k v"
      unfolding m by (rule replaceAll_miss)
    with less [of s'] 2 show ?thesis by simp
  next
    case (3 k1 v1 r)
    have "k1 \<noteq> []" using safeSubst_key [OF assms 3(1)] .
    with 3(2) have len: "length r < length s" by simp
    show ?thesis
    proof (cases "k1 = k")
      case True
      with 3(1) assms have "v1 = v" by (auto simp: safeSubst_def image_iff)
      moreover have "simul m s = k @ simul m r"
        using simul_skip [of m k "[]" k r] kv 3(2) True by simp
      ultimately show ?thesis using less [OF len] 3(3) k by (simp add: replaceAll_hit)
    next
      case False
      with 3(1) have "(k1, v1) \<in> set m" by auto
      with kv 3(2) have "simul m s = v1 @ simul m r" "CHR ''{'' \<notin> set v1"
        by (auto simp: simul_hit safeSubst_def safeValue_def)
      with less [OF len] 3(3) kv show ?thesis by (simp add: replaceAll_skip)
    qed
  qed
qed

lemma simul_empty: "simul [] s = s"
proof (induction s)
  case (Cons c s)
  then show ?case using simul_miss [of "[]" c s] by simp
qed simp

lemma foldl_replaceAll:
  "safeSubst (m @ n) \<Longrightarrow> foldl (\<lambda>t (ph, val). replaceAll t ph val) (simul m s) n = simul (m @ n) s"
proof (induction n arbitrary: m)
  case (Cons kv n)
  obtain k v where kv: "kv = (k, v)" by (cases kv)
  have "safeSubst (m @ [(k, v)])" using Cons.prems unfolding kv by (auto simp: safeSubst_def)
  with Cons.IH [of "m @ [(k, v)]"] Cons.prems show ?case by (simp add: kv simul_step)
qed simp

text \<open>The simultaneous result depends on the bindings only, not on their order.\<close>

lemma simul_order:
  assumes "safeSubst m" "safeSubst n" "set m = set n"
  shows "simul m s = simul n s"
proof (induction "length s" arbitrary: s rule: less_induct)
  case less
  from assms(1) show ?case
  proof (cases rule: simul_cases [where s = s])
    case 1
    then show ?thesis by simp
  next
    case (2 c s')
    with assms(3) have "simul n s = c # simul n s'" by (simp add: simul_miss)
    with 2 less [of s'] show ?thesis by simp
  next
    case (3 k v r)
    have "k \<noteq> []" using safeSubst_key [OF assms(1) 3(1)] .
    with 3 simul_hit [OF assms(2)] assms(3) less [of r] show ?thesis by simp
  qed
qed

section \<open>The argv\<close>

definition fixedSubst :: "string \<Rightarrow> string \<Rightarrow> string \<Rightarrow> (string \<times> string) list" where
  "fixedSubst outDir proxyBase plexDir =
     [(PlaceholderOutDir, outDir), (PlaceholderPMS, proxyBase), (placeholderPlexDir, plexDir)]"

lemma substToken_simul:
  assumes "safeSubst (fixedSubst outDir proxyBase plexDir @ media)"
  shows "substToken outDir proxyBase plexDir media tok = simul (fixedSubst outDir proxyBase plexDir @ media) tok"
proof -
  have "substToken outDir proxyBase plexDir media tok =
      foldl (\<lambda>t (ph, val). replaceAll t ph val) (simul [] tok) (fixedSubst outDir proxyBase plexDir @ media)"
    by (simp add: substToken_def fixedSubst_def simul_empty)
  also have "\<dots> = simul (fixedSubst outDir proxyBase plexDir @ media) tok"
    using foldl_replaceAll [of "[]" "fixedSubst outDir proxyBase plexDir @ media" tok] assms by (simp only: append_Nil)
  finally show ?thesis .
qed

lemma substLoop_Inr:
  "substLoop sub i toks = Inr out \<longleftrightarrow> (\<forall>tok \<in> set toks. \<not> contains (sub tok) ''{{MEDIA:'') \<and> out = map sub toks"
proof (induction toks arbitrary: i out)
  case (Cons tok toks)
  show ?case
  proof (cases "substLoop sub (Suc i) toks")
    case (Inl e)
    then have "\<not> (\<forall>tok \<in> set toks. \<not> contains (sub tok) ''{{MEDIA:'')" using Cons.IH [of "Suc i" "map sub toks"] by simp
    with Inl show ?thesis by simp
  next
    case (Inr out')
    with Cons.IH [of "Suc i" out'] show ?thesis by auto
  qed
qed auto

lemma all_less_Suc_shift: "(\<forall>j < Suc n. P j) \<longleftrightarrow> P 0 \<and> (\<forall>j < n. P (Suc j))"
  by (auto simp: less_Suc_eq_0_disj)

lemma substLoop_Inl:
  "substLoop sub i toks = Inl e \<Longrightarrow> i \<le> e \<and> e - i < length toks \<and> contains (sub (toks ! (e - i))) ''{{MEDIA:'' \<and>
     (\<forall>j < e - i. \<not> contains (sub (toks ! j)) ''{{MEDIA:'')"
proof (induction toks arbitrary: i)
  case (Cons tok toks)
  show ?case
  proof (cases "contains (sub tok) ''{{MEDIA:''")
    case True
    with Cons.prems show ?thesis by simp
  next
    case False
    with Cons.prems have "substLoop sub (Suc i) toks = Inl e" by (auto split: sum.splits)
    note ih = Cons.IH [OF this]
    then have "Suc i \<le> e" by blast
    then have e: "e - i = Suc (e - Suc i)" by simp
    from ih False show ?thesis unfolding e by (simp add: all_less_Suc_shift)
  qed
qed simp

text \<open>C27: The argv substitution, a chain of replacements in an order the run time picks for the media, is
  one simultaneous substitution: every placeholder of a token is replaced by its value and
  the values are not searched again; it succeeds exactly if no token still refers to a media
  input, fails at the first one that does, and does not depend on the order of the media.\<close>

theorem substituteArgv_simultaneous:
  assumes "safeSubst (fixedSubst outDir proxyBase plexDir @ media)"
  defines "result \<equiv> simul (fixedSubst outDir proxyBase plexDir @ media)"
  shows "(\<forall>out. substituteArgv argv outDir proxyBase plexDir media = Inr out \<longleftrightarrow>
      (\<forall>tok \<in> set argv. \<not> contains (result tok) ''{{MEDIA:'') \<and> out = map result argv) \<and>
    (\<forall>i. substituteArgv argv outDir proxyBase plexDir media = Inl i \<longrightarrow>
      i < length argv \<and> contains (result (argv ! i)) ''{{MEDIA:'' \<and>
      (\<forall>j < i. \<not> contains (result (argv ! j)) ''{{MEDIA:'')) \<and>
    (\<forall>media'. distinct (map fst media') \<and> set media' = set media \<longrightarrow>
      substituteArgv argv outDir proxyBase plexDir media' = substituteArgv argv outDir proxyBase plexDir media)"
proof -
  have sub: "substToken outDir proxyBase plexDir media = result"
    using substToken_simul [OF assms(1)] unfolding result_def by (intro ext)
  have same: "substToken outDir proxyBase plexDir media' = result"
    if "distinct (map fst media')" "set media' = set media" for media'
  proof -
    let ?f = "fixedSubst outDir proxyBase plexDir"
    have set: "set (?f @ media') = set (?f @ media)" using that(2) by simp
    have "fst ` set media' = fst ` set media" using that(2) by simp
    then have safe: "safeSubst (?f @ media')"
      using assms(1) that by (auto simp: safeSubst_def)
    show ?thesis
      using substToken_simul [OF safe] simul_order [OF safe assms(1) set] unfolding result_def by (intro ext) simp
  qed
  show ?thesis
    unfolding substituteArgv_def sub using substLoop_Inr [of result] substLoop_Inl [of result 0] same by simp
qed

definition demoMedia :: "(string \<times> string) list" where
  "demoMedia = [(''{{MEDIA:0}}'', ''http://m/0''), (''{{MEDIA:1}}'', ''/s/m1.srt'')]"

lemma demo_safe: "safeSubst (fixedSubst ''/o'' ''http://p'' ''/x'' @ demoMedia)"
proof -
  have "isPlaceholder ''{{OUTDIR}}''" "isPlaceholder ''{{PMS}}''" "isPlaceholder ''{{PLEXDIR}}''"
    "isPlaceholder ''{{MEDIA:0}}''" "isPlaceholder ''{{MEDIA:1}}''"
    unfolding isPlaceholder_def
    by (rule exI [of _ "''OUTDIR''"] exI [of _ "''PMS''"] exI [of _ "''PLEXDIR''"] exI [of _ "''MEDIA:0''"]
        exI [of _ "''MEDIA:1''"], simp add: keyChar_def isUpper_def isDigit_def; fail)+
  moreover have "safeValue ''/o''" "safeValue ''http://p''" "safeValue ''/x''" "safeValue ''http://m/0''" "safeValue ''/s/m1.srt''"
    by (simp_all add: safeValue_def keyChar_def isUpper_def isDigit_def)
  ultimately show ?thesis
    by (simp add: safeSubst_def fixedSubst_def demoMedia_def PlaceholderOutDir_def PlaceholderPMS_def placeholderPlexDir_def)
qed

lemma substituteArgv_simultaneous_witness:
  "substituteArgv [''{{MEDIA:2}}''] ''/o'' ''http://p'' ''/x'' (rev demoMedia) =
   substituteArgv [''{{MEDIA:2}}''] ''/o'' ''http://p'' ''/x'' demoMedia"
  proof -
  have "distinct (map fst (rev demoMedia))" by (simp add: demoMedia_def)
  then have "distinct (map fst (rev demoMedia)) \<and> set (rev demoMedia) = set demoMedia" by simp
  with substituteArgv_simultaneous [OF demo_safe, of "[''{{MEDIA:2}}'']"] show ?thesis by blast
qed

section \<open>The environment\<close>

lemma map_of_fold_update:
  "map_of (fold (\<lambda>(k, v). AList.update k v) us env) k = (case map_of (rev us) k of Some v \<Rightarrow> Some v | None \<Rightarrow> map_of env k)"
  by (induction us arbitrary: env) (auto simp: update_conv' map_add_def split: option.splits)

lemma distinct_fold_update:
  "distinct (map fst env) \<Longrightarrow> distinct (map fst (fold (\<lambda>(k, v). AList.update k v) us env))"
  by (induction us arbitrary: env) (auto simp: distinct_update)

text \<open>The environment of the transcoder has sorted, distinct keys; codecs, EAE root, home and library
  path are always the worker's own, the driver variables are the worker's or absent, and every
  other variable is the dispatched one.\<close>

theorem buildEnv_retargets:
  assumes "distinct (map fst reqEnv)"
  shows "\<exists>env. buildEnv reqEnv homeDir codecsDir eaeRoot plexLibDir driverDriDir = map envPair env \<and>
    sorted (map fst env) \<and> distinct (map fst env) \<and>
    (\<forall>k. map_of env k =
       (case map_of (overrides homeDir codecsDir eaeRoot plexLibDir driverDriDir) k of
          Some v \<Rightarrow> Some v
        | None \<Rightarrow> if k \<in> {''LIBVA_DRIVERS_PATH'', ''LIBVA_DRIVER_NAME''} then None else map_of reqEnv k))"
proof -
  let ?e = "envMap reqEnv homeDir codecsDir eaeRoot plexLibDir driverDriDir"
  let ?o = "overrides homeDir codecsDir eaeRoot plexLibDir driverDriDir"
  have d: "distinct (map fst ?e)"
    unfolding envMap_def by (intro distinct_fold_update distinct_delete assms)
  have "distinct (map fst ?o)" by (auto simp: overrides_def)
  then have "map_of (rev ?o) = map_of ?o" 
    by (intro map_of_inject_set [THEN iffD2]) (simp_all add: rev_map [symmetric])
  then have look: "map_of ?e k = (case map_of ?o k of Some v \<Rightarrow> Some v
      | None \<Rightarrow> if k \<in> {''LIBVA_DRIVERS_PATH'', ''LIBVA_DRIVER_NAME''} then None else map_of reqEnv k)" for k
    unfolding envMap_def map_of_fold_update by (auto simp: delete_conv' split: option.splits)
  have "map_of (sort_key fst ?e) = map_of ?e"
    using d by (intro map_of_inject_set [THEN iffD2]) (simp_all add: distinct_map)
  with d look show ?thesis
    by (intro exI [of _ "sort_key fst ?e"]) (simp add: buildEnv_def distinct_map)
qed

lemma buildEnv_retargets_witness:
  "\<exists>env. buildEnv [(''A'', ''1''), (''HOME'', ''/root''), (''LIBVA_DRIVER_NAME'', ''radeonsi'')] ''/j'' ''/c/'' ''/e'' ''/l'' [] =
       map envPair env \<and> map_of env ''HOME'' = Some ''/j'' \<and> map_of env ''LIBVA_DRIVER_NAME'' = None \<and>
       map_of env ''A'' = Some ''1''"
proof -
  let ?r = "[(''A'', ''1''), (''HOME'', ''/root''), (''LIBVA_DRIVER_NAME'', ''radeonsi'')]"
  have d: "distinct (map fst ?r)" by simp
  have o: "map_of (overrides ''/j'' ''/c/'' ''/e'' ''/l'' []) ''HOME'' = Some ''/j''"
    "map_of (overrides ''/j'' ''/c/'' ''/e'' ''/l'' []) ''LIBVA_DRIVER_NAME'' = None"
    "map_of (overrides ''/j'' ''/c/'' ''/e'' ''/l'' []) ''A'' = None"
    by (simp_all add: overrides_def)
  from buildEnv_retargets [OF d, of "''/j''" "''/c/''" "''/e''" "''/l''" "[]"] obtain env where
    e: "buildEnv ?r ''/j'' ''/c/'' ''/e'' ''/l'' [] = map envPair env"
    and look: "\<And>k. map_of env k = (case map_of (overrides ''/j'' ''/c/'' ''/e'' ''/l'' []) k of Some v \<Rightarrow> Some v
        | None \<Rightarrow> if k \<in> {''LIBVA_DRIVERS_PATH'', ''LIBVA_DRIVER_NAME''} then None else map_of ?r k)"
    by blast
  have "map_of env ''HOME'' = Some ''/j''" "map_of env ''LIBVA_DRIVER_NAME'' = None" "map_of env ''A'' = Some ''1''"
    unfolding look o by simp_all
  with e show ?thesis by blast
qed

end
