(* ===== verification/Tonemap.thy ===== *)
theory Tonemap
  imports Strconv
begin

text \<open>
  \<^verbatim>\<open>internal/workerd/tonemap.go\<close>: the rewrite of the software tonemap filtergraph.  \<open>None\<close>
  stands for "passed through unchanged".
\<close>

section \<open>The code\<close>

record fgChain =
  fg_in :: string
  fg_out :: string
  fg_filters :: "string list"

text \<open>\<^verbatim>\<open>strings.LastIndexByte\<close> as the text around the last occurrence.\<close>

definition cutLast :: "string \<Rightarrow> char \<Rightarrow> (string \<times> string) option" where
  "cutLast s c =
     (if c \<in> set s
      then Some (rev (tl (dropWhile (\<lambda>x. x \<noteq> c) (rev s))), rev (takeWhile (\<lambda>x. x \<noteq> c) (rev s)))
      else None)"

definition parseFGChain :: "string \<Rightarrow> fgChain option" where
  "parseFGChain s =
     (if \<not> hasPrefix s ''['' then None
      else case cut (tl s) '']'' of
          (i, rest, found) \<Rightarrow>
            if \<not> found \<or> \<not> hasSuffix rest '']'' then None
            else case cutLast (butlast rest) CHR ''['' of
                None \<Rightarrow> None
              | Some (body, out) \<Rightarrow>
                  if i = [] \<or> out = [] \<or> body = [] \<or> containsAny body ''[]'' then None
                  else Some \<lparr>fg_in = i, fg_out = out, fg_filters = splitOn CHR '','' body\<rparr>)"

definition isUint :: "string \<Rightarrow> bool" where
  "isUint s \<longleftrightarrow> s \<noteq> [] \<and> list_all isDigit s"

definition isVideoInputLabel :: "string \<Rightarrow> bool" where
  "isVideoInputLabel label =
     (case splitOn CHR '':'' label of
        [a, b] \<Rightarrow> isUint a \<and> (b = ''v'' \<or> isUint b)
      | [a, b, c] \<Rightarrow> isUint a \<and> b = ''v'' \<and> isUint c
      | _ \<Rightarrow> False)"

definition isPositiveInt :: "string \<Rightarrow> bool" where
  "isPositiveInt s \<longleftrightarrow> (case atoi s of Some n \<Rightarrow> n > 0 | None \<Rightarrow> False)"

fun scaleLoop :: "string list \<Rightarrow> string \<Rightarrow> string \<Rightarrow> (string \<times> string) option" where
  "scaleLoop [] w h = Some (w, h)"
| "scaleLoop (kv # kvs) w h =
     (case cut kv ''='' of
        (k, v, found) \<Rightarrow>
          if \<not> found then None
          else if k = ''w'' then scaleLoop kvs v h
          else if k = ''h'' then scaleLoop kvs w v
          else if k = ''force_divisible_by'' then scaleLoop kvs w h
          else None)"

definition scaleDims :: "string \<Rightarrow> (string \<times> string) option" where
  "scaleDims f =
     (case cutPrefix f ''scale='' of
        None \<Rightarrow> None
      | Some args \<Rightarrow>
          (case scaleLoop (splitOn CHR '':'' args) [] [] of
             None \<Rightarrow> None
           | Some (w, h) \<Rightarrow> if \<not> isPositiveInt w \<or> \<not> isPositiveInt h then None else Some (w, h)))"

fun parseAll :: "string list \<Rightarrow> fgChain list option" where
  "parseAll [] = Some []"
| "parseAll (s # ss) =
     (case parseFGChain s of
        None \<Rightarrow> None
      | Some c \<Rightarrow> (case parseAll ss of None \<Rightarrow> None | Some cs \<Rightarrow> Some (c # cs)))"

text \<open>Every chain consumes the output of the chain before it.\<close>

fun linked :: "fgChain list \<Rightarrow> bool" where
  "linked (c # d # cs) = (fg_in d = fg_out c \<and> linked (d # cs))"
| "linked _ = True"

definition vaapiGraph :: "string \<Rightarrow> string \<Rightarrow> string \<Rightarrow> string \<Rightarrow> string" where
  "vaapiGraph i w h out =
     ''['' @ i @ '']hwupload,scale_vaapi=w='' @ w @ '':h='' @ h @ '',tonemap_vaapi=format=nv12['' @ out @ '']''"

definition rewriteTonemapChain :: "string \<Rightarrow> string option" where
  "rewriteTonemapChain filterComplex =
     (case parseAll (splitOn CHR '';'' filterComplex) of
        None \<Rightarrow> None
      | Some cs \<Rightarrow>
          if \<not> isVideoInputLabel (fg_in (hd cs)) \<or> \<not> linked cs then None
          else case concat (map fg_filters cs) of
              [f0, f1, f2, f3, f4] \<Rightarrow>
                (case scaleDims f0 of
                   None \<Rightarrow> None
                 | Some (w, h) \<Rightarrow>
                     if f1 \<noteq> ''format=p010'' then None
                     else case cutPrefix f2 ''tonemap='' of
                         None \<Rightarrow> None
                       | Some curve \<Rightarrow>
                           if curve = [] \<or> containsAny curve '':='' then None
                           else if f3 \<noteq> ''format=pix_fmts=nv12'' \<or> f4 \<noteq> ''hwupload'' then None
                           else Some (vaapiGraph (fg_in (hd cs)) w h (fg_out (last cs))))
            | _ \<Rightarrow> None)"

text \<open>\<^verbatim>\<open>rewriteFilterComplex\<close> (job.go): the value of the first \<^verbatim>\<open>-filter_complex\<close>.\<close>

fun rewriteFilterComplex :: "string list \<Rightarrow> string list" where
  "rewriteFilterComplex (a # v # rest) =
     (if a = ''-filter_complex'' then a # (case rewriteTonemapChain v of Some r \<Rightarrow> r | None \<Rightarrow> v) # rest
      else a # rewriteFilterComplex (v # rest))"
| "rewriteFilterComplex argv = argv"

section \<open>Chains as text\<close>

definition printChain :: "fgChain \<Rightarrow> string" where
  "printChain c = ''['' @ fg_in c @ '']'' @ joinWith '','' (fg_filters c) @ ''['' @ fg_out c @ '']''"

definition validChain :: "fgChain \<Rightarrow> bool" where
  "validChain c \<longleftrightarrow> fg_in c \<noteq> [] \<and> CHR '']'' \<notin> set (fg_in c) \<and> fg_out c \<noteq> [] \<and> CHR ''['' \<notin> set (fg_out c) \<and>
     fg_filters c \<noteq> [] \<and> fg_filters c \<noteq> [[]] \<and>
     (\<forall>f \<in> set (fg_filters c). set f \<inter> set '',[]'' = {})"

lemma around_char: "c \<notin> set a \<Longrightarrow> takeWhile (\<lambda>x. x \<noteq> c) (a @ c # b) = a \<and> dropWhile (\<lambda>x. x \<noteq> c) (a @ c # b) = c # b"
  by (induction a) auto

lemma cutLast_Some: "cutLast s c = Some (a, b) \<longleftrightarrow> s = a @ c # b \<and> c \<notin> set b"
proof
  assume h: "cutLast s c = Some (a, b)"
  let ?d = "dropWhile (\<lambda>x. x \<noteq> c) (rev s)" and ?t = "takeWhile (\<lambda>x. x \<noteq> c) (rev s)"
  from h have c: "c \<in> set s" "a = rev (tl ?d)" "b = rev ?t" by (auto simp: cutLast_def split: if_splits)
  then have "?d \<noteq> []" "hd ?d = c" using hd_dropWhile [of "\<lambda>x. x \<noteq> c" "rev s"] by (auto simp: dropWhile_eq_Nil_conv)
  then have "?d = c # tl ?d" by (cases ?d) auto
  then have "rev s = ?t @ c # tl ?d" by (metis takeWhile_dropWhile_id)
  then have "s = rev (?t @ c # tl ?d)" by (metis rev_rev_ident)
  moreover have "c \<notin> set ?t" by (auto dest: set_takeWhileD)
  ultimately show "s = a @ c # b \<and> c \<notin> set b" using c by simp
next
  assume "s = a @ c # b \<and> c \<notin> set b"
  then have s: "rev s = rev b @ c # rev a" "c \<notin> set (rev b)" "c \<in> set s" by simp_all
  then have "takeWhile (\<lambda>x. x \<noteq> c) (rev s) = rev b" "dropWhile (\<lambda>x. x \<noteq> c) (rev s) = c # rev a"
    using around_char [OF s(2), of "rev a"] by (simp_all only:)
  with s(3) show "cutLast s c = Some (a, b)" by (simp add: cutLast_def)
qed

lemma cut_found: "cut s [c] = (a, b, True) \<longleftrightarrow> s = a @ c # b \<and> c \<notin> set a"
proof
  assume h: "cut s [c] = (a, b, True)"
  then have "a = takeWhile (\<lambda>x. x \<noteq> c) s" unfolding cut_char by (cases "c \<in> set s") simp_all
  then have "c \<notin> set a" using set_takeWhileD [of c "\<lambda>x. x \<noteq> c" s] by blast
  then show "s = a @ c # b \<and> c \<notin> set a" using cut_rebuild [OF h] by simp
qed (simp add: cut_char_append)

lemma joinWith_Nil_iff: "joinWith [c] xs = [] \<longleftrightarrow> xs = [] \<or> xs = [[]]"
  by (induction "[c]" xs rule: joinWith.induct) auto

lemma joinWith_part: "f \<in> set xs \<Longrightarrow> set f \<subseteq> set (joinWith sep xs)"
  by (induction sep xs rule: joinWith.induct) auto

lemma splitOn_set: "f \<in> set (splitOn c s) \<Longrightarrow> set f \<subseteq> set s"
  using joinWith_part [of f "splitOn c s" "[c]"] by (simp add: join_splitOn)

text \<open>The chain parser is exactly the inverse of the printer on valid chains.\<close>

lemma parseFGChain_Some: "parseFGChain s = Some c \<longleftrightarrow> validChain c \<and> s = printChain c"
proof
  assume h: "parseFGChain s = Some c"
  then have "hasPrefix s ''[''" by (auto simp: parseFGChain_def split: if_splits)
  then obtain s' where s: "s = CHR ''['' # s'" by (auto simp: prefix_def)
  obtain i rest found where cut: "cut s' '']'' = (i, rest, found)" by (metis surj_pair)
  from h s cut have found: "found" and suf: "hasSuffix rest '']''" by (auto simp: parseFGChain_def split: if_splits)
  then obtain r where rest: "rest = r @ '']''" by (auto simp: suffix_def)
  with h s cut found obtain body out where last: "cutLast r CHR ''['' = Some (body, out)"
    by (auto simp: parseFGChain_def split: if_splits option.splits)
  with h s cut found suf rest have c: "i \<noteq> []" "out \<noteq> []" "body \<noteq> []" "\<not> containsAny body ''[]''"
      "c = \<lparr>fg_in = i, fg_out = out, fg_filters = splitOn CHR '','' body\<rparr>"
    by (auto simp: parseFGChain_def split: if_splits)
  from cut found have i: "s' = i @ CHR '']'' # rest" "CHR '']'' \<notin> set i" by (simp_all add: cut_found)
  from last have r: "r = body @ CHR ''['' # out" "CHR ''['' \<notin> set out" by (simp_all add: cutLast_Some)
  have fs: "set f \<inter> set '',[]'' = {}" if f: "f \<in> set (splitOn CHR '','' body)" for f
    using splitOn_no_sep [OF f] splitOn_set [OF f] c(4) by (auto simp: containsAny_def)
  have "splitOn CHR '','' body \<noteq> [[]]" using c(3) join_splitOn [of "CHR '',''" body] by auto
  then have "validChain c" using c i r fs by (simp add: validChain_def)
  moreover have "s = printChain c"
    unfolding s i(1) rest r(1) using c(5) by (simp add: printChain_def join_splitOn)
  ultimately show "validChain c \<and> s = printChain c" ..
next
  assume h: "validChain c \<and> s = printChain c"
  let ?body = "joinWith '','' (fg_filters c)"
  have s: "s = CHR ''['' # (fg_in c @ CHR '']'' # ((?body @ CHR ''['' # fg_out c) @ '']''))"
    using h by (simp add: printChain_def)
  have cut: "cut (fg_in c @ CHR '']'' # ((?body @ CHR ''['' # fg_out c) @ '']'')) '']'' =
      (fg_in c, (?body @ CHR ''['' # fg_out c) @ '']'', True)"
    unfolding cut_found using h by (simp add: validChain_def)
  have last: "cutLast (?body @ CHR ''['' # fg_out c) CHR ''['' = Some (?body, fg_out c)"
    unfolding cutLast_Some using h by (simp add: validChain_def)
  have "set ?body \<subseteq> set '','' \<union> \<Union> (set ` set (fg_filters c))" by (rule set_joinWith)
  then have body: "\<not> containsAny ?body ''[]''" "?body \<noteq> []"
    using h joinWith_Nil_iff [of "CHR '',''" "fg_filters c"] by (auto simp: containsAny_def validChain_def)
  have split: "splitOn CHR '','' ?body = fg_filters c"
    using h by (intro splitOn_joinWith) (auto simp: validChain_def)
  have "parseFGChain s = Some \<lparr>fg_in = fg_in c, fg_out = fg_out c, fg_filters = splitOn CHR '','' ?body\<rparr>"
  proof -
    define r where "r = ?body @ CHR ''['' # fg_out c"
    have pre: "hasPrefix (CHR ''['' # x) ''[''" for x by simp
    have suf: "hasSuffix (r @ '']'') '']''" "butlast (r @ '']'') = r" by (simp_all add: suffix_def)
    show ?thesis
      unfolding s r_def [symmetric] parseFGChain_def list.sel cut [folded r_def] prod.case suf(2)
      using body h last [folded r_def] suf(1) pre by (simp add: validChain_def)
  qed
  then show "parseFGChain s = Some c" unfolding split by simp
qed

lemma parseAll_Some: "parseAll ss = Some cs \<longleftrightarrow> ss = map printChain cs \<and> list_all validChain cs"
proof (induction ss arbitrary: cs)
  case Nil
  then show ?case by auto
next
  case (Cons s ss)
  show ?case
  proof (cases cs)
    case Nil
    then show ?thesis by (auto split: option.splits)
  next
    case (Cons d ds)
    have "parseAll (s # ss) = Some (d # ds) \<longleftrightarrow> parseFGChain s = Some d \<and> parseAll ss = Some ds"
      by (auto split: option.splits)
    with Cons Cons.IH parseFGChain_Some show ?thesis by auto
  qed
qed

section \<open>What is rewritten\<close>

text \<open>The five filters of the known software chain, with the dimensions of its scale filter.\<close>

definition softwareFilters :: "string list \<Rightarrow> string \<Rightarrow> string \<Rightarrow> bool" where
  "softwareFilters fs w h \<longleftrightarrow>
     (\<exists>f0 curve. fs = [f0, ''format=p010'', ''tonemap='' @ curve, ''format=pix_fmts=nv12'', ''hwupload''] \<and>
        scaleDims f0 = Some (w, h) \<and> curve \<noteq> [] \<and> \<not> containsAny curve '':='')"

lemma rewritten_graph:
  assumes h: "rewriteTonemapChain g = Some t"
  shows "\<exists>cs w h. splitOn CHR '';'' g = map printChain cs \<and> list_all validChain cs \<and>
        isVideoInputLabel (fg_in (hd cs)) \<and> linked cs \<and> softwareFilters (concat (map fg_filters cs)) w h \<and>
        t = vaapiGraph (fg_in (hd cs)) w h (fg_out (last cs))"
proof -
  from h obtain cs where cs: "parseAll (splitOn CHR '';'' g) = Some cs" by (auto simp: rewriteTonemapChain_def split: option.splits)
  with h have l: "isVideoInputLabel (fg_in (hd cs))" "linked cs" by (auto simp: rewriteTonemapChain_def split: if_splits)
  with h cs have c: "(case concat (map fg_filters cs) of
              [f0, f1, f2, f3, f4] \<Rightarrow>
                (case scaleDims f0 of
                   None \<Rightarrow> None
                 | Some (w, h) \<Rightarrow>
                     if f1 \<noteq> ''format=p010'' then None
                     else case cutPrefix f2 ''tonemap='' of
                         None \<Rightarrow> None
                       | Some curve \<Rightarrow>
                           if curve = [] \<or> containsAny curve '':='' then None
                           else if f3 \<noteq> ''format=pix_fmts=nv12'' \<or> f4 \<noteq> ''hwupload'' then None
                           else Some (vaapiGraph (fg_in (hd cs)) w h (fg_out (last cs))))
            | _ \<Rightarrow> None) = Some t"
    by (simp add: rewriteTonemapChain_def)
  obtain f0 f1 f2 f3 f4 where fs: "concat (map fg_filters cs) = [f0, f1, f2, f3, f4]"
    using c by (auto split: list.splits)
  obtain w hh where dims: "scaleDims f0 = Some (w, hh)" using c unfolding fs by (cases "scaleDims f0") auto
  note c1 = c [unfolded fs list.case dims option.case prod.case]
  have f1: "f1 = ''format=p010''" using c1 by (cases "f1 = ''format=p010''") (simp_all only: simp_thms if_True option.simps)
  obtain curve where curve: "cutPrefix f2 ''tonemap='' = Some curve"
    using c1 unfolding f1 by (cases "cutPrefix f2 ''tonemap=''") simp_all
  note c2 = c1 [unfolded f1 curve option.case]
  have rest: "curve \<noteq> []" "\<not> containsAny curve '':=''" "f3 = ''format=pix_fmts=nv12''" "f4 = ''hwupload''"
      "t = vaapiGraph (fg_in (hd cs)) w hh (fg_out (last cs))"
    using c2 by (simp_all split: if_splits)
  have "softwareFilters (concat (map fg_filters cs)) w hh"
    unfolding softwareFilters_def fs f1 rest(3,4)
    using curve dims rest(1,2) unfolding cutPrefix_Some by blast
  with cs l rest(5) show ?thesis
    unfolding parseAll_Some by blast
qed

lemma known_graph:
  assumes "splitOn CHR '';'' g = map printChain cs" "list_all validChain cs"
    and "isVideoInputLabel (fg_in (hd cs))" "linked cs" "softwareFilters (concat (map fg_filters cs)) w h"
  shows "rewriteTonemapChain g = Some (vaapiGraph (fg_in (hd cs)) w h (fg_out (last cs)))"
proof -
  obtain f0 curve where cs: "concat (map fg_filters cs) = [f0, ''format=p010'', ''tonemap='' @ curve, ''format=pix_fmts=nv12'', ''hwupload'']"
      "scaleDims f0 = Some (w, h)" "curve \<noteq> []" "\<not> containsAny curve '':=''"
    using assms(5) unfolding softwareFilters_def by blast
  have parse: "parseAll (splitOn CHR '';'' g) = Some cs" unfolding parseAll_Some using assms(1,2) ..
  show ?thesis
    unfolding rewriteTonemapChain_def parse option.case cs(1,2) list.case prod.case cutPrefix_append
    using assms(3,4) cs(3,4) by simp
qed

text \<open>C28: The tonemap rewrite takes exactly the graphs of the known shape: semicolon-separated chains of
  one input and one output label, linked in a line, from a video input, whose filters in order
  are scale with positive numeric dimensions, format=p010, a bare tonemap curve,
  format=pix_fmts=nv12 and hwupload; it keeps the first input and the last output label and the
  dimensions.  Every other graph is left as it is.\<close>

theorem tonemap_exact:
  "rewriteTonemapChain g = Some t \<longleftrightarrow>
     (\<exists>cs w h. splitOn CHR '';'' g = map printChain cs \<and> list_all validChain cs \<and>
        isVideoInputLabel (fg_in (hd cs)) \<and> linked cs \<and> softwareFilters (concat (map fg_filters cs)) w h \<and>
        t = vaapiGraph (fg_in (hd cs)) w h (fg_out (last cs)))"
  using rewritten_graph known_graph by blast

text \<open>The graph of the package's comment.\<close>

lemma tonemap_demo:
  "rewriteTonemapChain ''[0:0]scale=w=8:h=6[a];[a]format=p010,tonemap=hable[b];[b]format=pix_fmts=nv12[c];[c]hwupload[o]'' =
     Some ''[0:0]hwupload,scale_vaapi=w=8:h=6,tonemap_vaapi=format=nv12[o]''"
  by code_simp

end
