(* ===== verification/Prepare.thy ===== *)
theory Prepare
  imports Daemon Subst Tonemap GoUrl Ndjson
begin

text \<open>
  The preparation and the start of the transcoder, from \<^verbatim>\<open>internal/workerd/job.go\<close>: the media
  of a request are resolved (spooled files are downloaded), the argv is substituted and
  rewritten, the environment assembled.  What a GET answers and whether a file can be written
  are functions; the spool directory is a map from paths to contents.
\<close>

section \<open>Spooling\<close>

definition outDir :: "WorkerdConfig \<Rightarrow> string \<Rightarrow> string" where
  "outDir cfg i = joinPath [jobDir cfg i, ''out'']"

definition spoolDir :: "WorkerdConfig \<Rightarrow> string \<Rightarrow> string" where
  "spoolDir cfg i = joinPath [jobDir cfg i, ''spool'']"

text \<open>
  \<^verbatim>\<open>url.Parse\<close> as far as its path and query are used: the fragment goes, the query is what
  follows the question mark, the path what follows the authority; a control character or a bad
  escape in the path is an error.  (The authority is not looked at.)
\<close>

definition parseURL :: "string \<Rightarrow> (string \<times> string) option" where
  "parseURL raw =
     (if \<exists>c \<in> set raw. ord c < 32 \<or> ord c = 127 then None
      else case cut (fst (cut raw ''#'')) ''?'' of
          (before, query, found) \<Rightarrow>
            let path = (case index before ''://'' of
                          None \<Rightarrow> before
                        | Some i \<Rightarrow> dropWhile (\<lambda>c. c \<noteq> CHR ''/'') (drop (i + 3) before))
            in map_option (\<lambda>p. (p, query)) (PathUnescape path))"

definition spoolExt :: "string \<Rightarrow> string" where
  "spoolExt rawURL =
     (case parseURL rawURL of
        None \<Rightarrow> []
      | Some (path, query) \<Rightarrow>
          let p = valuesGet ''path'' (parseQueryLax query) in if p \<noteq> [] then ext p else ext path)"

record download =
  dl_status :: int
  dl_body :: string
  dl_broken :: bool

definition spoolName :: "nat \<Rightarrow> string \<Rightarrow> string" where
  "spoolName idx rawURL = CHR ''m'' # decimal idx @ spoolExt rawURL"

text \<open>\<^verbatim>\<open>spool\<close>: the files afterwards and the local path, if it succeeded.\<close>

definition spool ::
  "(string \<Rightarrow> download option) \<Rightarrow> (string \<Rightarrow> bool) \<Rightarrow> string \<Rightarrow> nat \<Rightarrow> string \<Rightarrow> (string \<Rightarrow> string option)
     \<Rightarrow> (string \<Rightarrow> string option) \<times> string option" where
  "spool get writable sdir idx rawURL files =
     (case get rawURL of
        None \<Rightarrow> (files, None)
      | Some a \<Rightarrow>
          if dl_status a \<noteq> 200 then (files, None)
          else let local = joinPath [sdir, spoolName idx rawURL] in
            if \<not> writable local then (files, None)
            else (files(local \<mapsto> dl_body a), if dl_broken a then None else Some local))"

section \<open>Preparing\<close>

datatype prepError = ArgvTooShort | BadMediaKey string | SpoolFailed nat | UnknownMode nat | UnresolvedMedia nat

fun mediaLoop ::
  "(string \<Rightarrow> download option) \<Rightarrow> (string \<Rightarrow> bool) \<Rightarrow> string \<Rightarrow> (string \<times> MediaRef) list \<Rightarrow> (string \<times> string) list
     \<Rightarrow> (string \<Rightarrow> string option) \<Rightarrow> (string \<Rightarrow> string option) \<times> (prepError + (string \<times> string) list)" where
  "mediaLoop get writable sdir [] values files = (files, Inr values)"
| "mediaLoop get writable sdir ((k, ref) # rest) values files =
     (case atoi k of
        None \<Rightarrow> (files, Inl (BadMediaKey k))
      | Some i \<Rightarrow>
          if i < 0 then (files, Inl (BadMediaKey k))
          else let idx = nat i; ph = MediaPlaceholder idx in
            (case mr_Mode ref of
               MediaModeStream \<Rightarrow> mediaLoop get writable sdir rest (AList.update ph (mr_URL ref) values) files
             | MediaModeSpool \<Rightarrow>
                 (case spool get writable sdir idx (mr_URL ref) files of
                    (files1, None) \<Rightarrow> (files1, Inl (SpoolFailed idx))
                  | (files1, Some local) \<Rightarrow> mediaLoop get writable sdir rest (AList.update ph local values) files1)
             | MediaModeOther m \<Rightarrow> (files, Inl (UnknownMode idx))))"

definition prepare ::
  "WorkerdConfig \<Rightarrow> (string \<times> string) option \<Rightarrow> string option \<Rightarrow> (string \<Rightarrow> download option) \<Rightarrow> (string \<Rightarrow> bool) \<Rightarrow>
     JobRequest \<Rightarrow> (string \<Rightarrow> string option) \<Rightarrow> (string \<Rightarrow> string option) \<times> (prepError + string list \<times> string list)" where
  "prepare cfg hostPort driver get writable req files =
     (let i = jr_JobID req in
      if length (jr_Argv req) < 2 then (files, Inl ArgvTooShort)
      else case mediaLoop get writable (spoolDir cfg i) (sort_key fst (jr_Media req)) [] files of
          (files1, Inl e) \<Rightarrow> (files1, Inl e)
        | (files1, Inr values) \<Rightarrow>
            (case substituteArgv (jr_Argv req) (outDir cfg i) (proxyBase hostPort i) (wc_PlexDir cfg) values of
               Inl n \<Rightarrow> (files1, Inl (UnresolvedMedia n))
             | Inr argv \<Rightarrow>
                 let driverDir = (case driver of None \<Rightarrow> [] | Some d \<Rightarrow> d) in
                 (files1, Inr (if driverDir \<noteq> [] then rewriteFilterComplex argv else argv,
                    buildEnv (jr_Env req) (jobDir cfg i) (codecsDir cfg (jr_PlexBuild req)) (wc_EAERoot cfg)
                      (joinPath [wc_PlexDir cfg, ''lib'']) driverDir))))"

section \<open>The process\<close>

text \<open>\<^verbatim>\<open>startProcess\<close>: what is spawned; its stderr, line by line, becomes events.\<close>

record command =
  cmd_path :: string
  cmd_args :: "string list"
  cmd_dir :: string
  cmd_env :: "string list"

definition startProcess :: "WorkerdConfig \<Rightarrow> string \<Rightarrow> string list \<Rightarrow> string list \<Rightarrow> command" where
  "startProcess cfg i argv env =
     \<lparr>cmd_path = wc_TranscoderPath cfg, cmd_args = argv, cmd_dir = outDir cfg i, cmd_env = env\<rparr>"

definition publishStderr :: "string \<Rightarrow> Event" where
  "publishStderr line = EventStderr line"

definition mirrorStderr :: "bool \<Rightarrow> string \<Rightarrow> Event list" where
  "mirrorStderr broken bytes = map publishStderr (fst (scanLines (2 ^ 20) broken bytes))"

section \<open>Names of spooled files\<close>

lemma ext_chars: "CHR ''/'' \<notin> set (ext p)"
proof -
  have "CHR ''/'' \<notin> set (last (splitOn CHR ''/'' p))" by (rule splitOn_no_sep [of _ _ p]) simp
  then show ?thesis unfolding ext_def Let_def by (auto dest: set_takeWhileD)
qed

lemma ext_dot: "ext p = [] \<or> hd (ext p) = CHR ''.''"
  by (simp add: ext_def Let_def)

lemma spoolExt_chars: "CHR ''/'' \<notin> set (spoolExt u)"
  by (simp add: spoolExt_def ext_chars Let_def split: option.split prod.split)

lemma spoolExt_dot: "spoolExt u = [] \<or> hd (spoolExt u) = CHR ''.''"
  using ext_dot by (simp add: spoolExt_def Let_def split: option.split prod.split)

lemma spoolName_proper: "properComp (spoolName n u)"
proof -
  have "CHR ''/'' \<notin> set (decimal n)" using decimal_digits [of n] by (auto simp: list_all_iff isDigit_def)
  then show ?thesis using spoolExt_chars by (simp add: properComp_def spoolName_def)
qed

lemma spoolName_index: "spoolName n u = spoolName m v \<Longrightarrow> n = m"
proof -
  assume same: "spoolName n u = spoolName m v"
  have tw: "takeWhile isDigit (decimal k @ spoolExt w) = decimal k" for k w
    using decimal_digits [of k] spoolExt_dot [of w]
    by (cases "spoolExt w") (auto simp: list_all_iff takeWhile_append isDigit_def takeWhile_eq_all_conv)
  have "decimal n = decimal m" using same tw [of n u] tw [of m v] by (simp add: spoolName_def)
  then show ?thesis by (simp add: decimal_inj)
qed

lemma cleanAbs_jobDir:
  assumes "isAbs (wc_DataDir cfg)" "validID i"
  shows "cleanAbs (jobDir cfg i)"
proof -
  have "properComps [i]" using validID_proper [OF assms(2)] by simp
  from isUnder_joinPath(2) [OF jobDir_confined(2) [OF assms] this] show ?thesis by (simp add: jobDir_def)
qed

lemma cleanAbs_spoolDir: "isAbs (wc_DataDir cfg) \<Longrightarrow> validID i \<Longrightarrow> cleanAbs (spoolDir cfg i)"
  using isUnder_joinPath(2) [OF cleanAbs_jobDir, of cfg i "[''spool'']"] by (simp add: spoolDir_def properComp_def)

lemma spoolPath_under: "cleanAbs d \<Longrightarrow> isUnder d (joinPath [d, spoolName n u])"
  using isUnder_joinPath(1) [of d "[spoolName n u]"] spoolName_proper by simp

lemma spoolPath_index:
  assumes "cleanAbs d" "joinPath [d, spoolName n u] = joinPath [d, spoolName m v]"
  shows "n = m"
proof -
  obtain ds where ds: "properComps ds" "d = absPath ds" using assms(1) by (auto simp: cleanAbs_iff)
  have "absPath (ds @ [spoolName n u]) = absPath (ds @ [spoolName m v])"
    using assms(2) joinPath_absPath [OF ds(1), of "[spoolName n u]"] joinPath_absPath [OF ds(1), of "[spoolName m v]"]
      spoolName_proper ds(2) by simp
  then have "spoolName n u = spoolName m v"
    using absPath_inj [of "ds @ [spoolName n u]" "ds @ [spoolName m v]"] ds(1) spoolName_proper by simp
  then show ?thesis by (rule spoolName_index)
qed


section \<open>What a prepared job gets\<close>

definition mediaValue :: "string \<Rightarrow> nat \<Rightarrow> MediaRef \<Rightarrow> string" where
  "mediaValue sdir n ref =
     (case mr_Mode ref of MediaModeStream \<Rightarrow> mr_URL ref | _ \<Rightarrow> joinPath [sdir, spoolName n (mr_URL ref)])"

definition resolved :: "(string \<Rightarrow> download option) \<Rightarrow> string \<Rightarrow> (string \<Rightarrow> string option) \<Rightarrow> nat \<Rightarrow> MediaRef \<Rightarrow> bool" where
  "resolved get sdir files n ref =
     (case mr_Mode ref of
        MediaModeStream \<Rightarrow> True
      | MediaModeSpool \<Rightarrow>
          (\<exists>a. get (mr_URL ref) = Some a \<and> dl_status a = 200 \<and> \<not> dl_broken a \<and>
             files (joinPath [sdir, spoolName n (mr_URL ref)]) = Some (dl_body a))
      | MediaModeOther m \<Rightarrow> False)"

definition spoolOf :: "string \<Rightarrow> nat set \<Rightarrow> string set" where
  "spoolOf sdir ns = {joinPath [sdir, spoolName n u] |n u. n \<in> ns}"

definition indices :: "(string \<times> MediaRef) list \<Rightarrow> nat set" where
  "indices media = {n. decimal n \<in> fst ` set media}"

lemma indices_Cons: "indices ((decimal n, ref) # rest) = insert n (indices rest)"
  by (auto simp: indices_def decimal_inj)

lemma spool_Some:
  "spool get writable sdir n u files = (files1, Some local) \<Longrightarrow>
   local = joinPath [sdir, spoolName n u] \<and>
   (\<exists>a. get u = Some a \<and> dl_status a = 200 \<and> \<not> dl_broken a \<and> files1 = files(local \<mapsto> dl_body a))"
  by (auto simp: spool_def Let_def split: option.splits if_splits)

lemma spool_files:
  "fst (spool get writable sdir n u files) p \<noteq> files p \<Longrightarrow> p = joinPath [sdir, spoolName n u]"
  by (auto simp: spool_def Let_def split: option.splits if_splits)

lemma mediaLoop_frame:
  "fst (mediaLoop get writable sdir media vals files) p \<noteq> files p \<Longrightarrow> \<exists>n u. p = joinPath [sdir, spoolName n u]"
proof (induction get writable sdir media vals files rule: mediaLoop.induct)
  case (2 get writable sdir k ref rest vals files)
  show ?case
  proof (cases "atoi k")
    case None
    then show ?thesis using 2(3) by simp
  next
    case (Some i)
    obtain files1 out where s: "spool get writable sdir (nat i) (mr_URL ref) files = (files1, out)" by fastforce
    show ?thesis
    proof (cases "i < 0 \<or> mr_Mode ref \<noteq> MediaModeSpool")
      case True
      then show ?thesis using 2(1) 2(3) Some by (auto simp: Let_def split: MediaMode.splits if_splits)
    next
      case False
      have "files1 p \<noteq> files p \<Longrightarrow> ?thesis" using spool_files [of get writable sdir "nat i" "mr_URL ref" files p] s by auto
      then show ?thesis using 2(2) [OF Some _ refl refl] 2(3) Some False s
        by (cases "files1 p = files p") (auto simp: Let_def split: option.splits)
    qed
  qed
qed simp

lemma atoi_decimal_Some: "atoi (decimal n) = Some i \<Longrightarrow> i = int n"
proof -
  obtain c cs where d: "decimal n = c # cs" by (cases "decimal n") simp_all
  have "isDigit c" using decimal_hd [of n] d by simp
  then have "c \<noteq> CHR ''-''" "c \<noteq> CHR ''+''" by (auto simp: isDigit_def)
  then show "atoi (decimal n) = Some i \<Longrightarrow> ?thesis"
    using parseDigits_decimal [of n] d by (auto simp: atoi_def split: if_splits)
qed

lemma mediaLoop_ok:
  assumes "mediaLoop get writable sdir media vals files = (files', Inr vals')"
    and "cleanAbs sdir" "distinct (map fst media)" "\<forall>k \<in> fst ` set media. \<exists>n. k = decimal n"
    and "distinct (map fst vals)"
  shows "(\<forall>(k, ref) \<in> set media. \<exists>n. k = decimal n \<and> map_of vals' (MediaPlaceholder n) = Some (mediaValue sdir n ref) \<and>
       resolved get sdir files' n ref) \<and>
    (\<forall>ph. ph \<notin> MediaPlaceholder ` indices media \<longrightarrow> map_of vals' ph = map_of vals ph) \<and>
    (\<forall>p. p \<notin> spoolOf sdir (indices media) \<longrightarrow> files' p = files p) \<and> distinct (map fst vals')"
  using assms(1,3-5)
proof (induction media arbitrary: vals files)
  case Nil
  then show ?case by simp
next
  case (Cons m media)
  obtain k ref where m: "m = (k, ref)" by (cases m)
  obtain n where n: "k = decimal n" using Cons.prems(3) m by auto
  obtain i where i: "atoi k = Some i" "\<not> i < 0"
    using Cons.prems(1) m by (auto split: option.splits if_splits)
  have idx: "nat i = n" using atoi_decimal_Some [of n i] i n by simp
  let ?v = "mediaValue sdir n ref" and ?path = "joinPath [sdir, spoolName n (mr_URL ref)]"
  have fresh: "n \<notin> indices media" using Cons.prems(2) m n by (auto simp: indices_def)
  have rest: "distinct (map fst media)" "\<forall>k \<in> fst ` set media. \<exists>n. k = decimal n" using Cons.prems(2,3) by auto
  have ind: "indices ((k, ref) # media) = insert n (indices media)" unfolding n by (rule indices_Cons)
  obtain files1 where loop: "mediaLoop get writable sdir media (AList.update (MediaPlaceholder n) ?v vals) files1 = (files', Inr vals')"
    and files1: "files1 = files \<and> mr_Mode ref = MediaModeStream \<or>
      mr_Mode ref = MediaModeSpool \<and> (\<exists>a. get (mr_URL ref) = Some a \<and> dl_status a = 200 \<and> \<not> dl_broken a \<and> files1 = files(?path \<mapsto> dl_body a))"
  proof (cases "mr_Mode ref")
    case MediaModeStream
    then show ?thesis using that [of files] Cons.prems(1) m i idx by (simp add: Let_def mediaValue_def)
  next
    case MediaModeSpool
    obtain f out where s: "spool get writable sdir n (mr_URL ref) files = (f, out)" by fastforce
    then obtain local where out: "out = Some local" using Cons.prems(1) m i idx MediaModeSpool
      by (cases out) (simp_all add: Let_def)
    with spool_Some [OF s [unfolded out]] have "local = ?path"
        "\<exists>a. get (mr_URL ref) = Some a \<and> dl_status a = 200 \<and> \<not> dl_broken a \<and> f = files(?path \<mapsto> dl_body a)"
      by auto
    then show ?thesis
      using out Cons.prems(1) m i idx MediaModeSpool s by (intro that [of f]) (simp_all add: Let_def mediaValue_def)
  next
    case (MediaModeOther x)
    then show ?thesis using Cons.prems(1) m i idx by (simp add: Let_def)
  qed
  note ih = Cons.IH [OF loop rest distinct_update [OF Cons.prems(4)]]
  have "MediaPlaceholder n \<notin> MediaPlaceholder ` indices media"
    using fresh by (auto simp: MediaPlaceholder_def decimal_inj)
  then have "map_of vals' (MediaPlaceholder n) = map_of (AList.update (MediaPlaceholder n) ?v vals) (MediaPlaceholder n)"
    using ih by blast
  then have keep: "map_of vals' (MediaPlaceholder n) = Some ?v" by (simp add: update_conv')
  have "?path \<notin> spoolOf sdir (indices media)"
    using fresh spoolPath_index [OF assms(2)] by (auto simp: spoolOf_def)
  then have "files' ?path = files1 ?path" using ih by blast
  then have res: "resolved get sdir files' n ref"
    using files1 by (auto simp: resolved_def)
  have files: "files' p = files p" if "p \<notin> spoolOf sdir (insert n (indices media))" for p
  proof -
    have "p \<notin> spoolOf sdir (indices media)" "p \<noteq> ?path" using that by (auto simp: spoolOf_def)
    then show ?thesis using ih files1 by auto
  qed
  show ?case
    unfolding m ind using ih keep res files n by (auto simp: update_conv' simp del: map_of_eq_Some_iff)
qed


text \<open>Whatever the outcome, files are written directly below the job's spool directory only.\<close>

lemma prepare_confined:
  assumes "isAbs (wc_DataDir cfg)" "validID (jr_JobID req)"
    and "fst (prepare cfg hostPort driver get writable req files) p \<noteq> files p"
  shows "isUnder (spoolDir cfg (jr_JobID req)) p"
proof -
  have "fst (mediaLoop get writable (spoolDir cfg (jr_JobID req)) (sort_key fst (jr_Media req)) [] files) p \<noteq> files p"
    using assms(3) by (auto simp: prepare_def Let_def split: if_splits prod.splits sum.splits)
  then obtain n u where "p = joinPath [spoolDir cfg (jr_JobID req), spoolName n u]" using mediaLoop_frame by blast
  then show ?thesis using spoolPath_under [OF cleanAbs_spoolDir [OF assms(1,2)]] by simp
qed

text \<open>A request whose media keys are numbers and whose modes are known fails to be prepared only for a
  download or an unlisted placeholder.\<close>

definition goodMedia :: "(string \<times> MediaRef) list \<Rightarrow> bool" where
  "goodMedia ms \<longleftrightarrow> (\<forall>(k, ref) \<in> set ms. (\<exists>i \<ge> 0. atoi k = Some i) \<and> mr_Mode ref \<in> {MediaModeStream, MediaModeSpool})"

lemma goodMedia_Cons:
  "goodMedia ((k, ref) # ms) \<longleftrightarrow>
     (\<exists>i \<ge> 0. atoi k = Some i) \<and> mr_Mode ref \<in> {MediaModeStream, MediaModeSpool} \<and> goodMedia ms"
  by (simp add: goodMedia_def)

lemma mediaLoop_good:
  "goodMedia ms \<Longrightarrow> mediaLoop get writable sdir ms vals files = (files', Inl err) \<Longrightarrow> \<exists>n. err = SpoolFailed n"
proof (induction ms arbitrary: vals files)
  case Nil
  then show ?case by simp
next
  case (Cons m ms)
  obtain k ref where m: "m = (k, ref)" by (cases m)
  obtain i where i: "atoi k = Some i" "i \<ge> 0" using Cons.prems(1) by (auto simp: m goodMedia_Cons)
  have ms: "goodMedia ms" "mr_Mode ref \<in> {MediaModeStream, MediaModeSpool}"
    using Cons.prems(1) by (simp_all add: m goodMedia_Cons)
  obtain files1 r where sp: "spool get writable sdir (nat i) (mr_URL ref) files = (files1, r)" by fastforce
  from ms(2) consider "mr_Mode ref = MediaModeStream" | "mr_Mode ref = MediaModeSpool" by auto
  then show ?case
  proof cases
    case 1
    then show ?thesis using Cons.prems(2) Cons.IH [OF ms(1)] i by (simp add: m Let_def)
  next
    case 2
    then show ?thesis using Cons.prems(2) Cons.IH [OF ms(1)] i sp by (cases r) (auto simp: m Let_def)
  qed
qed

lemma prepare_error:
  assumes "goodMedia (jr_Media req)" "2 \<le> length (jr_Argv req)"
    and "prepare cfg hostPort driver get writable req files = (files', Inl err)"
  shows "\<exists>n. err = SpoolFailed n \<or> err = UnresolvedMedia n"
proof -
  have good: "goodMedia (sort_key fst (jr_Media req))" using assms(1) by (simp add: goodMedia_def)
  obtain files1 r where l: "mediaLoop get writable (spoolDir cfg (jr_JobID req)) (sort_key fst (jr_Media req)) [] files = (files1, r)"
    by fastforce
  show ?thesis
  proof (cases r)
    case (Inl e)
    then have "e = err" using assms(2,3) l by (simp add: prepare_def Let_def)
    then show ?thesis using mediaLoop_good [OF good] l Inl by blast
  next
    case (Inr vals)
    then show ?thesis using assms(2,3) l by (auto simp: prepare_def Let_def split: sum.splits)
  qed
qed

definition demoPrepared :: JobRequest where
  "demoPrepared = demoRequestJob\<lparr>jr_Argv := [''-i'', ''{{MEDIA:0}}''],
     jr_Media := [(''0'', \<lparr>mr_URL = ''http://m/0'', mr_Mode = MediaModeStream\<rparr>)]\<rparr>"

lemma demo_prepare:
  "case prepare demoConfig None None (\<lambda>u. None) (\<lambda>p. True) demoPrepared (\<lambda>p. None) of
     (f, Inr (argv, env)) \<Rightarrow> argv = [''-i'', ''http://m/0''] | _ \<Rightarrow> False"
  by code_simp


end
