(* ===== verification/Server.thy ===== *)
theory Server
  imports Masterd MediaFiles Workers Shim Provision Pusher Proxy
begin

text \<open>
  How the daemons start and which request reaches which handler: the route tables and start-up
  of \<^verbatim>\<open>internal/masterd/masterd.go\<close> and \<^verbatim>\<open>internal/workerd/workerd.go\<close>, and the choice of the role
  in \<^verbatim>\<open>cmd/prt/main.go\<close>.  \<^verbatim>\<open>http.ServeMux\<close> is modelled for the patterns the tables use; a path
  that is not clean is redirected, and a pattern with GET also takes HEAD.  The URLs that one
  process builds for another are routed by these tables.
\<close>

section \<open>The multiplexer\<close>

datatype seg = Lit string | Var | Rest

datatype 'h route = Route (rt_method: string) (rt_segs: "seg list") (rt_auth: bool) (rt_handler: 'h)

definition pathUnescapeOr :: "string \<Rightarrow> string" where
  "pathUnescapeOr s = (case PathUnescape s of Some t \<Rightarrow> t | None \<Rightarrow> s)"

fun matchSegs :: "seg list \<Rightarrow> string list \<Rightarrow> string list option" where
  "matchSegs [] [] = Some []"
| "matchSegs (Lit l # ss) (p # ps) = (if pathUnescapeOr p = l then matchSegs ss ps else None)"
| "matchSegs (Var # ss) (p # ps) =
     (if p = [] then None else map_option ((#) (pathUnescapeOr p)) (matchSegs ss ps))"
| "matchSegs [Rest] (p # ps) = Some [pathUnescapeOr (joinWith ''/'' (p # ps))]"
| "matchSegs _ _ = None"

definition methodMatches :: "string \<Rightarrow> string \<Rightarrow> bool" where
  "methodMatches pat m \<longleftrightarrow> m = pat \<or> pat = ''GET'' \<and> m = ''HEAD''"

definition cleanTarget :: "string \<Rightarrow> bool" where
  "cleanTarget p \<longleftrightarrow> isAbs p \<and> (clean p = p \<or> (clean p \<noteq> ''/'' \<and> p = clean p @ ''/''))"

datatype 'h served = Redirect | NotFound | MethodNotAllowed | Unauthorized | Handled_by 'h "string list"

definition serve ::
  "(string \<Rightarrow> string) \<Rightarrow> string \<Rightarrow> 'h route list \<Rightarrow> string \<Rightarrow> string \<Rightarrow> string \<Rightarrow> 'h served" where
  "serve digest token table m escapedPath auth =
     (if \<not> cleanTarget escapedPath then Redirect
      else let segs = splitOn CHR ''/'' (tl escapedPath);
               hits = filter (\<lambda>r. matchSegs (rt_segs r) segs \<noteq> None) table
        in if hits = [] then NotFound
           else (case find (\<lambda>r. methodMatches (rt_method r) m) hits of
                   None \<Rightarrow> MethodNotAllowed
                 | Some r \<Rightarrow>
                     if rt_auth r \<and> \<not> Middleware digest token auth then Unauthorized
                     else Handled_by (rt_handler r) (the (matchSegs (rt_segs r) segs))))"

section \<open>masterd\<close>

datatype masterHandler =
    HRegisterSession | HDeleteSession | HPutFile | HMedia | HCodecsManifest | HCodecsFile | HRelay | HWorkers

definition masterRoutes :: "masterHandler route list" where
  "masterRoutes =
     [Route ''POST'' [Lit ''v1'', Lit ''sessions''] True HRegisterSession,
      Route ''DELETE'' [Lit ''v1'', Lit ''sessions'', Var] True HDeleteSession,
      Route ''PUT'' [Lit ''v1'', Lit ''sessions'', Var, Lit ''files'', Rest] False HPutFile,
      Route ''GET'' [Lit ''v1'', Lit ''media''] False HMedia,
      Route ''GET'' [Lit ''v1'', Lit ''codecs'', Var, Lit ''manifest''] True HCodecsManifest,
      Route ''GET'' [Lit ''v1'', Lit ''codecs'', Var, Lit ''files'', Var] True HCodecsFile,
      Route ''GET'' [Lit ''relay'', Var, Rest] True HRelay,
      Route ''POST'' [Lit ''relay'', Var, Rest] True HRelay,
      Route ''GET'' [Lit ''v1'', Lit ''workers''] True HWorkers]"

definition routes :: "(string \<Rightarrow> string) \<Rightarrow> string \<Rightarrow> string \<Rightarrow> string \<Rightarrow> string \<Rightarrow> masterHandler served" where
  "routes digest token m path auth = serve digest token masterRoutes m path auth"

record server =
  sv_cfg :: MasterdConfig
  sv_token :: string
  sv_transcodeRoot :: string
  sv_mediaRoots :: "string list"
  sv_sessions :: sessionStore
  sv_workers :: "WorkerStatus list"

text \<open>\<^verbatim>\<open>newServer\<close>; \<open>pmsOk\<close> tells whether \<^verbatim>\<open>url.Parse\<close> accepts the PMS URL.\<close>

definition newServer :: "MasterdConfig \<Rightarrow> string \<Rightarrow> bool \<Rightarrow> server option" where
  "newServer cfg token pmsOk =
     (if \<not> pmsOk then None
      else Some \<lparr>sv_cfg = cfg, sv_token = token, sv_transcodeRoot = clean (mc_TranscodeRoot cfg),
                 sv_mediaRoots = map clean (mc_MediaRoots cfg),
                 sv_sessions = newSessionStore (mc_SessionTTLSec cfg * second),
                 sv_workers = newWorkerCache (mc_Workers cfg)\<rparr>)"

text \<open>
  The start of a daemon: it exits with a code, or serves.  \<open>flags\<close> is the parsed command line
  (\<open>None\<close>: it does not parse) with the path of the configuration, the other arguments are what
  the files hold.
\<close>

datatype 's started = Exit int | Serving 's

definition masterdRun :: "string option \<Rightarrow> MasterdConfig option \<Rightarrow> string option \<Rightarrow> bool \<Rightarrow> server started" where
  "masterdRun flags conf tokenFile pmsOk =
     (case flags of
        None \<Rightarrow> Exit 2
      | Some cfgPath \<Rightarrow>
          if cfgPath = [] then Exit 2
          else case LoadMasterd conf of
              Inl e \<Rightarrow> Exit 1
            | Inr cfg \<Rightarrow>
                (case LoadToken tokenFile of
                   None \<Rightarrow> Exit 1
                 | Some token \<Rightarrow>
                     (case newServer cfg token pmsOk of None \<Rightarrow> Exit 1 | Some s \<Rightarrow> Serving s)))"

section \<open>workerd\<close>

datatype workerHandler = HHealth | HCreateJob | HJobEvents | HDeleteJob | HProvision

definition authedRoutes :: "workerHandler route list" where
  "authedRoutes =
     [Route ''POST'' [Lit ''v1'', Lit ''jobs''] False HCreateJob,
      Route ''GET'' [Lit ''v1'', Lit ''jobs'', Var, Lit ''events''] False HJobEvents,
      Route ''DELETE'' [Lit ''v1'', Lit ''jobs'', Var] False HDeleteJob,
      Route ''POST'' [Lit ''v1'', Lit ''provision'', Var] False HProvision]"

text \<open>\<^verbatim>\<open>apiHandler\<close>: health is open, everything else goes through the middleware first.\<close>

definition apiHandler :: "(string \<Rightarrow> string) \<Rightarrow> string \<Rightarrow> string \<Rightarrow> string \<Rightarrow> string \<Rightarrow> workerHandler served" where
  "apiHandler digest token m path auth =
     (case serve digest token [Route ''GET'' [Lit ''v1'', Lit ''health''] False HHealth] m path auth of
        Redirect \<Rightarrow> Redirect
      | Handled_by h vs \<Rightarrow> Handled_by h vs
      | _ \<Rightarrow> if \<not> Middleware digest token auth then Unauthorized
             else serve digest token authedRoutes m path auth)"

text \<open>\<^verbatim>\<open>Run\<close>; serving hands the configuration, the token and the worker's own build to the daemon.\<close>

definition workerdRun ::
  "string option \<Rightarrow> WorkerdConfig option \<Rightarrow> string option \<Rightarrow> string option \<Rightarrow> (daemon \<times> string) started" where
  "workerdRun flags conf tokenFile versionFile =
     (case flags of
        None \<Rightarrow> Exit 2
      | Some cfgPath \<Rightarrow>
          if cfgPath = [] then Exit 2
          else case LoadWorkerd conf of
              Inl e \<Rightarrow> Exit 1
            | Inr cfg \<Rightarrow>
                (case LoadToken tokenFile of
                   None \<Rightarrow> Exit 1
                 | Some token \<Rightarrow>
                     (case plexBuildFromDir versionFile (wc_PlexDir cfg) of
                        None \<Rightarrow> Exit 1
                      | Some build \<Rightarrow> Serving (newDaemon cfg build, token))))"

section \<open>Serving and stopping\<close>

text \<open>What ends the service: a signal, a server that fails, or one that was closed.\<close>

datatype stopCause = StopSignal | ServeFailed | ServeClosed

definition masterdStop :: "stopCause \<Rightarrow> int" where
  "masterdStop cause = (case cause of ServeFailed \<Rightarrow> 1 | _ \<Rightarrow> 0)"

text \<open>\<^verbatim>\<open>serve\<close> of the worker: what it does in order, and whether it reports an error.\<close>

datatype daemonAct =
    MadeDir string | Listening string | Closed string | StartReaper | StartEAE | CancelDaemon

definition workerdServe :: "WorkerdConfig \<Rightarrow> (string \<Rightarrow> bool) \<Rightarrow> (string \<Rightarrow> bool) \<Rightarrow> stopCause \<Rightarrow> daemonAct list \<times> bool" where
  "workerdServe cfg mkdirOk listenOk cause =
     (let api = wc_Listen cfg; proxy = wc_ProxyListen cfg in
      if \<not> mkdirOk (jobsRoot cfg) then ([], True)
      else if \<not> mkdirOk (codecsRoot cfg) then ([MadeDir (jobsRoot cfg)], True)
      else let dirs = [MadeDir (jobsRoot cfg), MadeDir (codecsRoot cfg)] in
        if \<not> listenOk api then (dirs, True)
        else if \<not> listenOk proxy then (dirs @ [Listening api, Closed api], True)
        else (dirs @ [Listening api, Listening proxy, StartReaper, StartEAE, CancelDaemon, Closed api, Closed proxy],
              cause = ServeFailed))"

definition workerdStop :: "daemonAct list \<times> bool \<Rightarrow> int" where
  "workerdStop r = (if snd r then 1 else 0)"

section \<open>Roles\<close>

definition roleShim :: string where "roleShim = ''shim''"
definition roleMasterd :: string where "roleMasterd = ''masterd''"
definition roleWorkerd :: string where "roleWorkerd = ''workerd''"
definition roleVersion :: string where "roleVersion = ''version''"

definition resolveRole :: "string \<Rightarrow> string list \<Rightarrow> (string \<times> string list) option" where
  "resolveRole argv0Base args =
     (if argv0Base = ''Plex Transcoder'' \<or> argv0Base = ''prt-shim'' then Some (roleShim, args)
      else if argv0Base = ''prt-masterd'' then Some (roleMasterd, args)
      else if argv0Base = ''prt-workerd'' then Some (roleWorkerd, args)
      else case args of
          [] \<Rightarrow> None
        | a # rest \<Rightarrow> if a \<in> {roleShim, roleMasterd, roleWorkerd, roleVersion} then Some (a, rest) else None)"

lemma resolveRole_shim: "resolveRole ''Plex Transcoder'' args = Some (roleShim, args)"
  by (simp add: resolveRole_def)

section \<open>Who reaches a handler\<close>

lemma find_Some_mem: "find P xs = Some x \<Longrightarrow> x \<in> set xs \<and> P x"
  by (induction xs) (auto split: if_splits)

lemma serve_handled:
  assumes "serve digest token table m p auth = Handled_by h vs"
  shows "\<exists>r \<in> set table. rt_handler r = h \<and> methodMatches (rt_method r) m \<and> (rt_auth r \<longrightarrow> Middleware digest token auth)"
proof -
  let ?hits = "filter (\<lambda>r. matchSegs (rt_segs r) (splitOn CHR ''/'' (tl p)) \<noteq> None) table"
  obtain r where r: "find (\<lambda>r. methodMatches (rt_method r) m) ?hits = Some r" "rt_handler r = h"
      "rt_auth r \<longrightarrow> Middleware digest token auth"
    using assms by (auto simp: serve_def Let_def split: if_splits option.splits)
  from find_Some_mem [OF r(1)] r(2,3) show ?thesis by auto
qed

section \<open>URLs that one process builds for another\<close>

lemma cleanTarget_absPath:
  assumes "properComps cs" "cs \<noteq> []"
  shows "cleanTarget (absPath cs)" "splitOn CHR ''/'' (tl (absPath cs)) = cs"
proof -
  show "cleanTarget (absPath cs)" using assms by (simp add: cleanTarget_def)
  show "splitOn CHR ''/'' (tl (absPath cs)) = cs"
    using assms by (simp add: absPath_def splitOn_joinWith properComps_no_slash)
qed

lemma pathUnescapeOr_escape [simp]: "pathUnescapeOr (PathEscape s) = s"
  by (simp add: pathUnescapeOr_def)

lemma unescape_plain: "CHR ''%'' \<notin> set s \<Longrightarrow> PathUnescape s = Some s"
  by (induction s) auto

lemma pathUnescapeOr_plain: "CHR ''%'' \<notin> set s \<Longrightarrow> pathUnescapeOr s = s"
  by (simp add: pathUnescapeOr_def unescape_plain)

lemma PathEscape_proper:
  assumes "s \<notin> {[], ''.'', ''..''}"
  shows "properComp (PathEscape s)"
proof -
  have "PathEscape s \<noteq> t" if "t \<in> {[], ''.'', ''..''}" for t
  proof
    assume "PathEscape s = t"
    then have "PathUnescape t = Some s" using PathUnescape_PathEscape [of s] by simp
    then show False using assms that by auto
  qed
  moreover have "CHR ''/'' \<notin> set (PathEscape s)" using PathEscape_chars [of "CHR ''/''" s] by auto
  ultimately show ?thesis by (simp add: properComp_def)
qed

lemma plain_words [simp]:
  "pathUnescapeOr ''v1'' = ''v1''" "pathUnescapeOr ''sessions'' = ''sessions''" "pathUnescapeOr ''files'' = ''files''"
  "pathUnescapeOr ''media'' = ''media''" "pathUnescapeOr ''codecs'' = ''codecs''" "pathUnescapeOr ''manifest'' = ''manifest''"
  "pathUnescapeOr ''workers'' = ''workers''" "pathUnescapeOr ''relay'' = ''relay''" "pathUnescapeOr ''jobs'' = ''jobs''"
  "pathUnescapeOr ''events'' = ''events''" "pathUnescapeOr ''provision'' = ''provision''" "pathUnescapeOr ''health'' = ''health''"
  by (rule pathUnescapeOr_plain; simp)+

lemma proper_words [simp]:
  "properComp ''v1''" "properComp ''sessions''" "properComp ''files''" "properComp ''media''" "properComp ''codecs''"
  "properComp ''manifest''" "properComp ''workers''" "properComp ''relay''" "properComp ''jobs''" "properComp ''events''"
  "properComp ''provision''" "properComp ''health''"
  by (simp_all add: properComp_def)

lemma serve_comps:
  assumes "properComps cs" "cs \<noteq> []"
  shows "serve digest token table m (absPath cs) auth =
    (let hits = filter (\<lambda>r. matchSegs (rt_segs r) cs \<noteq> None) table
     in if hits = [] then NotFound
        else (case find (\<lambda>r. methodMatches (rt_method r) m) hits of
                None \<Rightarrow> MethodNotAllowed
              | Some r \<Rightarrow>
                  if rt_auth r \<and> \<not> Middleware digest token auth then Unauthorized
                  else Handled_by (rt_handler r) (the (matchSegs (rt_segs r) cs))))"
  unfolding serve_def Let_def cleanTarget_absPath(2) [OF assms] using cleanTarget_absPath(1) [OF assms] by simp

lemma properComp_ne: "properComp c \<Longrightarrow> c \<noteq> []"
  by (simp add: properComp_def)

lemmas route_simps = routes_def apiHandler_def serve_comps masterRoutes_def authedRoutes_def methodMatches_def properComp_ne

lemma validID_path: "validID i \<Longrightarrow> properComp i \<and> pathUnescapeOr i = i"
proof -
  assume i: "validID i"
  then have "list_all idChar (tl i)" "isAlnum (hd i)" "i \<noteq> []" by (cases i; simp add: validID_def)+
  moreover have "\<not> idChar CHR ''%''" "\<not> isAlnum CHR ''%''" by (simp_all add: idChar_def isAlnum_def isDigit_def isUpper_def isLower_def)
  ultimately have "CHR ''%'' \<notin> set i" by (cases i) (auto simp: list_all_iff)
  then show ?thesis using validID_proper [OF i] pathUnescapeOr_plain by simp
qed

lemma escape_segments_one: "CHR ''/'' \<notin> set n \<Longrightarrow> escapePathSegments n = PathEscape n"
  by (simp add: escapePathSegments_def splitOn_absent)

text \<open>The paths the URL builders append to a base, as lists of components.\<close>

lemma url_paths:
  "sessionURL cfg i = trimRight (sc_MasterdURL cfg) ''/'' @ absPath [''v1'', ''sessions'', i]"
  "i \<noteq> [] \<Longrightarrow> CHR ''/'' \<notin> set i \<Longrightarrow>
     pushTarget (adv @ ''/v1/sessions/'' @ i) n = adv @ absPath [''v1'', ''sessions'', i, ''files'', PathEscape n]"
  "manifestURL wcfg b = masterURL wcfg @ absPath [''v1'', ''codecs'', PathEscape b, ''manifest'']"
  "CHR ''/'' \<notin> set n \<Longrightarrow> codecFileURL wcfg b n = masterURL wcfg @ absPath [''v1'', ''codecs'', PathEscape b, ''files'', PathEscape n]"
  "dispatchURL w = w @ absPath [''v1'', ''jobs'']"
proof -
  show "pushTarget (adv @ ''/v1/sessions/'' @ i) n = adv @ absPath [''v1'', ''sessions'', i, ''files'', PathEscape n]"
    if "i \<noteq> []" "CHR ''/'' \<notin> set i"
  proof -
    have "last i \<noteq> CHR ''/''" using that last_in_set by fastforce
    then have "last (adv @ ''/v1/sessions/'' @ i) \<noteq> CHR ''/''" using that(1) by (simp add: last_append)
    then have "\<not> suffix ''/'' (adv @ ''/v1/sessions/'' @ i)" by (metis last_snoc suffix_def)
    then show ?thesis by (simp add: pushTarget_def trimSuffix_absent absPath_def)
  qed
qed (simp_all add: sessionURL_def manifestURL_def codecFileURL_def dispatchURL_def absPath_def escape_segments_one)

section \<open>Properties\<close>





text \<open>
  A codec file in a directory of its own is listed by no manifest of masterd and could not be
  fetched either: the route of codec files takes one path segment, although the worker accepts
  and escapes nested names, and looks for the audio encoder in such a place.
\<close>

lemma nested_codec_unserved:
  assumes "validID b" "a \<notin> {[], ''.'', ''..''}" "CHR ''/'' \<notin> set a" "n \<notin> {[], ''.'', ''..''}" "CHR ''/'' \<notin> set n"
  shows "\<exists>p. codecFileURL wcfg b (a @ ''/'' @ n) = masterURL wcfg @ p \<and> routes digest token ''GET'' p auth = NotFound"
proof -
  have "b \<notin> {[], ''.'', ''..''}" using validID_path [OF assms(1)] by (auto simp: properComp_def)
  note p = PathEscape_proper [OF this] PathEscape_proper [OF assms(2)] PathEscape_proper [OF assms(4)]
  have "splitOn CHR ''/'' (a @ ''/'' @ n) = [a, n]" using assms(3,5) splitOn_append [of "CHR ''/''" a n] by (simp add: splitOn_absent)
  then have "codecFileURL wcfg b (a @ ''/'' @ n) =
      masterURL wcfg @ absPath [''v1'', ''codecs'', PathEscape b, ''files'', PathEscape a, PathEscape n]"
    by (simp add: codecFileURL_def escapePathSegments_def absPath_def)
  then show ?thesis using p by (simp add: route_simps)
qed

text \<open>The relay: masterd decodes the rest of the path and sends it on decoded, so an escaped slash does
  not survive the hop, although the request line is to travel verbatim.\<close>

lemma relay_decodes:
  "routes digest token ''GET'' (absPath [''relay'', ''j'', ''a%2Fb'']) auth \<in> {Unauthorized, Handled_by HRelay [''j'', ''a/b'']} \<and>
   or_path (relayRewrite ''a/b'' q hs) = ''/a/b''"
proof -
  have u: "pathUnescapeOr ''a%2Fb'' = ''a/b''" "pathUnescapeOr ''j'' = ''j''" by code_simp+
  have "properComps [''relay'', ''j'', ''a%2Fb'']" by (simp add: properComp_def)
  then show ?thesis using u by (simp add: routes_def serve_comps masterRoutes_def methodMatches_def relayRewrite_def)
qed

text \<open>A daemon serves only with a valid configuration and a non-empty token, and exits with 2 for its
  command line, with 1 for everything else.\<close>

lemma masterdRun_serves:
  "masterdRun flags conf tokenFile pmsOk = Serving s \<longleftrightarrow>
   (\<exists>path cfg token. flags = Some path \<and> path \<noteq> [] \<and> LoadMasterd conf = Inr cfg \<and> LoadToken tokenFile = Some token \<and>
      newServer cfg token pmsOk = Some s)"
  by (auto simp: masterdRun_def split: option.split sum.split)

lemma workerdRun_serves:
  "workerdRun flags conf tokenFile versionFile = Serving (d, token) \<longleftrightarrow>
   (\<exists>path cfg build. flags = Some path \<and> path \<noteq> [] \<and> LoadWorkerd conf = Inr cfg \<and> LoadToken tokenFile = Some token \<and>
      plexBuildFromDir versionFile (wc_PlexDir cfg) = Some build \<and> d = newDaemon cfg build)"
  by (auto simp: workerdRun_def split: option.split sum.split)

text \<open>Every listener the worker opened is closed again, on every path, after the daemon's context is cancelled
  if its loops were started.\<close>

lemma workerdServe_closes:
  assumes "workerdServe cfg mkdirOk listenOk cause = (acts, failed)" "Listening a \<in> set acts"
  shows "\<exists>before after. acts = before @ Closed a # after \<and> Listening a \<in> set before \<and>
    (StartEAE \<in> set acts \<longrightarrow> CancelDaemon \<in> set before)"
proof -
  let ?a = "wc_Listen cfg" and ?p = "wc_ProxyListen cfg"
  let ?dirs = "[MadeDir (jobsRoot cfg), MadeDir (codecsRoot cfg)]"
  let ?up = "?dirs @ [Listening ?a, Listening ?p, StartReaper, StartEAE, CancelDaemon]"
  from assms consider (one) "acts = (?dirs @ [Listening ?a]) @ Closed ?a # []" "a = ?a"
    | (api) "acts = ?up @ Closed ?a # [Closed ?p]" "a = ?a"
    | (relay) "acts = (?up @ [Closed ?a]) @ Closed ?p # []" "a = ?p"
    by (auto simp: workerdServe_def Let_def split: if_splits)
  then show ?thesis
  proof cases
    case one
    then show ?thesis by (intro exI [of _ "?dirs @ [Listening ?a]"] exI [of _ "[]"]) simp
  next
    case api
    then show ?thesis by (intro exI [of _ ?up] exI [of _ "[Closed ?p]"]) simp
  next
    case relay
    then show ?thesis by (intro exI [of _ "?up @ [Closed ?a]"] exI [of _ "[]"]) simp
  qed
qed

end
