(* ===== verification/ProvisionRun.thy ===== *)
theory ProvisionRun
  imports Build Transition Protocol "HOL-Library.AList"
begin

text \<open>
  \<^verbatim>\<open>provisionBuild\<close> and \<^verbatim>\<open>handleProvision\<close> (\<^verbatim>\<open>internal/workerd/provision.go\<close>, \<^verbatim>\<open>workerd.go\<close>):
  concurrent provisions of one build share one fetch.  A run is its build and its phase; the
  fetching thread ends the fetch, forgets the run under the lock, and closes its channel, in
  three steps between which callers come and go.
\<close>

datatype phase = Fetching | Fetched bool | Forgotten bool | Closed bool

record provisionRun =
  pr_build :: string
  pr_phase :: phase

datatype caller = Refused | Waiting nat | Returned nat bool | GaveUp nat

record flights =
  fl_prov :: "(string \<times> nat) list"
  fl_runs :: "provisionRun list"
  fl_callers :: "(nat \<times> string \<times> caller) list"

definition noFlights :: flights where
  "noFlights = \<lparr>fl_prov = [], fl_runs = [], fl_callers = []\<rparr>"

text \<open>The critical section of \<^verbatim>\<open>provisionBuild\<close>: join the run of the build or start one.\<close>

definition provisionBuild :: "nat \<Rightarrow> string \<Rightarrow> flights \<Rightarrow> flights" where
  "provisionBuild c build s =
     (if \<not> validID build then s\<lparr>fl_callers := (c, build, Refused) # fl_callers s\<rparr>
      else case map_of (fl_prov s) build of
          Some r \<Rightarrow> s\<lparr>fl_callers := (c, build, Waiting r) # fl_callers s\<rparr>
        | None \<Rightarrow>
            let r = length (fl_runs s) in
            s\<lparr>fl_prov := (build, r) # fl_prov s, fl_runs := fl_runs s @ [\<lparr>pr_build = build, pr_phase = Fetching\<rparr>],
              fl_callers := (c, build, Waiting r) # fl_callers s\<rparr>)"

definition phaseOf :: "nat \<Rightarrow> flights \<Rightarrow> phase option" where
  "phaseOf r s = (if r < length (fl_runs s) then Some (pr_phase (fl_runs s ! r)) else None)"

definition setPhase :: "nat \<Rightarrow> phase \<Rightarrow> flights \<Rightarrow> flights" where
  "setPhase r p s = s\<lparr>fl_runs := (fl_runs s)[r := (fl_runs s ! r)\<lparr>pr_phase := p\<rparr>]\<rparr>"

datatype faction =
    FCall nat string | FEnd nat bool | FForget nat | FClose nat | FReturn nat | FGiveUp nat

fun fstep :: "faction \<Rightarrow> flights \<Rightarrow> flights option" where
  "fstep (FCall c build) s =
     (if map_of (fl_callers s) c \<noteq> None then None else Some (provisionBuild c build s))"
| "fstep (FEnd r ok) s =
     (case phaseOf r s of Some Fetching \<Rightarrow> Some (setPhase r (Fetched ok) s) | _ \<Rightarrow> None)"
| "fstep (FForget r) s =
     (case phaseOf r s of
        Some (Fetched ok) \<Rightarrow>
          Some ((setPhase r (Forgotten ok) s)\<lparr>fl_prov := AList.delete (pr_build (fl_runs s ! r)) (fl_prov s)\<rparr>)
      | _ \<Rightarrow> None)"
| "fstep (FClose r) s =
     (case phaseOf r s of Some (Forgotten ok) \<Rightarrow> Some (setPhase r (Closed ok) s) | _ \<Rightarrow> None)"
| "fstep (FReturn c) s =
     (case map_of (fl_callers s) c of
        Some (build, Waiting r) \<Rightarrow>
          (case phaseOf r s of
             Some (Closed ok) \<Rightarrow> Some (s\<lparr>fl_callers := AList.update c (build, Returned r ok) (fl_callers s)\<rparr>)
           | _ \<Rightarrow> None)
      | _ \<Rightarrow> None)"
| "fstep (FGiveUp c) s =
     (case map_of (fl_callers s) c of
        Some (build, Waiting r) \<Rightarrow> Some (s\<lparr>fl_callers := AList.update c (build, GaveUp r) (fl_callers s)\<rparr>)
      | _ \<Rightarrow> None)"

text \<open>\<^verbatim>\<open>handleProvision\<close>: the answer for what became of the call; \<open>None\<close> while it waits.\<close>

definition handleProvision :: "caller \<Rightarrow> HttpReply option" where
  "handleProvision c =
     (case c of
        Refused \<Rightarrow> Some (Reply 400 ''BAD_REQUEST'')
      | Returned r True \<Rightarrow> Some (Reply 204 [])
      | Returned r False \<Rightarrow> Some (Reply 502 ''PROVISION_FAILED'')
      | GaveUp r \<Rightarrow> Some (Reply 502 ''PROVISION_FAILED'')
      | Waiting r \<Rightarrow> None)"

section \<open>Invariant\<close>

definition listed :: "phase \<Rightarrow> bool" where
  "listed p = (case p of Fetching \<Rightarrow> True | Fetched ok \<Rightarrow> True | _ \<Rightarrow> False)"

definition callerOk :: "flights \<Rightarrow> string \<Rightarrow> caller \<Rightarrow> bool" where
  "callerOk s build c =
     (case c of
        Refused \<Rightarrow> \<not> validID build
      | Waiting r \<Rightarrow> r < length (fl_runs s) \<and> pr_build (fl_runs s ! r) = build
      | Returned r ok \<Rightarrow> r < length (fl_runs s) \<and> pr_build (fl_runs s ! r) = build \<and> pr_phase (fl_runs s ! r) = Closed ok
      | GaveUp r \<Rightarrow> r < length (fl_runs s) \<and> pr_build (fl_runs s ! r) = build)"

definition runOk :: "flights \<Rightarrow> nat \<Rightarrow> bool" where
  "runOk s r \<longleftrightarrow> validID (pr_build (fl_runs s ! r)) \<and>
     (listed (pr_phase (fl_runs s ! r)) \<longleftrightarrow> map_of (fl_prov s) (pr_build (fl_runs s ! r)) = Some r)"

definition flightInv :: "flights \<Rightarrow> bool" where
  "flightInv s \<longleftrightarrow> (\<forall>r < length (fl_runs s). runOk s r) \<and>
     (\<forall>b r. map_of (fl_prov s) b = Some r \<longrightarrow> r < length (fl_runs s) \<and> pr_build (fl_runs s ! r) = b) \<and>
     (\<forall>(c, b, st) \<in> set (fl_callers s). callerOk s b st)"

lemma flightInv_parts:
  assumes "flightInv s"
  shows "r < length (fl_runs s) \<Longrightarrow> runOk s r"
    and "map_of (fl_prov s) b = Some r \<Longrightarrow> r < length (fl_runs s) \<and> pr_build (fl_runs s ! r) = b"
    and "(c, b, st) \<in> set (fl_callers s) \<Longrightarrow> callerOk s b st"
  using assms unfolding flightInv_def by blast+

lemma callerOk_more:
  "callerOk s b st \<Longrightarrow> \<forall>r < length (fl_runs s). r < length (fl_runs t) \<and> pr_build (fl_runs t ! r) = pr_build (fl_runs s ! r) \<and>
     (\<forall>ok. pr_phase (fl_runs s ! r) = Closed ok \<longrightarrow> pr_phase (fl_runs t ! r) = Closed ok) \<Longrightarrow> callerOk t b st"
  by (auto simp: callerOk_def split: caller.splits)

lemma phaseOf_Some: "phaseOf r s = Some p \<longleftrightarrow> r < length (fl_runs s) \<and> pr_phase (fl_runs s ! r) = p"
  by (auto simp: phaseOf_def)

lemma set_alist_update: "set (AList.update k v al) \<subseteq> insert (k, v) (set al)"
  by (induction al) auto

text \<open>A change of the phase of one run, with the table of runs as it has to be then.\<close>

lemma phase_inv:
  assumes inv: "flightInv s" and r: "r < length (fl_runs s)"
    and closed: "\<forall>ok. pr_phase (fl_runs s ! r) \<noteq> Closed ok"
    and old: "listed p \<Longrightarrow> listed (pr_phase (fl_runs s ! r))"
    and prov: "map_of prov = (if listed p = listed (pr_phase (fl_runs s ! r)) then map_of (fl_prov s)
      else (map_of (fl_prov s))(pr_build (fl_runs s ! r) := None))"
  shows "flightInv ((setPhase r p s)\<lparr>fl_prov := prov\<rparr>)"
proof -
  let ?t = "(setPhase r p s)\<lparr>fl_prov := prov\<rparr>"
  have runs: "fl_runs (setPhase r p s) ! q = (if q = r then (fl_runs s ! r)\<lparr>pr_phase := p\<rparr> else fl_runs s ! q)"
      "length (fl_runs (setPhase r p s)) = length (fl_runs s)" "fl_callers (setPhase r p s) = fl_callers s" for q
    using r by (simp_all add: setPhase_def nth_list_update)
  note ok_r = flightInv_parts(1) [OF inv r, unfolded runOk_def]
  have caller: "callerOk ?t b st" if "callerOk s b st" for b st
    using that by (rule callerOk_more) (use closed in \<open>auto simp: runs\<close>)
  have run: "runOk ?t q" if q: "q < length (fl_runs s)" for q
  proof (cases "q = r")
    case True
    then show ?thesis using ok_r old prov by (auto simp: runOk_def runs)
  next
    case False
    note ok_q = flightInv_parts(1) [OF inv q, unfolded runOk_def]
    have "map_of prov (pr_build (fl_runs s ! q)) = Some q \<longleftrightarrow> map_of (fl_prov s) (pr_build (fl_runs s ! q)) = Some q"
      using ok_r old False unfolding prov by auto
    then show ?thesis using ok_q False by (simp add: runOk_def runs)
  qed
  have "map_of prov b = Some q \<Longrightarrow> map_of (fl_prov s) b = Some q" for b q
    unfolding prov by (simp split: if_splits)
  then show ?thesis
    unfolding flightInv_def using run caller flightInv_parts [OF inv] by (fastforce simp: runs)
qed

lemma call_inv:
  assumes inv: "flightInv s"
  shows "flightInv (provisionBuild c build s)"
proof -
  note parts = flightInv_parts [OF inv]
  let ?t = "provisionBuild c build s"
  consider "\<not> validID build" | r where "validID build" "map_of (fl_prov s) build = Some r"
    | "validID build" "map_of (fl_prov s) build = None" by fastforce
  then show ?thesis
  proof cases
    case 1
    then have t: "?t = s\<lparr>fl_callers := (c, build, Refused) # fl_callers s\<rparr>" by (simp add: provisionBuild_def)
    have "callerOk ?t b st = callerOk s b st" for b st unfolding t by (simp add: callerOk_def split: caller.split)
    then show ?thesis using parts 1 unfolding flightInv_def t by (auto simp: runOk_def callerOk_def)
  next
    case 2
    then have t: "?t = s\<lparr>fl_callers := (c, build, Waiting r) # fl_callers s\<rparr>" by (simp add: provisionBuild_def)
    have "callerOk ?t b st = callerOk s b st" for b st unfolding t by (simp add: callerOk_def split: caller.split)
    then show ?thesis using parts 2 unfolding flightInv_def t by (auto simp: runOk_def callerOk_def)
  next
    case 3
    let ?n = "length (fl_runs s)"
    have t: "fl_prov ?t = (build, ?n) # fl_prov s" "fl_runs ?t = fl_runs s @ [\<lparr>pr_build = build, pr_phase = Fetching\<rparr>]"
        "fl_callers ?t = (c, build, Waiting ?n) # fl_callers s"
      using 3 by (simp_all add: provisionBuild_def Let_def)
    have caller: "callerOk ?t b st" if "callerOk s b st" for b st
      using that by (rule callerOk_more) (simp add: t nth_append)
    have run: "runOk ?t r" if "r < Suc ?n" for r
    proof (cases "r = ?n")
      case True
      then show ?thesis using 3 by (simp add: runOk_def t listed_def)
    next
      case False
      then have r: "r < ?n" using that by simp
      then show ?thesis using parts(1) [OF r] 3 False by (auto simp: runOk_def t nth_append)
    qed
    have prov: "r < Suc ?n \<and> pr_build (fl_runs ?t ! r) = b" if "map_of (fl_prov ?t) b = Some r" for b r
      using that parts(2) [of b r] by (auto simp: t nth_append split: if_splits)
    have "callerOk ?t build (Waiting ?n)" by (simp add: callerOk_def t)
    then show ?thesis
      unfolding flightInv_def using run prov caller parts(3) by (auto simp: t)
  qed
qed

lemma callers_inv:
  assumes "flightInv s" "callerOk s b st"
  shows "flightInv (s\<lparr>fl_callers := AList.update c (b, st) (fl_callers s)\<rparr>)"
proof -
  let ?t = "s\<lparr>fl_callers := AList.update c (b, st) (fl_callers s)\<rparr>"
  have "callerOk ?t b st = callerOk s b st" for b st by (simp add: callerOk_def split: caller.split)
  moreover have "callerOk s b' st'" if "(c', b', st') \<in> set (AList.update c (b, st) (fl_callers s))" for c' b' st'
    using that set_alist_update [of c "(b, st)" "fl_callers s"] flightInv_parts(3) [OF assms(1)] assms(2) by blast
  ultimately show ?thesis using flightInv_parts [OF assms(1)] unfolding flightInv_def by (auto simp: runOk_def)
qed

lemma phase_only_inv:
  assumes "flightInv s" "phaseOf r s = Some q" "\<forall>ok. q \<noteq> Closed ok" "listed p = listed q"
  shows "flightInv (setPhase r p s)"
proof -
  have "(setPhase r p s)\<lparr>fl_prov := fl_prov s\<rparr> = setPhase r p s" by (simp add: setPhase_def)
  moreover have "flightInv ((setPhase r p s)\<lparr>fl_prov := fl_prov s\<rparr>)"
    using assms by (intro phase_inv) (auto simp: phaseOf_Some)
  ultimately show ?thesis by simp
qed

lemma fstep_inv:
  assumes inv: "flightInv s" and st: "fstep a s = Some t"
  shows "flightInv t"
proof (cases a)
  case (FCall c b)
  then have "t = provisionBuild c b s" using st by (simp split: if_splits)
  then show ?thesis using call_inv [OF inv] by simp
next
  case (FEnd r ok)
  then have "phaseOf r s = Some Fetching" "t = setPhase r (Fetched ok) s" using st by (simp_all split: option.splits phase.splits)
  then show ?thesis using phase_only_inv [OF inv] by (simp add: listed_def)
next
  case (FForget r)
  then obtain ok where p: "phaseOf r s = Some (Fetched ok)"
      "t = (setPhase r (Forgotten ok) s)\<lparr>fl_prov := AList.delete (pr_build (fl_runs s ! r)) (fl_prov s)\<rparr>"
    using st by (simp split: option.splits phase.splits)
  show ?thesis
    unfolding p(2) using p(1) by (intro phase_inv [OF inv]) (simp_all add: phaseOf_Some listed_def delete_conv')
next
  case (FClose r)
  then obtain ok where "phaseOf r s = Some (Forgotten ok)" "t = setPhase r (Closed ok) s"
    using st by (simp split: option.splits phase.splits)
  then show ?thesis using phase_only_inv [OF inv] by (simp add: listed_def)
next
  case (FReturn c)
  then obtain b r ok where c: "map_of (fl_callers s) c = Some (b, Waiting r)" "phaseOf r s = Some (Closed ok)"
      "t = s\<lparr>fl_callers := AList.update c (b, Returned r ok) (fl_callers s)\<rparr>"
    using st by (auto split: option.splits caller.splits phase.splits)
  have "callerOk s b (Returned r ok)"
    using flightInv_parts(3) [OF inv map_of_SomeD [OF c(1)]] c(2) by (simp add: callerOk_def phaseOf_Some)
  then show ?thesis unfolding c(3) by (rule callers_inv [OF inv])
next
  case (FGiveUp c)
  then obtain b r where c: "map_of (fl_callers s) c = Some (b, Waiting r)"
      "t = s\<lparr>fl_callers := AList.update c (b, GaveUp r) (fl_callers s)\<rparr>"
    using st by (auto split: option.splits caller.splits)
  have "callerOk s b (GaveUp r)" using flightInv_parts(3) [OF inv map_of_SomeD [OF c(1)]] by (simp add: callerOk_def)
  then show ?thesis unfolding c(2) by (rule callers_inv [OF inv])
qed

interpretation provisions: invariant_of fstep "\<lambda>s. s = noFlights" flightInv
proof
  show "flightInv s" if "s = noFlights" for s using that by (simp add: flightInv_def noFlights_def)
qed (rule fstep_inv)

section \<open>Properties\<close>

lemma phaseOf_simps [simp]:
  "phaseOf r (s\<lparr>fl_prov := x\<rparr>) = phaseOf r s"
  "r < length (fl_runs s) \<Longrightarrow> phaseOf r (setPhase r p s) = Some p"
  "fl_callers (setPhase r p s) = fl_callers s" "length (fl_runs (setPhase r p s)) = length (fl_runs s)"
  by (simp_all add: phaseOf_def setPhase_def)

text \<open>A waiting caller is answered as soon as its run has been through its remaining phases.\<close>

lemma caller_returns:
  assumes "map_of (fl_callers s) c = Some (b, Waiting r)" "phaseOf r s = Some p"
  shows "\<exists>acts t ok. length acts \<le> 4 \<and> run_actions fstep acts s = Some t \<and> map_of (fl_callers t) c = Some (b, Returned r ok)"
proof -
  have r: "r < length (fl_runs s)" using assms(2) by (simp add: phaseOf_Some)
  show ?thesis
  proof (cases p)
    case Fetching
    then show ?thesis using assms r
      by (intro exI [of _ "[FEnd r True, FForget r, FClose r, FReturn c]"]) (auto simp: update_conv')
  next
    case (Fetched ok)
    then show ?thesis using assms r
      by (intro exI [of _ "[FForget r, FClose r, FReturn c]"]) (simp add: update_conv')
  next
    case (Forgotten ok)
    then show ?thesis using assms r by (intro exI [of _ "[FClose r, FReturn c]"]) (simp add: update_conv')
  next
    case (Closed ok)
    then show ?thesis using assms r by (intro exI [of _ "[FReturn c]"]) (simp add: update_conv')
  qed
qed



end
