(* ===== verification/Watcher.thy ===== *)
theory Watcher
  imports Strconv Prelude "HOL-Library.Word"
begin

unbundle bit_operations_syntax

text \<open>
  \<^verbatim>\<open>internal/workerd/watcher_linux.go\<close>: the inotify read loop.  A read returns a buffer of raw
  events, each a header of four 32-bit fields in the machine's byte order (little endian) and a
  name padded with NUL bytes; the loop delivers the names of completed files and stops with an
  error when the kernel's queue overflowed.
\<close>

section \<open>Raw events\<close>

definition IN_Q_OVERFLOW :: "32 word" where "IN_Q_OVERFLOW = 0x00004000"
definition IN_ISDIR :: "32 word" where "IN_ISDIR = 0x40000000"
definition IN_CLOSE_WRITE :: "32 word" where "IN_CLOSE_WRITE = 0x00000008"
definition IN_MOVED_TO :: "32 word" where "IN_MOVED_TO = 0x00000080"
definition SizeofInotifyEvent :: nat where "SizeofInotifyEvent = 16"

definition le32 :: "string \<Rightarrow> 32 word" where
  "le32 bs = foldr (\<lambda>c w. push_bit 8 w OR of_nat (ord c)) bs 0"

definition nul :: char where "nul = CHR 0x00"

datatype watchError = WatchOverflow | WatchRead

text \<open>
  One buffer: the names delivered and whether the loop goes on.  (A name length that points beyond
  the read buffer would be a slice out of range in the code; the kernel writes whole events, and
  the statements below are about the buffers it writes.)
\<close>

function parseBuffer :: "string \<Rightarrow> string list \<times> bool" where
  "parseBuffer buf =
     (if length buf < SizeofInotifyEvent then ([], True)
      else
        let mask = le32 (take 4 (drop 4 buf));
            len = unat (le32 (take 4 (drop 12 buf)));
            nameBytes = take len (drop SizeofInotifyEvent buf);
            rest = drop (SizeofInotifyEvent + len) buf;
            name = trimRight nameBytes [nul]
        in if mask AND IN_Q_OVERFLOW \<noteq> 0 then ([], False)
           else if mask AND IN_ISDIR \<noteq> 0 \<or> name = [] then parseBuffer rest
           else apfst ((#) name) (parseBuffer rest))"
  by pat_completeness auto
termination
  by (relation "measure length") (auto simp: SizeofInotifyEvent_def)

declare parseBuffer.simps [simp del]

text \<open>\<^verbatim>\<open>readLoop\<close>: the reads are buffers until one fails (\<open>closed\<close> when the watcher was closed).  The
  result is what went to Events and to Errors; \<open>None\<close> means it is still reading.\<close>

datatype watchRead = ReadBytes string | ReadFailed bool

fun readLoop :: "watchRead list \<Rightarrow> string list \<times> watchError option option" where
  "readLoop [] = ([], None)"
| "readLoop (ReadFailed closed # rs) = ([], Some (if closed then None else Some WatchRead))"
| "readLoop (ReadBytes buf # rs) =
     (case parseBuffer buf of
        (names, False) \<Rightarrow> (names, Some (Some WatchOverflow))
      | (names, True) \<Rightarrow> apfst ((@) names) (readLoop rs))"

section \<open>What the kernel writes\<close>

record kernelEvent =
  ke_mask :: "32 word"
  ke_name :: string
  ke_pad :: nat

definition bytes32 :: "32 word \<Rightarrow> string" where
  "bytes32 w = map (\<lambda>i. char_of (unat (drop_bit (8 * i) w AND 0xFF))) [0, 1, 2, 3]"

definition kernelBytes :: "kernelEvent \<Rightarrow> string" where
  "kernelBytes e =
     (let name = ke_name e @ replicate (ke_pad e) nul
      in bytes32 1 @ bytes32 (ke_mask e) @ bytes32 0 @ bytes32 (of_nat (length name)) @ name)"

definition wellFormed :: "kernelEvent \<Rightarrow> bool" where
  "wellFormed e \<longleftrightarrow> nul \<notin> set (ke_name e) \<and> length (ke_name e) + ke_pad e < 2 ^ 32"

definition overflowed :: "kernelEvent \<Rightarrow> bool" where
  "overflowed e \<longleftrightarrow> ke_mask e AND IN_Q_OVERFLOW \<noteq> 0"

definition completed :: "kernelEvent \<Rightarrow> bool" where
  "completed e \<longleftrightarrow> ke_mask e AND IN_ISDIR = 0 \<and> ke_name e \<noteq> []"

lemma length_bytes32 [simp]: "length (bytes32 w) = 4"
  by (simp add: bytes32_def)

lemma byte_back: "word_of_nat (unat (take_bit 8 v) mod 256) = take_bit 8 (v :: 32 word)"
proof -
  have "unat (take_bit 8 v) = take_bit 8 (unat v)" by (rule unsigned_take_bit_eq)
  then have "unat (take_bit 8 v) < 256" using take_bit_nat_less_exp [of 8 "unat v"] by simp
  then have "word_of_nat (unat (take_bit 8 v) mod 256) = (word_of_nat (unat (take_bit 8 v)) :: 32 word)" by simp
  also have "\<dots> = take_bit 8 v" by (simp add: of_nat_unat)
  finally show ?thesis .
qed

lemma le32_bytes32 [simp]: "le32 (bytes32 w) = w"
proof -
  have b: "v AND 0xFF = take_bit 8 v" for v :: "32 word" by (simp add: take_bit_eq_mask mask_numeral)
  have "le32 (bytes32 w) =
      push_bit 8 (push_bit 8 (push_bit 8 (take_bit 8 (drop_bit 24 w)) OR take_bit 8 (drop_bit 16 w)) OR take_bit 8 (drop_bit 8 w))
        OR take_bit 8 w"
    by (simp add: le32_def bytes32_def b byte_back)
  also have "\<dots> = w"
  proof (rule bit_word_eqI)
    fix n assume "n < LENGTH(32)"
    then have "n < 8 \<or> 8 \<le> n \<and> n < 16 \<or> 16 \<le> n \<and> n < 24 \<or> 24 \<le> n \<and> n < 32" by auto
    then show "bit (push_bit 8 (push_bit 8 (push_bit 8 (take_bit 8 (drop_bit 24 w)) OR take_bit 8 (drop_bit 16 w)) OR
        take_bit 8 (drop_bit 8 w)) OR take_bit 8 w) n = bit w n"
      by (elim disjE) (auto simp: bit_simps)
  qed
  finally show ?thesis .
qed

lemma unat_small: "n < 2 ^ 32 \<Longrightarrow> unat (word_of_nat n :: 32 word) = n"
  by (simp add: unat_of_nat take_bit_nat_eq_self)

lemma kernelBytes_fields:
  assumes "wellFormed e"
  shows "SizeofInotifyEvent \<le> length (kernelBytes e @ r)"
    and "le32 (take 4 (drop 4 (kernelBytes e @ r))) = ke_mask e"
    and "unat (le32 (take 4 (drop 12 (kernelBytes e @ r)))) = length (ke_name e) + ke_pad e"
    and "take (length (ke_name e) + ke_pad e) (drop SizeofInotifyEvent (kernelBytes e @ r)) = ke_name e @ replicate (ke_pad e) nul"
    and "drop (SizeofInotifyEvent + (length (ke_name e) + ke_pad e)) (kernelBytes e @ r) = r"
proof -
  define n where "n = length (ke_name e) + ke_pad e"
  have n: "length (ke_name e @ replicate (ke_pad e) nul) = n" by (simp add: n_def)
  have small: "unat (word_of_nat n :: 32 word) = n" using assms by (intro unat_small) (simp add: wellFormed_def n_def)
  note bytes = kernelBytes_def Let_def n
  show "SizeofInotifyEvent \<le> length (kernelBytes e @ r)" by (simp add: bytes SizeofInotifyEvent_def)
  show "le32 (take 4 (drop 4 (kernelBytes e @ r))) = ke_mask e" by (simp add: bytes)
  show "unat (le32 (take 4 (drop 12 (kernelBytes e @ r)))) = length (ke_name e) + ke_pad e"
    unfolding bytes by (simp add: small) (simp add: n_def)
  show "take (length (ke_name e) + ke_pad e) (drop SizeofInotifyEvent (kernelBytes e @ r)) = ke_name e @ replicate (ke_pad e) nul"
    by (simp add: bytes SizeofInotifyEvent_def)
  show "drop (SizeofInotifyEvent + (length (ke_name e) + ke_pad e)) (kernelBytes e @ r) = r"
    by (simp add: bytes SizeofInotifyEvent_def)
qed

lemma trimRight_pad: "nul \<notin> set n \<Longrightarrow> trimRight (n @ replicate k nul) [nul] = n"
proof -
  assume n: "nul \<notin> set n"
  have "dropWhile (\<lambda>c. c \<in> set [nul]) (replicate k nul @ rev n) = dropWhile (\<lambda>c. c \<in> set [nul]) (rev n)"
    by (induction k) simp_all
  also have "\<dots> = rev n" using n by (cases "rev n") (auto simp flip: set_rev [of n])
  finally show ?thesis by (simp add: trimRight_def)
qed

lemma parseBuffer_event:
  assumes "wellFormed e"
  shows "parseBuffer (kernelBytes e @ r) =
    (if overflowed e then ([], False) else if completed e then apfst ((#) (ke_name e)) (parseBuffer r) else parseBuffer r)"
proof -
  define buf where "buf = kernelBytes e @ r"
  note f = kernelBytes_fields [OF assms, of r, folded buf_def]
  have name: "trimRight (ke_name e @ replicate (ke_pad e) nul) [nul] = ke_name e"
    using assms by (intro trimRight_pad) (simp add: wellFormed_def)
  show ?thesis
    unfolding buf_def [symmetric] using f(1)
    by (subst parseBuffer.simps) (simp add: f(2-5) name Let_def overflowed_def completed_def)
qed



end
