(* ===== verification/Eae.thy ===== *)
theory Eae
  imports Daemon
begin

text \<open>
  \<^verbatim>\<open>internal/workerd/eae.go\<close>: the supervisor of the audio encoder.  A round of its loop either
  finds no binary or runs one for some time; the result is the list of the waits between
  rounds.  The lines of the child's output are logged by \<open>lineLogger\<close> from chunks of any size.
\<close>

section \<open>The supervisor\<close>

definition eaePollInterval :: int where "eaePollInterval = 10 * second"
definition eaeBackoffStart :: int where "eaeBackoffStart = second"
definition eaeBackoffCap :: int where "eaeBackoffCap = 30 * second"
definition eaeStableRun :: int where "eaeStableRun = minute"

datatype eaeRound = NoBinary | Ran int

fun eaeSupervisor :: "int \<Rightarrow> eaeRound list \<Rightarrow> int list" where
  "eaeSupervisor backoff [] = []"
| "eaeSupervisor backoff (NoBinary # rounds) = eaePollInterval # eaeSupervisor backoff rounds"
| "eaeSupervisor backoff (Ran d # rounds) =
     (let b = (if d \<ge> eaeStableRun then eaeBackoffStart else backoff)
      in b # eaeSupervisor (min (b * 2) eaeBackoffCap) rounds)"

definition eaeBinary :: "WorkerdConfig \<Rightarrow> string \<Rightarrow> (string \<Rightarrow> bool) \<Rightarrow> string" where
  "eaeBinary cfg build fileExists =
     (let base = codecsDir cfg build in
        case find fileExists [joinPath [base, ''EasyAudioEncoder''], joinPath [base, ''EasyAudioEncoder'', ''EasyAudioEncoder'']] of
          Some cand \<Rightarrow> cand | None \<Rightarrow> [])"

text \<open>\<^verbatim>\<open>runEAE\<close>: the stale pid files it removes and the command it runs.\<close>

definition eaePidFiles :: "WorkerdConfig \<Rightarrow> string list" where
  "eaePidFiles cfg = map (\<lambda>f. joinPath [wc_EAERoot cfg, f]) [''eae.pid'', ''EasyAudioEncoder.pid'']"

definition runEAE :: "WorkerdConfig \<Rightarrow> string \<Rightarrow> string \<times> string \<times> string list" where
  "runEAE cfg bin =
     (bin, wc_EAERoot cfg,
      [''HOME='' @ wc_EAERoot cfg, ''EAE_ROOT='' @ wc_EAERoot cfg,
       ''LD_LIBRARY_PATH='' @ joinPath [wc_PlexDir cfg, ''lib''], ''TMPDIR=/tmp''])"

section \<open>The line logger\<close>

definition lf :: char where "lf = CHR 0x0A"
definition cr :: char where "cr = CHR 0x0D"

text \<open>The loop of \<^verbatim>\<open>Write\<close> on the buffer: the lines logged and what stays in the buffer.\<close>

function takeLines :: "string \<Rightarrow> string list \<times> string" where
  "takeLines buf =
     (if lf \<notin> set buf then ([], buf)
      else let line = takeWhile (\<lambda>c. c \<noteq> lf) buf; rest = takeLines (drop (length line + 1) buf); t = trimRight line [cr]
           in (if t = [] then rest else apfst ((#) t) rest))"
  by pat_completeness auto
termination
proof (relation "measure length")
  fix buf :: string and line
  assume "\<not> lf \<notin> set buf"
  then have "0 < length buf" by (auto intro: length_pos_if_in_set)
  then show "(drop (length line + 1) buf, buf) \<in> measure length" by auto
qed simp

declare takeLines.simps [simp del]

definition logWrite :: "string \<Rightarrow> string list \<times> string \<Rightarrow> string list \<times> string" where
  "logWrite p s = (case s of (logged, buf) \<Rightarrow> apfst ((@) logged) (takeLines (buf @ p)))"

section \<open>Facts\<close>

lemma takeLines_none: "lf \<notin> set buf \<Longrightarrow> takeLines buf = ([], buf)"
  by (subst takeLines.simps) simp

lemma takeLines_line:
  "lf \<notin> set l \<Longrightarrow> takeLines (l @ lf # r) =
     (if trimRight l [cr] = [] then takeLines r else apfst ((#) (trimRight l [cr])) (takeLines r))"
  by (subst takeLines.simps) (simp add: takeWhile_append Let_def takeWhile_eq_all_conv)

lemma takeLines_append:
  "takeLines (a @ b) = apfst ((@) (fst (takeLines a))) (takeLines (snd (takeLines a) @ b))"
proof (induction "length a" arbitrary: a rule: less_induct)
  case less
  show ?case
  proof (cases "lf \<in> set a")
    case False
    then show ?thesis by (cases "takeLines (a @ b)") (simp add: takeLines_none)
  next
    case True
    then obtain l r where a: "a = l @ lf # r" "lf \<notin> set l" by (meson split_list_first)
    then have ih: "takeLines (r @ b) = apfst ((@) (fst (takeLines r))) (takeLines (snd (takeLines r) @ b))"
      using less [of r] by simp
    show ?thesis
      unfolding a(1) append_assoc append_Cons takeLines_line [OF a(2)] ih
      by (cases "takeLines (snd (takeLines r) @ b)"; cases "takeLines r") simp
  qed
qed

lemma takeLines_rest: "lf \<notin> set (snd (takeLines s))"
proof (induction "length s" arbitrary: s rule: less_induct)
  case less
  show ?case
  proof (cases "lf \<in> set s")
    case False
    then show ?thesis by (simp add: takeLines_none)
  next
    case True
    then obtain l r where s: "s = l @ lf # r" "lf \<notin> set l" by (meson split_list_first)
    then show ?thesis using less [of r] by (cases "takeLines r") (simp add: takeLines_line)
  qed
qed

lemma takeLines_split:
  "takeLines s = (filter (\<lambda>t. t \<noteq> []) (map (\<lambda>l. trimRight l [cr]) (butlast (splitOn lf s))), last (splitOn lf s))"
proof (induction "length s" arbitrary: s rule: less_induct)
  case less
  show ?case
  proof (cases "lf \<in> set s")
    case False
    then show ?thesis by (simp add: takeLines_none splitOn_absent)
  next
    case True
    then obtain l r where s: "s = l @ lf # r" "lf \<notin> set l" by (meson split_list_first)
    then show ?thesis using less [of r] by (simp add: takeLines_line splitOn_append)
  qed
qed

text \<open>However the output of the child is cut into writes, the log gets exactly its complete non-empty
  lines, without trailing carriage returns, in order; what follows the last newline stays in the
  buffer.\<close>

theorem lineLogger_chunks:
  "fold logWrite chunks ([], []) =
     (filter (\<lambda>t. t \<noteq> []) (map (\<lambda>l. trimRight l [cr]) (butlast (splitOn lf (concat chunks)))), last (splitOn lf (concat chunks)))"
proof -
  have "fold logWrite chunks ([], []) = takeLines (concat chunks)"
  proof (induction chunks rule: rev_induct)
    case Nil
    then show ?case by (simp add: takeLines_none)
  next
    case (snoc c cs)
    then show ?case using takeLines_append [of "concat cs" c]
      by (cases "takeLines (concat cs)") (simp add: logWrite_def)
  qed
  then show ?thesis by (simp add: takeLines_split)
qed

text \<open>The waits: between one and thirty seconds after a run, and after k short runs in a row at most
  doubled k times.\<close>

lemma eaeSupervisor_bounds:
  assumes "second \<le> b" "b \<le> 30 * second"
  shows "\<forall>w \<in> set (eaeSupervisor b rounds). second \<le> w \<and> w \<le> 30 * second"
  using assms
proof (induction b rounds rule: eaeSupervisor.induct)
  case (2 b rounds)
  have "second \<le> eaePollInterval" "eaePollInterval \<le> 30 * second"
    by (simp_all add: eaePollInterval_def second_def millisecond_def)
  then show ?case using 2 by simp
next
  case (3 b d rounds)
  have pos: "0 < second" by (simp add: second_def millisecond_def)
  let ?b = "if d \<ge> eaeStableRun then eaeBackoffStart else b"
  have b: "second \<le> ?b" "?b \<le> 30 * second" using 3(2,3) pos by (simp_all add: eaeBackoffStart_def)
  have "second \<le> min (x * 2) eaeBackoffCap \<and> min (x * 2) eaeBackoffCap \<le> 30 * second" if "second \<le> x" for x
    using that pos by (simp add: eaeBackoffCap_def)
  then have "\<forall>w \<in> set (eaeSupervisor (min (?b * 2) eaeBackoffCap) rounds). second \<le> w \<and> w \<le> 30 * second"
    using 3(1) [OF refl] b(1) by blast
  moreover have "eaeSupervisor b (Ran d # rounds) = ?b # eaeSupervisor (min (?b * 2) eaeBackoffCap) rounds"
    by (simp only: eaeSupervisor.simps Let_def)
  ultimately show ?case using b by (metis set_ConsD)
qed simp

lemma eaeSupervisor_doubles:
  "\<forall>d \<in> set ds. d < eaeStableRun \<Longrightarrow> b > 0 \<Longrightarrow> b \<le> eaeBackoffCap \<Longrightarrow>
   eaeSupervisor b (map Ran ds) = map (\<lambda>k. min (b * 2 ^ k) eaeBackoffCap) [0 ..< length ds]"
proof (induction ds arbitrary: b)
  case (Cons d ds)
  let ?b = "min (b * 2) eaeBackoffCap"
  have m: "min (?b * 2 ^ k) eaeBackoffCap = min (b * 2 ^ Suc k) eaeBackoffCap" for k
  proof (cases "b * 2 \<le> eaeBackoffCap")
    case False
    have "eaeBackoffCap * 1 \<le> eaeBackoffCap * 2 ^ k"
      by (rule mult_left_mono) (simp_all add: eaeBackoffCap_def duration_defs)
    moreover have "eaeBackoffCap * 1 \<le> b * 2 * 2 ^ k"
      using False by (intro mult_mono) (auto simp: eaeBackoffCap_def duration_defs)
    ultimately have "min (eaeBackoffCap * 2 ^ k) eaeBackoffCap = eaeBackoffCap" "min (b * 2 * 2 ^ k) eaeBackoffCap = eaeBackoffCap"
      by simp_all
    then show ?thesis using False by (simp add: mult.assoc)
  qed simp
  have "eaeSupervisor ?b (map Ran ds) = map (\<lambda>k. min (?b * 2 ^ k) eaeBackoffCap) [0 ..< length ds]"
    using Cons.prems by (intro Cons.IH) (auto simp: eaeBackoffCap_def duration_defs)
  also have "\<dots> = map (\<lambda>k. min (b * 2 ^ k) eaeBackoffCap) [Suc 0 ..< Suc (length ds)]"
    unfolding m by (simp add: map_Suc_upt [symmetric] del: upt_Suc)
  finally have rest: "eaeSupervisor ?b (map Ran ds) = \<dots>" .
  have "[0 ..< Suc (length ds)] = 0 # [Suc 0 ..< Suc (length ds)]" by (simp add: upt_conv_Cons del: upt_Suc)
  then show ?case using Cons.prems rest by (simp add: Let_def del: upt_Suc)
qed simp

end
