(* ===== verification/Spec2Isabelle.thy ===== *)
theory Spec2Isabelle
  imports EventHub JobOrder JobCancel JobWake JobContract PutAck MediaFiles Prober Shim Proxy Provision Pusher EventJson Prepare Server
    ProvisionRun Watcher Eae
begin

text \<open>
  Plex transcode offload: a model of the Go program of this repository (\<^verbatim>\<open>src/\<close>) and the theorems
  that make it correct.

  The program.  One binary, four roles (\<^verbatim>\<open>cmd/prt/main.go\<close>).  The \<^bold>\<open>shim\<close> stands in for Plex's
  transcoder on the master machine: it decides whether a job must stay local, registers a session
  with \<^bold>\<open>masterd\<close>, rewrites its argv (input files become signed masterd URLs, the output directory
  and the media server become placeholders), dispatches the job to a worker and follows its event
  stream; a failure before the first event of the job makes it the local transcoder, a later one
  its exit code.  \<^bold>\<open>masterd\<close>, on the master, takes
  the segments a worker pushes (HTTP PUT into the session directory), serves media files and the
  codec cache, relays callbacks to the media server and probes the workers.  \<^bold>\<open>workerd\<close>, on a worker,
  admits jobs, provisions codecs, runs the transcoder, watches its output directory, pushes every
  finished file to masterd, and puts a relay between the transcoder and the media server that holds
  an announce back until the chunks it names are acknowledged ("chunk before announce").

  Conventions.  Strings are lists of bytes; Go's \<^verbatim>\<open>int\<close> is \<open>int\<close>, with the bounds written out where
  \<^verbatim>\<open>strconv\<close> has them (\<open>inInt64\<close>), inotify fields are \<open>32 word\<close>.  An error return is an option or a
  sum, an early return a branch.  HTTP answers are \<open>HttpReply\<close>.  Every concurrent component is a
  partial step function \<open>action \<Rightarrow> state \<Rightarrow> state option\<close> (theory \<open>Transition\<close>): an action is one
  critical section of the code, one system call that others may come between, or one move of the
  environment (a clock tick, a file produced, a connection that breaks).  A theorem over \<open>reachable\<close>
  holds in every interleaving.  What the file system, the network, the clock or a hash answers is
  an argument of the definitions; HMAC and SHA-256 are functions that nothing is assumed of,
  except that a MAC is not empty where the code's test for a missing signature needs it.

  Theories, in dependency order.

  \<^item> \<open>Prelude\<close>, \<open>Strconv\<close>, \<open>GoPath\<close>, \<open>GoUrl\<close>: lists, options and splitting; decimal and hexadecimal
    conversion; \<^verbatim>\<open>path/filepath\<close> (\<open>clean\<close>, \<open>joinPath\<close>, and masterd's \<open>isUnder\<close>); query strings and
    escaping.  Lemmas: conversions and escapes round-trip, cleaning is idempotent, containment is
    the prefix order of path components.
  \<^item> \<open>Protocol\<close> (\<^verbatim>\<open>internal/protocol\<close>): constants, wire records, job states, events, placeholders.
  \<^item> \<open>EventHub\<close> (\<^verbatim>\<open>workerd/events.go\<close>): subscriptions with bounded channels; a send on or a close of a
    closed channel and a blocking send are outcomes, shown unreachable; no event but stderr is lost.
  \<^item> \<open>Job\<close>, \<open>JobSystem\<close> (\<^verbatim>\<open>workerd/job.go\<close>, \<^verbatim>\<open>pusher.go\<close>): the record of a job with every critical
    section on it, and its threads (\<^verbatim>\<open>run\<close>, the watcher, the upload workers, gates, cancels, the
    lifeline monitor) as a step function.  \<open>JobGate\<close>: chunk before announce.  \<open>JobLife\<close>: the order of
    states and events, and that \<^verbatim>\<open>run\<close> finishes (at most thirty moves of its own, the length of its
    code; waits end by their timeouts).  \<open>JobOrder\<close>: the life cycle as an order that every run climbs.  \<open>JobAccount\<close>, \<open>JobDrain\<close>: the accounting of the upload
    queue, what COMPLETED means, and two schedules in which it goes wrong.  \<open>JobCancel\<close>: what a cancel fixes,
    and the directory of a cancelled job.  \<open>JobWake\<close>: the condition variable.  \<open>JobContract\<close>: what is visible
    of a job as a transition system of its own, which the threads refine.
  \<^item> \<open>Pusher\<close>: the retries of one push.  \<open>Watcher\<close>: the bytes of inotify.  \<open>Prepare\<close>: spooling,
    placeholders, the command.  \<open>Subst\<close>, \<open>Tonemap\<close>: argv, environment and filter graphs.  \<open>Proxy\<close>: the
    relay and the chunk names of an announce.  \<open>Build\<close>: builds, drivers, identifiers.
  \<^item> \<open>Daemon\<close> (\<^verbatim>\<open>workerd/workerd.go\<close>): the table of jobs, each of them a whole system of \<open>JobSystem\<close>, so
    that the invariant of the table (locale \<open>finishing\<close> for the count) lifts every theorem on one
    job to the daemon.  \<open>Provision\<close>, \<open>ProvisionRun\<close>: one codec fetch over a file system, and the
    singleflight around it.  \<open>Eae\<close>: the supervisor of the audio encoder.
  \<^item> \<open>Authtok\<close> (\<^verbatim>\<open>internal/authtok\<close>): bearer tokens and signed URLs.  \<open>Config\<close>: the three configurations.
  \<^item> \<open>SessionStore\<close>, \<open>Masterd\<close> (\<^verbatim>\<open>masterd/sessions.go\<close>): the session table with its abstract life
    (a refinement), and the PUT handler as separate system calls on a file system with inodes.
    \<open>PutConfined\<close>, \<open>PutAck\<close>: where masterd writes and what a 200 means.  \<open>MediaFiles\<close>, \<open>Workers\<close>,
    \<open>Prober\<close>: media, codecs, the probe cache, its rounds and readers, and the relay of masterd.
  \<^item> \<open>Ndjson\<close>, \<open>EventJson\<close> (\<^verbatim>\<open>internal/ndjson\<close>): writer, reader and liveness watch over a codec that is
    the interface \<open>line_codec\<close>, and the JSON of an event, byte by byte, that satisfies it.
  \<^item> \<open>Classify\<close>, \<open>Rewrite\<close>, \<open>RewriteMedia\<close>, \<open>ShimJob\<close>, \<open>Shim\<close> (\<^verbatim>\<open>internal/shim\<close>): the decision to stay
    local, the argv rewrite and its media table, and the whole process up to exec or exit.
  \<^item> \<open>Server\<close>: routes, start and stop of the two daemons, roles.
  \<^item> This theory: properties that need several components at once.

  Interfaces.  \<open>invariant_of\<close> (an inductive invariant gives every reachable state) is interpreted on
  the job (six invariants), masterd (two), its prober, the daemon, the event stream and the provision runs;
  \<open>line_codec\<close> on the JSON of events; \<open>finishing\<close> on jobs.

  Bounds and fuel.  No definition uses fuel.  Loops that shrink their input have a measure; the
  liveness watch, which may sleep any number of times, is a partial function, and is proved to
  return.  A request of 16 random bytes and fewer than \<open>2 ^ 63\<close> media entries (the range of
  \<^verbatim>\<open>strconv.Atoi\<close>) are the only sizes assumed.

  Not modelled.  The HTTP client, server and mux beyond what the routes and the handlers use of
  them; the decoding of request bodies and configuration files by \<^verbatim>\<open>encoding/json\<close> (the decoded value
  is the argument); TCP; opening and closing inotify descriptors; process groups and signals beyond
  the fact that a cancelled transcoder exits; log lines and usage texts; the stub of the watcher for
  other platforms; the test programs.  Sleeps are steps whose time is chosen by the schedule.
\<close>

section \<open>The lifeline from the worker to Plex\<close>

lemma mirrored_events:
  "\<forall>ev \<in> set es. \<forall>c. ev \<noteq> EventExit c \<Longrightarrow> \<forall>p \<in> set (map LoopEvent es). \<not> endsLoop p"
proof -
  have "\<not> endsLoop (LoopEvent ev)" if "\<forall>c. ev \<noteq> EventExit c" for ev using that by (cases ev) auto
  then show "\<forall>ev \<in> set es. \<forall>c. ev \<noteq> EventExit c \<Longrightarrow> \<forall>p \<in> set (map LoopEvent es). \<not> endsLoop p" by auto
qed



section \<open>Announces of the daemon\<close>


definition demoRelay :: WorkerdConfig where
  "demoRelay = demoConfig\<lparr>wc_PushQueueCap := 4, wc_PushParallel := 2\<rparr>"


section \<open>Media from masterd to the worker\<close>

lemma absIn_abs:
  assumes "isAbs sd"
  shows "isAbs (absIn (newRewriter sd pd adv tok expiry) v) \<and>
    clean (absIn (newRewriter sd pd adv tok expiry) v) = absIn (newRewriter sd pd adv tok expiry) v"
proof -
  have idem: "isAbs q \<Longrightarrow> isAbs (clean q) \<and> clean (clean q) = clean q" for q
    using clean_abs_shape [of q] by auto
  from idem [OF assms] have "isAbs (clean sd)" by blast
  then have "isAbs (clean sd @ ''/'' @ v)" "clean sd \<noteq> []" by (auto simp: isAbs_def prefix_def)
  with idem have "isAbs (joinPath [clean sd, v])" by (simp add: joinPath_def)
  with idem show ?thesis by (simp add: absIn_def newRewriter_def)
qed

text \<open>C10: The input files of a transcode reach the worker: for every file the argv names after \<^verbatim>\<open>-i\<close>, the shim puts
  into the media map a URL below the advertised address whose target masterd routes to the media
  handler and answers, up to the expiry, with exactly that file (the cleaned absolute path), when
  the file exists, is readable and lies below a configured root.\<close>

theorem rewritten_input_served:
  assumes "rewriteArgs mac args (newRewriter sd pd adv tok expiry) = (out, rw)"
    and "(v, b) \<in> set (inputPairs args out)" "fileInput v" "isAbs sd" "inInt64 expiry" "\<forall>m. mac tok m \<noteq> []"
  shows "\<exists>i < length (rw_media rw). \<exists>target r file. b = MediaPlaceholder i \<and>
    mr_URL (snd (rw_media rw ! i)) = trimRight adv ''/'' @ target \<and> parseTarget target = Some r \<and>
    file = clean (if isAbs v then v else joinPath [clean sd, v]) \<and>
    routes digest tok ''GET'' (rq_path r) auth = Handled_by HMedia [] \<and>
    (\<forall>now \<le> expiry. \<forall>fi. allowedPath root mediaRoots file \<longrightarrow> stat file = Some fi \<longrightarrow> fi_readable fi \<longrightarrow> \<not> fi_isDir fi \<longrightarrow>
       handleMedia mac tok root mediaRoots stat now r = ServeFile file fi)"
proof -
  let ?rw0 = "newRewriter sd pd adv tok expiry"
  have step: "rwStep mac ?rw0 rw" using rewriteArgs_step [OF assms(1)] by simp
  then have ok: "rwOk mac rw" and ext: "rwExt ?rw0 rw" by (simp_all add: rwStep_def)
  let ?file = "absIn ?rw0 v"
  have "inputMode ?rw0 ?file \<in> {MediaModeStream, MediaModeSpool}" by (simp add: inputMode_def)
  from rwOk_entry [OF ok rewriteArgs_inputs [OF assms(1-3)] this] obtain i where
    i: "i < length (rw_media rw)" "b = MediaPlaceholder i" "mr_URL (snd (rw_media rw ! i)) = signedMediaURL mac rw ?file" by auto
  have rw: "rw_token rw = tok" "rw_expiry rw = expiry" "rw_advertise rw = trimRight adv ''/''"
    using ext by (simp_all add: rwExt_def newRewriter_def)
  have key: "mac (rw_token rw) m \<noteq> []" for m using assms(6) rw(1) by blast
  have exp: "inInt64 (rw_expiry rw)" using assms(5) rw(2) by simp
  have "\<exists>t r. signedMediaURL mac rw ?file = rw_advertise rw @ t \<and> parseTarget t = Some r \<and> rq_path r = ''/v1/media'' \<and>
      valuesGet ''path'' (parseQueryLax (rq_query r)) = ?file \<and>
      (\<forall>now. VerifySignedQuery mac tok now r = (if now > expiry then SigExpired else SigOk))"
  proof -
    obtain t r where t: "signedMediaURL mac rw ?file = rw_advertise rw @ t" "parseTarget t = Some r" "rq_path r = ''/v1/media''"
        "valuesGet ''path'' (parseQueryLax (rq_query r)) = ?file"
      using signedMediaURL_request [where mac = mac, OF exp key, of ?file] by blast
    have "VerifySignedQuery mac tok now r = (if now > expiry then SigExpired else SigOk)" for now
      using signedMediaURL_request [where mac = mac, OF exp key, of ?file now] t(1,2) unfolding rw by force
    with t show ?thesis by blast
  qed
  then obtain t r where t: "signedMediaURL mac rw ?file = rw_advertise rw @ t" "parseTarget t = Some r" "rq_path r = ''/v1/media''"
      "valuesGet ''path'' (parseQueryLax (rq_query r)) = ?file"
      "\<forall>now. VerifySignedQuery mac tok now r = (if now > expiry then SigExpired else SigOk)" by blast
  have path: "isAbs ?file" "clean ?file = ?file" "?file = clean (if isAbs v then v else joinPath [clean sd, v])"
    using absIn_abs [OF assms(4)] by (simp_all add: absIn_def newRewriter_def)
  have serve: "handleMedia mac tok root mediaRoots stat now r = ServeFile ?file fi"
    if "now \<le> expiry" "allowedPath root mediaRoots ?file" "stat ?file = Some fi" "fi_readable fi" "\<not> fi_isDir fi" for now fi
    using t(4,5) that path(1,2) by (auto simp: handleMedia_def isAbs_def Let_def)
  have p: "''/v1/media'' = absPath [''v1'', ''media'']" by (simp add: absPath_def)
  have route: "routes digest tok ''GET'' (rq_path r) auth = Handled_by HMedia []"
    unfolding t(3) p by (simp add: route_simps)
  show ?thesis
    using i t(1,2) rw(3) route path(3) serve
    by (intro exI [of _ i] conjI exI [of _ t] exI [of _ r] exI [of _ ?file]) auto
qed

lemma rewritten_input_served_witness:
  "\<exists>out rw i target r. rewriteArgs plainMac [''-i'', ''/m/a''] (newRewriter ''/t/s'' ''/p'' ''http://m'' ''k'' 9) = (out, rw) \<and>
     mr_URL (snd (rw_media rw ! i)) = trimRight ''http://m'' ''/'' @ target \<and> parseTarget target = Some r \<and>
     (\<exists>f fi. handleMedia plainMac ''k'' ''/t'' [''/m''] demoStat 5 r = ServeFile f fi)"
proof -
  let ?rw = "newRewriter ''/t/s'' ''/p'' ''http://m'' ''k'' 9"
  let ?fi = "\<lparr>fi_isDir = False, fi_regular = True, fi_size = 2, fi_modTime = 1, fi_content = ''ab'', fi_readable = True\<rparr>"
  obtain b rw where b: "rewriteInput plainMac ''/m/a'' ?rw = (b, rw)" by (metis surj_pair)
  have run: "rewriteArgs plainMac [''-i'', ''/m/a''] ?rw = ([''-i'', b], rw)"
    by (simp add: b)
  have h: "(''/m/a'', b) \<in> set (inputPairs [''-i'', ''/m/a''] [''-i'', b])" "fileInput ''/m/a''" "isAbs ''/t/s''" "inInt64 9"
    "\<forall>m. plainMac ''k'' m \<noteq> []"
    by (simp, code_simp, code_simp, code_simp, simp add: plainMac_nonempty)
  have c: "clean ''/m/a'' = ''/m/a''" "allowedPath ''/t'' [''/m''] ''/m/a''" by code_simp+
  have abs: "isAbs ''/m/a''" by code_simp
  obtain i target r f where i: "mr_URL (snd (rw_media rw ! i)) = trimRight ''http://m'' ''/'' @ target" "parseTarget target = Some r"
      "f = clean (if isAbs ''/m/a'' then ''/m/a'' else joinPath [clean ''/t/s'', ''/m/a''])"
      "\<forall>now \<le> 9. \<forall>fi. allowedPath ''/t'' [''/m''] f \<longrightarrow> demoStat f = Some fi \<longrightarrow> fi_readable fi \<longrightarrow> \<not> fi_isDir fi \<longrightarrow>
         handleMedia plainMac ''k'' ''/t'' [''/m''] demoStat now r = ServeFile f fi"
    using rewritten_input_served [OF run h, where stat = demoStat and root = "''/t''" and mediaRoots = "[''/m'']"] by blast
  have f: "f = ''/m/a''" unfolding i(3) by (simp only: abs if_True c(1))
  have "handleMedia plainMac ''k'' ''/t'' [''/m''] demoStat 5 r = ServeFile f ?fi"
    using i(4) [rule_format, of 5 ?fi] c(2) f by (simp add: demoStat_def)
  with i(1,2) run show ?thesis by blast
qed

text \<open>
  A fonts directory of a subtitles filter does not reach the worker: the rewrite puts it into the
  media map to be spooled, masterd serves no directory, and an entry that is refused fails the
  preparation of the job.
\<close>

lemma fontsdir_spooled:
  "map fst (rw_byPath (snd (rewriteToken mac ''[0:2]subtitles=f=/m/a.ass:fontsdir=/m/fonts:si=0[s]''
     (newRewriter ''/t/s'' ''/p'' ''http://m'' ''k'' 9)))) = [mediaKey MediaModeSpool ''/m/fonts'', mediaKey MediaModeSpool ''/m/a.ass'']"
  by code_simp

lemma directory_not_served:
  assumes "stat (clean (valuesGet ''path'' (parseQueryLax (rq_query r)))) = Some fi" "fi_isDir fi"
  shows "\<exists>reply. handleMedia mac token root roots stat now r = FileError reply \<and> reply_status reply \<noteq> 200"
  using assms by (auto simp: handleMedia_def Let_def)

lemma refused_not_spooled:
  "get u = Some a \<Longrightarrow> dl_status a \<noteq> 200 \<Longrightarrow> spool get writable sdir idx u files = (files, None)"
  by (simp add: spool_def)

section \<open>Requests from the shim to the worker\<close>

text \<open>C31: A dispatched request is well formed for the worker: it passes the checks of the admission whenever the
  build string is an identifier, the argv has two entries and masterd handed out a token; and an
  admitted one fails to be prepared only because of a download or of a placeholder that Plex's own
  argv contained, never for its media keys, its modes or its length.\<close>

theorem dispatched_request_well_formed:
  assumes "Run mac w args = Some (e, acts)" "Dispatch u req \<in> set acts"
    and "w_random w = Some bytes" "length bytes = 16" "int (length (jr_Media req)) < 2 ^ 63"
  shows "(badRequest req \<longleftrightarrow> \<not> validID (jr_PlexBuild req) \<or> length args < 2 \<or> si_PushToken (jr_Session req) = []) \<and>
    (\<forall>cfg hostPort driver get writable files files' err. \<not> badRequest req \<longrightarrow>
       prepare cfg hostPort driver get writable req files = (files', Inl err) \<longrightarrow>
       (\<exists>n. err = SpoolFailed n \<or> err = UnresolvedMedia n))"
proof -
  from Run_dispatch [OF assms(1,2)] obtain jobID cwd token argv0 reg where
    r: "randomJobID (w_random w) = Some jobID" "buildJobRequest mac w token cwd argv0 jobID args reg = Some req" by blast
  obtain argv rw where rw: "rewriteArgs mac args
      (newRewriter cwd (dir argv0) (rs_AdvertiseURL reg) token (w_now w + mediaURLTTL)) = (argv, rw)"
    by (metis surj_pair)
  have "length argv = length args" and ok: "rwOk mac rw"
    using rewriteArgs_step [OF rw] by (simp_all add: rwStep_def)
  then have req: "jr_JobID req = jobID" "length (jr_Argv req) = length args" "jr_Media req = rw_media rw"
      "jr_MasterPMS req \<noteq> []" "si_PushURL (jr_Session req) \<noteq> []"
    using r(2) by (auto simp: buildJobRequest_def rw Let_def)
  have "bytes \<noteq> []" using assms(4) by auto
  then have "validID jobID" using hex_validID [of bytes] r(1) assms(3,4) by (auto simp: randomJobID_def)
  then have bad: "badRequest req \<longleftrightarrow> \<not> validID (jr_PlexBuild req) \<or> length args < 2 \<or> si_PushToken (jr_Session req) = []"
    using req by (auto simp: badRequest_def)
  have "goodMedia (jr_Media req)"
    unfolding goodMedia_def
  proof clarify
    fix k ref assume "(k, ref) \<in> set (jr_Media req)"
    then obtain i where i: "i < length (rw_media rw)" "rw_media rw ! i = (k, ref)"
      by (auto simp: req(3) in_set_conv_nth)
    from rwOk_media [OF ok i(1)] i(2) have k: "k = decimal i" "mr_Mode ref \<in> {MediaModeStream, MediaModeSpool}" by auto
    have "int i < 2 ^ 63" using i(1) assms(5) req(3) by simp
    with k show "(\<exists>i \<ge> 0. atoi k = Some i) \<and> mr_Mode ref \<in> {MediaModeStream, MediaModeSpool}"
      using atoi_decimal [of i] by auto
  qed
  with bad prepare_error req(2) show ?thesis by (metis badRequest_def not_less)
qed

lemma addMedia_length: "length (rw_media (snd (addMedia mac a mode rw))) \<le> Suc (length (rw_media rw))"
  by (simp add: addMedia_def Let_def split: option.split)

lemma demoArgs_media: "length (rw_media (snd (rewriteArgs mac demoArgs rw))) \<le> Suc (length (rw_media rw))"
proof -
  have "rewriteFilterRefs mac (replaceAll ''%01d'' PMSURLPrefix PlaceholderPMS) rw1 = (''%01d'', rw1)" for rw1
    by code_simp
  then have t: "snd (rewriteToken mac ''%01d'' rw1) = rw1" for rw1
    by (simp add: rewriteToken_def split: option.split)
  have i: "length (rw_media (snd (rewriteInput mac ''a'' rw))) \<le> Suc (length (rw_media rw))"
    using addMedia_length by (simp add: rewriteInput_def Let_def)
  have "snd (rewriteArgs mac demoArgs rw) = snd (rewriteInput mac ''a'' rw)"
    by (simp add: demoArgs_def split_beta t)
  with i show ?thesis by simp
qed

lemma dispatched_request_well_formed_witness:
  "\<exists>e acts u req. Run plainMac (demoWorld [LoopEvent (EventStderr ''x''), LoopEvent (EventExit (Some 7))]) demoArgs = Some (e, acts) \<and>
     Dispatch u req \<in> set acts \<and> (badRequest req \<longleftrightarrow> \<not> validID (jr_PlexBuild req) \<or> si_PushToken (jr_Session req) = [])"
proof -
  let ?w = "demoWorld [LoopEvent (EventStderr ''x''), LoopEvent (EventExit (Some 7))]"
  obtain e acts u req where run: "Run plainMac ?w demoArgs = Some (e, acts)" "Dispatch u req \<in> set acts"
    using demo_exit_run by blast
  from Run_dispatch [OF run] obtain jobID cwd token argv0 reg where
    r: "buildJobRequest plainMac ?w token cwd argv0 jobID demoArgs reg = Some req" by blast
  have "length (jr_Media req) \<le> 1"
    using r demoArgs_media [of plainMac "newRewriter cwd (dir argv0) (rs_AdvertiseURL reg) token (w_now ?w + mediaURLTTL)"]
    by (auto simp: buildJobRequest_def newRewriter_def Let_def split_beta)
  then have "int (length (jr_Media req)) < 2 ^ 63" by simp
  moreover have "w_random ?w = Some ''0123456789abcdef''" by (simp add: demoWorld_def)
  ultimately have "badRequest req \<longleftrightarrow> \<not> validID (jr_PlexBuild req) \<or> length demoArgs < 2 \<or> si_PushToken (jr_Session req) = []"
    using dispatched_request_well_formed [OF run, THEN conjunct1] by simp
  with run show ?thesis by (auto simp: demoArgs_def)
qed

end
